(* ===== verification/Swan_Prelude.thy ===== *)
theory Swan_Prelude
  imports "HOL-Library.Word" "HOL-Library.Sublist"
begin

text \<open>
  Shared vocabulary of the development: octets and octet strings, the error
  values and the result type of every fallible Go function, sequencing of
  fallible steps, Go slice expressions, and big-endian integers with the
  lemmas that all codecs use.

  \<^item> A Go \<^verbatim>\<open>[]byte\<close> is a list of 8-bit words. Aliasing of sub-slices plays no
    role in the modelled functions: every buffer is either read only or owned.
  \<^item> A Go \<^verbatim>\<open>error\<close> made by \<^verbatim>\<open>fmt.Errorf\<close> or \<^verbatim>\<open>errors.New\<close> is
    \<open>Errorf\<close> of its fixed text (the formatted operands are dropped); the
    sentinels the code compares against have constructors of their own; a run
    time panic is the value \<open>Panic\<close>.
\<close>

unbundle bit_operations_syntax

section \<open>Types\<close>

type_synonym byte = "8 word"
type_synonym bytes = "8 word list"

datatype error =
    Errorf string
  | Panic string
  | ErrSeqWrapped
  | EOF
  | ErrUnexpectedEOF
  | ErrShortBuffer
  | ErrShortWrite
  | ErrClosedPipe
  | CtxDone

type_synonym 'a res = "error + 'a"

named_theorems codec_simps \<open>big-endian and slice facts used by codec round trips\<close>
named_theorems res_simps \<open>facts about sequencing of fallible steps\<close>

section \<open>Sequencing of fallible steps\<close>

definition bind_res :: "'a res \<Rightarrow> ('a \<Rightarrow> 'b res) \<Rightarrow> 'b res" where
  "bind_res m f = (case m of Inl e \<Rightarrow> Inl e | Inr x \<Rightarrow> f x)"

definition is_ok :: "'a res \<Rightarrow> bool" where
  "is_ok m = (case m of Inl _ \<Rightarrow> False | Inr _ \<Rightarrow> True)"

text \<open>\<open>wrap_err\<close> is \<^verbatim>\<open>fmt.Errorf\<close> with a fixed text around an error; \<open>deref\<close> is the use of a
  pointer, which panics on nil.\<close>

definition wrap_err :: "string \<Rightarrow> 'a res \<Rightarrow> 'a res" where
  "wrap_err text m = (case m of Inl e \<Rightarrow> Inl (Errorf text) | Inr x \<Rightarrow> Inr x)"

definition deref :: "'a option \<Rightarrow> 'a res" where
  "deref p = (case p of None \<Rightarrow> Inl (Panic ''nil pointer dereference'') | Some x \<Rightarrow> Inr x)"

section \<open>Slices and big-endian integers\<close>

text \<open>\<open>subslice b i j\<close> is the Go expression \<^verbatim>\<open>b[i:j]\<close> for \<open>i \<le> j \<le> len b\<close>.\<close>

definition subslice :: "'a list \<Rightarrow> nat \<Rightarrow> nat \<Rightarrow> 'a list" where
  "subslice b i j = take (j - i) (drop i b)"

text \<open>The octets of a 16, 32 or 64-bit integer, most significant first.\<close>

definition be16 :: "16 word \<Rightarrow> bytes" where
  "be16 v = [ucast (drop_bit 8 v), ucast v]"

definition be32 :: "32 word \<Rightarrow> bytes" where
  "be32 v = [ucast (drop_bit 24 v), ucast (drop_bit 16 v), ucast (drop_bit 8 v), ucast v]"

definition be64 :: "64 word \<Rightarrow> bytes" where
  "be64 v =
    [ucast (drop_bit 56 v), ucast (drop_bit 48 v), ucast (drop_bit 40 v), ucast (drop_bit 32 v),
     ucast (drop_bit 24 v), ucast (drop_bit 16 v), ucast (drop_bit 8 v), ucast v]"

section \<open>Lemmas on results\<close>

lemma bind_res_simps [simp, res_simps]:
  "bind_res (Inl e) f = Inl e"
  "bind_res (Inr x) f = f x"
  by (simp_all add: bind_res_def)

lemma bind_res_eq_Inr [res_simps]:
  "bind_res m f = Inr y \<longleftrightarrow> (\<exists>x. m = Inr x \<and> f x = Inr y)"
  by (cases m) auto

lemma bind_res_eq_InrE [elim!]:
  assumes "bind_res m f = Inr y"
  obtains x where "m = Inr x" "f x = Inr y"
  using assms by (auto simp: bind_res_eq_Inr)

lemma bind_res_assoc [res_simps]:
  "bind_res (bind_res m f) g = bind_res m (\<lambda>x. bind_res (f x) g)"
  by (cases m) auto

lemma is_ok_simps [simp]: "is_ok (Inr x)" "\<not> is_ok (Inl e)"
  by (simp_all add: is_ok_def)

lemma is_ok_iff: "is_ok m \<longleftrightarrow> (\<exists>x. m = Inr x)"
  by (cases m) auto

lemma wrap_err_simps [simp, res_simps]:
  "wrap_err s (Inr x) = Inr x" "wrap_err s (Inl e) = Inl (Errorf s)"
  "wrap_err s m = Inr y \<longleftrightarrow> m = Inr y"
  by (auto simp: wrap_err_def split: sum.split)

lemma deref_simps [simp, res_simps]:
  "deref (Some x) = Inr x" "deref None = Inl (Panic ''nil pointer dereference'')"
  "deref p = Inr y \<longleftrightarrow> p = Some y"
  by (auto simp: deref_def split: option.split)

lemma bind_res_cong [fundef_cong]:
  "m = m' \<Longrightarrow> (\<And>x. m' = Inr x \<Longrightarrow> f x = f' x) \<Longrightarrow> bind_res m f = bind_res m' f'"
  by (cases m') auto

section \<open>Lemmas on slices\<close>

lemma length_subslice [simp]: "length (subslice b i j) = min (j - i) (length b - i)"
  by (simp add: subslice_def)

lemma subslice_0 [simp]: "subslice b 0 j = take j b"
  by (simp add: subslice_def)

lemma subslice_all [simp]: "subslice b i (length b) = drop i b"
  by (simp add: subslice_def)

lemma subslice_append_left [codec_simps]:
  "j \<le> length a \<Longrightarrow> subslice (a @ b) i j = subslice a i j"
  by (simp add: subslice_def)

lemma subslice_append_right [codec_simps]:
  "length a \<le> i \<Longrightarrow> subslice (a @ b) i j = subslice b (i - length a) (j - length a)"
  by (simp add: subslice_def)

lemma nth_subslice [simp]:
  "k < j - i \<Longrightarrow> i \<le> length b \<Longrightarrow> subslice b i j ! k = b ! (i + k)"
  by (simp add: subslice_def)

lemma subslice_eq_Nil [simp]: "subslice b i j = [] \<longleftrightarrow> j \<le> i \<or> length b \<le> i"
  by (auto simp: subslice_def)

lemma drop_add: "drop (m + n) xs = drop n (drop m xs)"
  by (simp add: add.commute)

lemma take_subslice_drop:
  "i \<le> j \<Longrightarrow> j \<le> length b \<Longrightarrow> take i b @ subslice b i j @ drop j b = b"
  by (simp add: subslice_def) (metis append_take_drop_id drop_drop le_add_diff_inverse2)

lemma subslice_Cons_Suc [simp]: "subslice (x # b) (Suc i) (Suc j) = subslice b i j"
  by (simp add: subslice_def)

section \<open>Lemmas on big-endian integers\<close>

lemma length_be [simp]: "length (be16 v) = 2" "length (be32 w) = 4" "length (be64 u) = 8"
  by (simp_all add: be16_def be32_def be64_def)

lemma be_not_Nil [simp]: "be16 v \<noteq> []" "be32 w \<noteq> []" "be64 u \<noteq> []"
  by (simp_all add: be16_def be32_def be64_def)

lemma octet_bit_ge [simp]: "8 \<le> n \<Longrightarrow> \<not> bit (w :: 8 word) n"
  using bit_imp_le_length by fastforce

lemma octet_index_cases:
  fixes n :: nat
  assumes "n < 64"
  obtains m where "m < 8" "n = m \<or> n = 8 + m \<or> n = 16 + m \<or> n = 24 + m
     \<or> n = 32 + m \<or> n = 40 + m \<or> n = 48 + m \<or> n = 56 + m"
proof
  show "n mod 8 < 8" by simp
  show "n = n mod 8 \<or> n = 8 + n mod 8 \<or> n = 16 + n mod 8 \<or> n = 24 + n mod 8
     \<or> n = 32 + n mod 8 \<or> n = 40 + n mod 8 \<or> n = 48 + n mod 8 \<or> n = 56 + n mod 8"
  proof -
    have "n div 8 < 8" using assms by simp
    then have "n div 8 = 0 \<or> n div 8 = 1 \<or> n div 8 = 2 \<or> n div 8 = 3
       \<or> n div 8 = 4 \<or> n div 8 = 5 \<or> n div 8 = 6 \<or> n div 8 = 7" by linarith
    moreover have "n = 8 * (n div 8) + n mod 8" by simp
    ultimately show ?thesis by (elim disjE) simp_all
  qed
qed

lemma unat_word_of_nat: "n < 2 ^ LENGTH('a) \<Longrightarrow> unat (word_of_nat n :: 'a::len word) = n"
  by (simp add: unsigned_of_nat take_bit_nat_eq_self)

lemma unat_word_of_nat_bounds [simp]:
  "n < 256 \<Longrightarrow> unat (word_of_nat n :: 8 word) = n"
  "m < 65536 \<Longrightarrow> unat (word_of_nat m :: 16 word) = m"
  "k < 4294967296 \<Longrightarrow> unat (word_of_nat k :: 32 word) = k"
  by (simp_all add: unat_word_of_nat)

text \<open>A list of known length is spelled out as its elements.\<close>

lemma length_2_conv: "length b = 2 \<longleftrightarrow> (\<exists>x y. b = [x, y])"
  by (auto simp: numeral_2_eq_2 length_Suc_conv)

lemma length_4_conv: "length b = 4 \<longleftrightarrow> (\<exists>x y z w. b = [x, y, z, w])"
  by (auto simp: eval_nat_numeral length_Suc_conv)

lemma length_8_conv:
  "length b = 8 \<longleftrightarrow> (\<exists>a0 a1 a2 a3 a4 a5 a6 a7. b = [a0, a1, a2, a3, a4, a5, a6, a7])"
  by (auto simp: eval_nat_numeral length_Suc_conv)

lemma replicate_numeral_Suc: "replicate (Suc n) x = x # replicate n x"
  by simp

lemma list_update_append_length [simp]:
  "(a @ x # b)[length a := y] = a @ y # b"
  by (induction a) auto

lemma pad_to_block:
  fixes n b :: nat
  assumes "0 < b"
  shows "(n + (b - n mod b) mod b) mod b = 0"
proof (cases "n mod b = 0")
  case False
  then have "n mod b < b" "(b - n mod b) mod b = b - n mod b" using assms by simp_all
  moreover have "(n + (b - n mod b)) mod b = (n mod b + (b - n mod b)) mod b" by (simp add: mod_add_left_eq)
  ultimately show ?thesis by simp
qed auto

lemma ceil_div:
  fixes a c :: nat
  assumes "0 < c"
  shows "a \<le> (a + c - 1) div c * c" "a \<le> m * c \<Longrightarrow> (a + c - 1) div c \<le> m" "c < a \<Longrightarrow> 1 < (a + c - 1) div c"
proof -
  have "a + c - 1 < (a + c - 1) div c * c + c"
    using assms by (metis add.commute dividend_less_times_div mult.commute)
  then show "a \<le> (a + c - 1) div c * c" by linarith
next
  assume "a \<le> m * c"
  then have "a + c - 1 < Suc m * c" using assms by simp
  then show "(a + c - 1) div c \<le> m" using less_mult_imp_div_less by (metis less_Suc_eq_le)
next
  assume "c < a"
  then have "2 * c \<le> a + c - 1" by linarith
  then have "2 \<le> (a + c - 1) div c" using assms by (simp add: less_eq_div_iff_mult_less_eq)
  then show "1 < (a + c - 1) div c" by linarith
qed

section \<open>Decimal numbers\<close>

text \<open>The decimal form \<^verbatim>\<open>fmt.Sprintf\<close> gives a number.\<close>

fun decimal :: "nat \<Rightarrow> string" where
  "decimal n = (if n < 10 then [] else decimal (n div 10)) @ [char_of (48 + n mod 10)]"

declare decimal.simps [simp del]

definition digit :: "char \<Rightarrow> bool" where
  "digit c \<longleftrightarrow> 48 \<le> (of_char c :: nat) \<and> (of_char c :: nat) \<le> 57"

lemma of_digit [simp]: "(of_char (char_of (48 + n mod 10 :: nat)) :: nat) = 48 + n mod 10"
proof -
  have "48 + n mod 10 < 256" by (rule order.strict_trans2 [of _ "48 + 10"]) simp_all
  then show ?thesis by (simp add: of_char_of)
qed

lemma decimal_digits: "c \<in> set (decimal n) \<Longrightarrow> digit c"
proof (induction n rule: decimal.induct)
  case (1 n)
  have "digit (char_of (48 + n mod 10 :: nat))" unfolding digit_def of_digit by simp
  then show ?case using 1 by (subst (asm) (2) decimal.simps) (auto split: if_splits)
qed

lemma decimal_value: "foldl (\<lambda>a c. 10 * a + (of_char c - 48)) 0 (decimal n) = n"
proof (induction n rule: decimal.induct)
  case (1 n)
  then show ?case by (subst decimal.simps) simp
qed

lemma decimal_inj: "decimal m = decimal n \<Longrightarrow> m = n"
  using decimal_value by metis

lemma decimal_not_Nil [simp]: "decimal n \<noteq> []"
  by (subst decimal.simps) simp

lemma decimal_until:
  assumes "decimal m @ c # s = decimal n @ c # t" "\<not> digit c"
  shows "m = n \<and> s = t"
proof -
  have "takeWhile digit (decimal k @ c # r) = decimal k" for k r
    using assms(2) decimal_digits by simp
  then have "decimal m = decimal n" using assms(1) by metis
  then show ?thesis using assms(1) decimal_inj by simp
qed

end
