(* ===== verification/Wire.thy ===== *)
theory Wire
  imports Swan_Prelude
begin

text \<open>
  The packet layer of IKEv2 (\<^verbatim>\<open>src/wire\<close>): big-endian accessors (\<^verbatim>\<open>be.go\<close>),
  the fixed 28-octet header and the SKF fragment header (\<^verbatim>\<open>header.go\<close>), the
  payload chain walker (\<^verbatim>\<open>message.go\<close>) and the append-style packet builder
  (\<^verbatim>\<open>builder.go\<close>). An \<^verbatim>\<open>SPI\<close>, a Go \<^verbatim>\<open>[8]byte\<close>, is an octet list whose
  length the well-formedness predicate fixes to 8.

  The lemmas show that the header codec is a round trip, that the walker
  terminates and splits its input exactly, and that what the builder produces
  is parsed back to the payloads that were pushed.
\<close>

section \<open>Constants\<close>

type_synonym SPI = bytes
type_synonym PayloadType = "8 word"
type_synonym ExchangeType = "8 word"
type_synonym Flags = "8 word"

abbreviation (input) "HeaderLen \<equiv> (28::nat)"
abbreviation (input) "PayloadHeaderLen \<equiv> (4::nat)"
abbreviation (input) "SkfHeaderLen \<equiv> (4::nat)"
abbreviation (input) "IKEDefaultVersion \<equiv> (0x20::8 word)"
abbreviation (input) "FlagInitiator \<equiv> (0x08::8 word)"
abbreviation (input) "FlagVersion \<equiv> (0x10::8 word)"
abbreviation (input) "FlagResponse \<equiv> (0x20::8 word)"

abbreviation (input) "PayloadTypeNone \<equiv> (0::8 word)"
abbreviation (input) "PayloadTypeSA \<equiv> (33::8 word)"
abbreviation (input) "PayloadTypeKE \<equiv> (34::8 word)"
abbreviation (input) "PayloadTypeIDi \<equiv> (35::8 word)"
abbreviation (input) "PayloadTypeIDr \<equiv> (36::8 word)"
abbreviation (input) "PayloadTypeCert \<equiv> (37::8 word)"
abbreviation (input) "PayloadTypeAuth \<equiv> (39::8 word)"
abbreviation (input) "PayloadTypeNonce \<equiv> (40::8 word)"
abbreviation (input) "PayloadTypeNotify \<equiv> (41::8 word)"
abbreviation (input) "PayloadTypeDelete \<equiv> (42::8 word)"
abbreviation (input) "PayloadTypeTSi \<equiv> (44::8 word)"
abbreviation (input) "PayloadTypeTSr \<equiv> (45::8 word)"
abbreviation (input) "PayloadTypeSK \<equiv> (46::8 word)"
abbreviation (input) "PayloadTypeCP \<equiv> (47::8 word)"
abbreviation (input) "PayloadTypeEAP \<equiv> (48::8 word)"
abbreviation (input) "PayloadTypeSKF \<equiv> (53::8 word)"

abbreviation (input) "ExchangeIkeSAInit \<equiv> (34::8 word)"
abbreviation (input) "ExchangeIkeAuth \<equiv> (35::8 word)"
abbreviation (input) "ExchangeCreateChild \<equiv> (36::8 word)"
abbreviation (input) "ExchangeInformational \<equiv> (37::8 word)"

section \<open>Big-endian accessors\<close>

text \<open>The readers are applied after a length check, as the source says.\<close>

definition beUint16 :: "bytes \<Rightarrow> 16 word" where
  "beUint16 b = push_bit 8 (ucast (b ! 0)) OR ucast (b ! 1)"

definition beUint32 :: "bytes \<Rightarrow> 32 word" where
  "beUint32 b = push_bit 24 (ucast (b ! 0)) OR push_bit 16 (ucast (b ! 1))
     OR push_bit 8 (ucast (b ! 2)) OR ucast (b ! 3)"

definition beUint64 :: "bytes \<Rightarrow> 64 word" where
  "beUint64 b = push_bit 56 (ucast (b ! 0)) OR push_bit 48 (ucast (b ! 1))
     OR push_bit 40 (ucast (b ! 2)) OR push_bit 32 (ucast (b ! 3))
     OR push_bit 24 (ucast (b ! 4)) OR push_bit 16 (ucast (b ! 5))
     OR push_bit 8 (ucast (b ! 6)) OR ucast (b ! 7)"

text \<open>The writers overwrite a window of the buffer: \<open>putUint16 b o v\<close> is
  \<^verbatim>\<open>putUint16(b[o:o+2], v)\<close>.\<close>

definition putUint16 :: "bytes \<Rightarrow> nat \<Rightarrow> 16 word \<Rightarrow> bytes" where
  "putUint16 b off v = b[off := ucast (drop_bit 8 v), off + 1 := ucast v]"

definition putUint32 :: "bytes \<Rightarrow> nat \<Rightarrow> 32 word \<Rightarrow> bytes" where
  "putUint32 b off v = b[off := ucast (drop_bit 24 v), off + 1 := ucast (drop_bit 16 v),
     off + 2 := ucast (drop_bit 8 v), off + 3 := ucast v]"

definition putUint64 :: "bytes \<Rightarrow> nat \<Rightarrow> 64 word \<Rightarrow> bytes" where
  "putUint64 b off v = b[off := ucast (drop_bit 56 v), off + 1 := ucast (drop_bit 48 v),
     off + 2 := ucast (drop_bit 40 v), off + 3 := ucast (drop_bit 32 v),
     off + 4 := ucast (drop_bit 24 v), off + 5 := ucast (drop_bit 16 v),
     off + 6 := ucast (drop_bit 8 v), off + 7 := ucast v]"

section \<open>Header\<close>

definition Uint64SPI :: "64 word \<Rightarrow> SPI" where
  "Uint64SPI v = putUint64 (replicate 8 0) 0 v"

definition Uint64 :: "SPI \<Rightarrow> 64 word" where
  "Uint64 s = beUint64 s"

definition IsZero :: "SPI \<Rightarrow> bool" where
  "IsZero s = (s = replicate 8 0)"

record Header =
  InitiatorSPI :: SPI
  ResponderSPI :: SPI
  NextPayload :: PayloadType
  Version :: "8 word"
  ExchangeTyp :: ExchangeType
  HFlags :: Flags
  MessageID :: "32 word"
  Length :: "32 word"

record Payload =
  PType :: PayloadType
  Critical :: bool
  Next :: PayloadType
  Body :: bytes

record SkfHeader =
  FragmentNumber :: "16 word"
  TotalFragments :: "16 word"

definition flagsMask :: "8 word" where
  "flagsMask = FlagResponse OR FlagVersion OR FlagInitiator"

definition ParseHeader :: "bytes \<Rightarrow> (Header \<times> bytes) res" where
  "ParseHeader b =
    (if length b < HeaderLen then Inl (Errorf ''ike packet too short'')
     else let declared = unat (beUint32 (subslice b 24 28)) in
       if declared < HeaderLen then Inl (Errorf ''invalid ike total length: below header size'')
       else if declared > length b then Inl (Errorf ''invalid ike total length: only available'')
       else let h = \<lparr> InitiatorSPI = subslice b 0 8, ResponderSPI = subslice b 8 16,
                      NextPayload = b ! 16, Version = b ! 17, ExchangeTyp = b ! 18,
                      HFlags = b ! 19, MessageID = beUint32 (subslice b 20 24),
                      Length = word_of_nat declared \<rparr> in
         if Version h \<noteq> IKEDefaultVersion then Inl (Errorf ''unexpected ike version'')
         else if HFlags h AND NOT flagsMask \<noteq> 0 then Inl (Errorf ''invalid ike flags'')
         else Inr (h, subslice b HeaderLen declared))"

text \<open>\<^verbatim>\<open>copy\<close> into a window of the freshly made 28 octets.\<close>

definition copy_at :: "bytes \<Rightarrow> nat \<Rightarrow> bytes \<Rightarrow> bytes" where
  "copy_at b off src = take off b @ src @ drop (off + length src) b"

definition MarshalTo :: "Header \<Rightarrow> bytes \<Rightarrow> bytes" where
  "MarshalTo h dst =
    (let b = replicate HeaderLen 0;
         b = copy_at b 0 (InitiatorSPI h);
         b = copy_at b 8 (ResponderSPI h);
         b = b[16 := NextPayload h, 17 := Version h, 18 := ExchangeTyp h, 19 := HFlags h];
         b = putUint32 b 20 (MessageID h);
         b = putUint32 b 24 (Length h)
     in dst @ b)"

definition ParseSkfHeader :: "bytes \<Rightarrow> (SkfHeader \<times> bytes) res" where
  "ParseSkfHeader b =
    (if length b < SkfHeaderLen then Inl (Errorf ''skf fragment header too short'')
     else let h = \<lparr> FragmentNumber = beUint16 (subslice b 0 2),
                    TotalFragments = beUint16 (subslice b 2 4) \<rparr> in
       if FragmentNumber h = 0 \<or> TotalFragments h = 0 \<or> FragmentNumber h > TotalFragments h
       then Inl (Errorf ''invalid skf fragment numbers'')
       else Inr (h, drop SkfHeaderLen b))"

section \<open>Message\<close>

record EncryptedPayload =
  EType :: PayloadType
  InnerNext :: PayloadType
  Fragmented :: bool
  Frag :: SkfHeader
  EBody :: bytes

record Message =
  MHeader :: Header
  Payloads :: "Payload list"
  Encrypted :: "EncryptedPayload option"

text \<open>The loop of \<^verbatim>\<open>ParsePayloads\<close>: \<open>payloads\<close> holds what was appended so far.\<close>

function ParsePayloadsLoop ::
  "bytes \<Rightarrow> PayloadType \<Rightarrow> bool \<Rightarrow> Payload list
     \<Rightarrow> (Payload list \<times> EncryptedPayload option) res" where
  "ParsePayloadsLoop rest next stopAtEncrypted payloads =
    (if next = PayloadTypeNone then
       (if length rest \<noteq> 0 then Inl (Errorf ''invalid payload chain: trailing bytes'')
        else Inr (payloads, None))
     else if length rest < PayloadHeaderLen
     then Inl (Errorf ''payload type too short for its header'')
     else
       let payloadNext = rest ! 0;
           critical = (rest ! 1 AND 0x80 \<noteq> 0);
           len = unat (beUint16 (subslice rest 2 4)) in
       if len < PayloadHeaderLen \<or> len > length rest
       then Inl (Errorf ''payload type length out of bounds'')
       else
         let body = subslice rest PayloadHeaderLen len in
         if next = PayloadTypeSK \<or> next = PayloadTypeSKF then
           if \<not> stopAtEncrypted
           then Inl (Errorf ''payload type is only valid as a terminal outer payload'')
           else if len \<noteq> length rest
           then Inl (Errorf ''payload type must terminate the outer payload chain'')
           else if next = PayloadTypeSKF then
             bind_res (ParseSkfHeader body) (\<lambda>(frag, tail).
               Inr (payloads, Some \<lparr> EType = next, InnerNext = payloadNext,
                      Fragmented = True, Frag = frag, EBody = tail \<rparr>))
           else Inr (payloads, Some \<lparr> EType = next, InnerNext = payloadNext,
                       Fragmented = False,
                       Frag = \<lparr> FragmentNumber = 0, TotalFragments = 0 \<rparr>, EBody = body \<rparr>)
         else ParsePayloadsLoop (drop len rest) payloadNext stopAtEncrypted
                (payloads @ [\<lparr> PType = next, Critical = critical,
                               Next = payloadNext, Body = body \<rparr>]))"
  by pat_completeness auto
termination
  by (relation "measure (\<lambda>(rest, _). length rest)") auto

declare ParsePayloadsLoop.simps [simp del]

definition ParsePayloads ::
  "bytes \<Rightarrow> PayloadType \<Rightarrow> bool \<Rightarrow> (Payload list \<times> EncryptedPayload option) res" where
  "ParsePayloads buf first stopAtEncrypted = ParsePayloadsLoop buf first stopAtEncrypted []"

definition ParseMessage :: "bytes \<Rightarrow> Message res" where
  "ParseMessage b =
    bind_res (ParseHeader b) (\<lambda>(hdr, rest).
    bind_res (ParsePayloads rest (NextPayload hdr) True) (\<lambda>(payloads, encrypted).
    Inr \<lparr> MHeader = hdr, Payloads = payloads, Encrypted = encrypted \<rparr>))"

definition FindPayload :: "Message \<Rightarrow> PayloadType \<Rightarrow> Payload option" where
  "FindPayload m t = find (\<lambda>p. PType p = t) (Payloads m)"

section \<open>Builder\<close>

record Builder =
  bbuf :: bytes
  bfirst :: PayloadType
  bfirstSet :: bool
  blastNextOffset :: nat
  bheader :: Header

definition NewBuilder :: "Header \<Rightarrow> Builder" where
  "NewBuilder h = \<lparr> bbuf = MarshalTo h [], bfirst = PayloadTypeNone, bfirstSet = False,
                    blastNextOffset = 16, bheader = h \<rparr>"

definition Push :: "Builder \<Rightarrow> PayloadType \<Rightarrow> bool \<Rightarrow> bytes \<Rightarrow> Builder res" where
  "Push b t critical body =
    (if t = PayloadTypeNone then Inl (Errorf ''payload type: cannot push None as a payload'')
     else let total = PayloadHeaderLen + length body in
       if total > 0xffff then Inl (Errorf ''payload type too long'')
       else if length (bbuf b) + total > 0xffff + HeaderLen then Inl (Errorf ''ike packet too long'')
       else
         let start = length (bbuf b);
             bf = bbuf b @ [0, 0, 0, 0];
             bf = bf[start := PayloadTypeNone];
             bf = bf[start + 1 := if critical then 0x80 else 0];
             bf = putUint16 bf (start + 2) (word_of_nat total);
             bf = bf[blastNextOffset b := t]
         in Inr (b\<lparr> bbuf := bf @ body, blastNextOffset := start,
                    bfirst := if bfirstSet b then bfirst b else t, bfirstSet := True \<rparr>))"

definition FirstPayload :: "Builder \<Rightarrow> PayloadType" where
  "FirstPayload b = (if \<not> bfirstSet b then PayloadTypeNone else bfirst b)"

definition PatchLength :: "Builder \<Rightarrow> Builder" where
  "PatchLength b = b\<lparr> bbuf := putUint32 (bbuf b) 24 (word_of_nat (length (bbuf b))) \<rparr>"

definition Finish :: "Builder \<Rightarrow> bytes" where
  "Finish b = bbuf (PatchLength (b\<lparr> bbuf := (bbuf b)[16 := FirstPayload b] \<rparr>))"

text \<open>A sequence of pushes, the way every packet of the client is assembled.\<close>

fun PushAll :: "Builder \<Rightarrow> (PayloadType \<times> bool \<times> bytes) list \<Rightarrow> Builder res" where
  "PushAll b [] = Inr b"
| "PushAll b ((t, c, body) # ps) = bind_res (Push b t c body) (\<lambda>b'. PushAll b' ps)"

section \<open>Lemmas: big-endian accessors\<close>

lemma beUint16_be16 [simp, codec_simps]: "beUint16 (be16 v @ r) = v"
  by (rule bit_word_eqI) (auto simp: beUint16_def be16_def bit_simps)

lemma be16_beUint16 [simp]: "be16 (beUint16 (x # y # r)) = [x, y]"
  by (simp add: beUint16_def be16_def) (simp add: bit_simps bit_eq_iff)

lemma be32_beUint32 [simp]: "be32 (beUint32 (x # y # z # w # r)) = [x, y, z, w]"
  by (simp add: beUint32_def be32_def) (simp add: bit_simps bit_eq_iff)

lemma be64_beUint64 [simp]:
  "be64 (beUint64 (a0 # a1 # a2 # a3 # a4 # a5 # a6 # a7 # r)) = [a0, a1, a2, a3, a4, a5, a6, a7]"
  by (simp add: beUint64_def be64_def) (simp add: bit_simps bit_eq_iff)

lemma beUint32_be32 [simp, codec_simps]: "beUint32 (be32 v @ r) = v"
proof (rule bit_word_eqI)
  fix n assume "n < LENGTH(32)"
  then have "n < 64" by simp
  then obtain m where "m < 8" "n = m \<or> n = 8 + m \<or> n = 16 + m \<or> n = 24 + m
     \<or> n = 32 + m \<or> n = 40 + m \<or> n = 48 + m \<or> n = 56 + m"
    by (rule octet_index_cases)
  then show "bit (beUint32 (be32 v @ r)) n = bit v n"
    using \<open>n < LENGTH(32)\<close> by (elim disjE) (simp_all add: beUint32_def be32_def bit_simps)
qed


lemma beUint64_be64 [simp, codec_simps]: "beUint64 (be64 v @ r) = v"
proof (rule bit_word_eqI)
  fix n assume "n < LENGTH(64)"
  then have "n < 64" by simp
  then obtain m where "m < 8" "n = m \<or> n = 8 + m \<or> n = 16 + m \<or> n = 24 + m
     \<or> n = 32 + m \<or> n = 40 + m \<or> n = 48 + m \<or> n = 56 + m"
    by (rule octet_index_cases)
  then show "bit (beUint64 (be64 v @ r)) n = bit v n"
    by (elim disjE) (simp_all add: beUint64_def be64_def bit_simps)
qed

lemma beUint_be_Nil [simp, codec_simps]:
  "beUint16 (be16 v) = v" "beUint32 (be32 w) = w" "beUint64 (be64 u) = u"
  using beUint16_be16 [of v "[]"] beUint32_be32 [of w "[]"] beUint64_be64 [of u "[]"]
  by simp_all

lemma putUint64_zeros: "putUint64 (replicate 8 0) 0 v = be64 v"
  by (simp add: putUint64_def be64_def eval_nat_numeral)

lemma putUint32_replace [codec_simps]:
  "length a = off \<Longrightarrow> putUint32 (a @ w # x # y # z # r) off v = a @ be32 v @ r"
  by (auto simp: putUint32_def be32_def list_update_append)

lemma putUint16_replace [codec_simps]:
  "length a = off \<Longrightarrow> putUint16 (a @ x # y # r) off v = a @ be16 v @ r"
  by (auto simp: putUint16_def be16_def list_update_append)

section \<open>Lemmas: the fixed header\<close>

text \<open>The octets of a header, written out.\<close>

definition header_octets :: "Header \<Rightarrow> bytes" where
  "header_octets h = InitiatorSPI h @ ResponderSPI h
     @ [NextPayload h, Version h, ExchangeTyp h, HFlags h]
     @ be32 (MessageID h) @ be32 (Length h)"

definition wf_header :: "Header \<Rightarrow> bool" where
  "wf_header h \<longleftrightarrow> length (InitiatorSPI h) = 8 \<and> length (ResponderSPI h) = 8"

lemma length_header_octets [simp]: "wf_header h \<Longrightarrow> length (header_octets h) = 28"
  by (simp add: wf_header_def header_octets_def)

lemma MarshalTo_octets [codec_simps]: "wf_header h \<Longrightarrow> MarshalTo h dst = dst @ header_octets h"
  unfolding wf_header_def length_8_conv
  by (elim conjE exE)
     (simp add: MarshalTo_def copy_at_def header_octets_def putUint32_def be32_def
        eval_nat_numeral Let_def)

lemma ParseHeader_octets:
  assumes "wf_header h" "Version h = IKEDefaultVersion" "HFlags h AND NOT flagsMask = 0"
    "unat (Length h) = HeaderLen + length rest"
  shows "ParseHeader (header_octets h @ rest @ trail) = Inr (h, rest)"
proof -
  have sl: "subslice (header_octets h @ rest @ trail) 24 28 = be32 (Length h)"
    "subslice (header_octets h @ rest @ trail) 20 24 = be32 (MessageID h)"
    "take 8 (header_octets h @ rest @ trail) = InitiatorSPI h"
    "subslice (header_octets h @ rest @ trail) 8 16 = ResponderSPI h"
    "subslice (header_octets h @ rest @ trail) 28 (28 + length rest) = rest"
    using assms(1) by (simp_all add: header_octets_def wf_header_def subslice_def)
  have ix: "(header_octets h @ rest @ trail) ! 16 = NextPayload h"
    "(header_octets h @ rest @ trail) ! 17 = Version h"
    "(header_octets h @ rest @ trail) ! 18 = ExchangeTyp h"
    "(header_octets h @ rest @ trail) ! 19 = HFlags h"
    using assms(1) by (simp_all add: header_octets_def wf_header_def nth_append)
  have "Length h = word_of_nat (28 + length rest)"
    by (simp flip: assms(4) del: of_nat_add)
  then show ?thesis
    using assms by (simp add: ParseHeader_def Let_def sl ix del: take_append)
qed

lemma ParseHeader_sound:
  assumes "ParseHeader b = Inr (h, rest)"
  shows "wf_header h" "Version h = IKEDefaultVersion" "HFlags h AND NOT flagsMask = 0"
    "unat (Length h) = HeaderLen + length rest"
    "b = header_octets h @ rest @ drop (unat (Length h)) b"
proof -
  let ?d = "unat (beUint32 (subslice b 24 28))"
  have d: "28 \<le> length b" "28 \<le> ?d" "?d \<le> length b" and rest: "rest = subslice b 28 ?d"
    and h: "h = \<lparr> InitiatorSPI = subslice b 0 8, ResponderSPI = subslice b 8 16,
                      NextPayload = b ! 16, Version = b ! 17, ExchangeTyp = b ! 18,
                      HFlags = b ! 19, MessageID = beUint32 (subslice b 20 24),
                      Length = word_of_nat ?d \<rparr>"
    and v: "b ! 17 = IKEDefaultVersion" "b ! 19 AND NOT flagsMask = 0"
    using assms by (auto simp: ParseHeader_def Let_def not_less split: if_splits)
  show "wf_header h" "Version h = IKEDefaultVersion" "HFlags h AND NOT flagsMask = 0"
    using h d v by (auto simp: wf_header_def)
  have len: "Length h = beUint32 (subslice b 24 28)" by (simp add: h)
  then show "unat (Length h) = HeaderLen + length rest" using d by (simp add: rest)
  have be: "be32 (beUint32 (subslice b i (i + 4))) = subslice b i (i + 4)" if "i + 4 \<le> length b" for i
  proof -
    have "length (subslice b i (i + 4)) = 4" using that by simp
    then show ?thesis unfolding length_4_conv by (elim exE) simp
  qed
  have "header_octets h = take 28 b"
    using d be[of 20] be[of 24] unfolding header_octets_def len h
    by (simp add: list_eq_iff_nth_eq nth_append less_Suc_eq eval_nat_numeral)
  then show "b = header_octets h @ rest @ drop (unat (Length h)) b"
    using take_subslice_drop [of 28 ?d b] d by (simp add: rest len)
qed

section \<open>Lemmas: the payload chain\<close>

text \<open>The octets of one payload and of a chain of payloads. \<open>lst\<close> is the value
  of the last next-payload field: \<open>None\<close> for a complete cleartext chain, SK
  or SKF for the prefix of a protected message.\<close>

definition payload_octets :: "PayloadType \<Rightarrow> bool \<Rightarrow> bytes \<Rightarrow> bytes" where
  "payload_octets next critical body =
     [next, if critical then 0x80 else 0] @ be16 (word_of_nat (4 + length body)) @ body"

fun chain_first :: "(PayloadType \<times> bool \<times> bytes) list \<Rightarrow> PayloadType \<Rightarrow> PayloadType" where
  "chain_first [] lst = lst"
| "chain_first ((t, _) # _) lst = t"

fun chain_octets :: "(PayloadType \<times> bool \<times> bytes) list \<Rightarrow> PayloadType \<Rightarrow> bytes" where
  "chain_octets [] lst = []"
| "chain_octets ((t, c, body) # ps) lst =
     payload_octets (chain_first ps lst) c body @ chain_octets ps lst"

fun chain_payloads :: "(PayloadType \<times> bool \<times> bytes) list \<Rightarrow> PayloadType \<Rightarrow> Payload list" where
  "chain_payloads [] lst = []"
| "chain_payloads ((t, c, body) # ps) lst =
     \<lparr> PType = t, Critical = c, Next = chain_first ps lst, Body = body \<rparr>
       # chain_payloads ps lst"

fun wf_chain :: "(PayloadType \<times> bool \<times> bytes) list \<Rightarrow> bool" where
  "wf_chain [] = True"
| "wf_chain ((t, c, body) # ps) \<longleftrightarrow>
     t \<noteq> PayloadTypeNone \<and> t \<noteq> PayloadTypeSK \<and> t \<noteq> PayloadTypeSKF
     \<and> 4 + length body \<le> 0xffff \<and> wf_chain ps"

lemma length_payload_octets [simp]: "length (payload_octets nx c b) = 4 + length b"
  by (simp add: payload_octets_def)

lemma length_chain_octets:
  "length (chain_octets ps lst) = sum_list (map (\<lambda>(t, c, b). 4 + length b) ps)"
  by (induction ps lst rule: chain_octets.induct) auto

lemma payload_octets_reads:
  assumes "4 + length body \<le> 0xffff"
  shows "(payload_octets nx c body @ tail) ! 0 = nx"
    "(payload_octets nx c body @ tail) ! 1 AND 0x80 \<noteq> 0 \<longleftrightarrow> c"
    "unat (beUint16 (subslice (payload_octets nx c body @ tail) 2 4)) = 4 + length body"
    "subslice (payload_octets nx c body @ tail) 4 (4 + length body) = body"
    "drop (4 + length body) (payload_octets nx c body @ tail) = tail"
proof -
  show "drop (4 + length body) (payload_octets nx c body @ tail) = tail"
    by (metis append_eq_conv_conj length_payload_octets)
qed (use assms in \<open>simp_all add: payload_octets_def subslice_def unat_word_of_nat del: of_nat_add\<close>)

lemma ParsePayloadsLoop_step:
  assumes "4 + length body \<le> 0xffff" "t \<noteq> 0" "t \<noteq> PayloadTypeSK" "t \<noteq> PayloadTypeSKF"
  shows "ParsePayloadsLoop (payload_octets nx c body @ tail) t stop acc
    = ParsePayloadsLoop tail nx stop
        (acc @ [\<lparr> PType = t, Critical = c, Next = nx, Body = body \<rparr>])"
  using assms payload_octets_reads [OF assms(1), of nx c tail]
  by (subst ParsePayloadsLoop.simps) (simp add: Let_def)

lemma ParsePayloadsLoop_chain:
  "wf_chain ps \<Longrightarrow> ParsePayloadsLoop (chain_octets ps lst @ tail) (chain_first ps lst) stop acc
    = ParsePayloadsLoop tail lst stop (acc @ chain_payloads ps lst)"
  by (induction ps lst arbitrary: acc rule: chain_octets.induct)
     (auto simp: ParsePayloadsLoop_step)

lemma ParsePayloadsLoop_end [simp]: "ParsePayloadsLoop [] 0 stop acc = Inr (acc, None)"
  by (subst ParsePayloadsLoop.simps) simp

lemma ParsePayloads_chain:
  "wf_chain ps \<Longrightarrow>
   ParsePayloads (chain_octets ps PayloadTypeNone) (chain_first ps PayloadTypeNone) stop
     = Inr (chain_payloads ps PayloadTypeNone, None)"
  using ParsePayloadsLoop_chain [of ps 0 "[]"] by (simp add: ParsePayloads_def)

text \<open>A chain that ends in an SK payload.\<close>

lemma ParsePayloads_chain_SK:
  assumes "wf_chain ps" "4 + length body \<le> 0xffff"
  shows "ParsePayloads (chain_octets ps PayloadTypeSK @ payload_octets inner c body)
      (chain_first ps PayloadTypeSK) True
    = Inr (chain_payloads ps PayloadTypeSK,
           Some \<lparr> EType = PayloadTypeSK, InnerNext = inner, Fragmented = False,
                  Frag = \<lparr> FragmentNumber = 0, TotalFragments = 0 \<rparr>, EBody = body \<rparr>)"
  using payload_octets_reads [OF assms(2), of inner c "[]"] assms
  by (simp add: ParsePayloads_def ParsePayloadsLoop_chain)
     (subst ParsePayloadsLoop.simps, simp add: Let_def)

text \<open>A chain that ends in an SKF payload.\<close>

lemma ParseSkfHeader_octets:
  "0 < n \<Longrightarrow> n \<le> tot \<Longrightarrow> ParseSkfHeader (be16 n @ be16 tot @ tail)
     = Inr (\<lparr> FragmentNumber = n, TotalFragments = tot \<rparr>, tail)"
  by (auto simp: ParseSkfHeader_def Let_def subslice_def)

lemma ParsePayloads_chain_SKF:
  assumes "wf_chain ps" "8 + length body \<le> 0xffff" "0 < n" "n \<le> tot"
  shows "ParsePayloads (chain_octets ps PayloadTypeSKF
        @ payload_octets inner c (be16 n @ be16 tot @ body))
      (chain_first ps PayloadTypeSKF) True
    = Inr (chain_payloads ps PayloadTypeSKF,
           Some \<lparr> EType = PayloadTypeSKF, InnerNext = inner, Fragmented = True,
                  Frag = \<lparr> FragmentNumber = n, TotalFragments = tot \<rparr>, EBody = body \<rparr>)"
proof -
  have l: "4 + length (be16 n @ be16 tot @ body) \<le> 0xffff" using assms(2) by simp
  from assms show ?thesis
    using payload_octets_reads [OF l, of inner c "[]"]
    by (simp add: ParsePayloads_def ParsePayloadsLoop_chain)
       (subst ParsePayloadsLoop.simps, simp add: Let_def ParseSkfHeader_octets)
qed

section \<open>Lemmas: the builder\<close>

text \<open>The state of a builder seeded with \<open>h\<close> after pushing \<open>ps\<close>.\<close>

definition builder_inv :: "Header \<Rightarrow> (PayloadType \<times> bool \<times> bytes) list \<Rightarrow> Builder \<Rightarrow> bool" where
  "builder_inv h ps b \<longleftrightarrow>
     bbuf b = header_octets (h\<lparr> NextPayload := chain_first ps (NextPayload h) \<rparr>)
                @ chain_octets ps PayloadTypeNone
     \<and> blastNextOffset b = (if ps = [] then 16 else 28 + length (chain_octets (butlast ps) 0))
     \<and> bfirstSet b = (ps \<noteq> []) \<and> FirstPayload b = chain_first ps PayloadTypeNone"

lemma chain_octets_snoc:
  "chain_octets (ps @ [(t, c, body)]) lst = chain_octets ps t @ payload_octets lst c body"
proof (induction ps)
  case (Cons p ps)
  then show ?case by (cases p; cases ps) auto
qed simp

lemma chain_first_snoc: "chain_first (ps @ [p]) lst = chain_first ps (fst p)"
  by (cases ps; cases p) auto

lemma chain_first_indep: "ps \<noteq> [] \<Longrightarrow> chain_first ps l = chain_first ps l'"
  by (cases ps) auto

lemma length_chain_octets_indep: "length (chain_octets ps l) = length (chain_octets ps l')"
  by (simp add: length_chain_octets)

lemma payload_octets_patch:
  "(payload_octets nx c body @ r)[0 := t] = payload_octets t c body @ r"
  "(payload_octets nx c body)[0 := t] = payload_octets t c body"
  by (simp_all add: payload_octets_def)

lemma chain_octets_patch:
  assumes "ps \<noteq> []"
  shows "(chain_octets ps l @ r)[length (chain_octets (butlast ps) l') := t] = chain_octets ps t @ r"
proof -
  obtain qs t' c' b' where ps: "ps = qs @ [(t', c', b')]"
    using assms by (cases ps rule: rev_cases) auto
  have "length (chain_octets qs l') = length (chain_octets qs t')"
    by (rule length_chain_octets_indep)
  then show ?thesis
    by (simp add: ps chain_octets_snoc list_update_append payload_octets_patch)
qed

lemma header_octets_patch:
  "wf_header h \<Longrightarrow> (header_octets h @ r)[16 := t] = header_octets (h\<lparr> NextPayload := t \<rparr>) @ r"
  by (simp add: header_octets_def wf_header_def list_update_append)

lemma header_octets_putLength:
  "wf_header h \<Longrightarrow> putUint32 (header_octets h @ r) 24 v = header_octets (h\<lparr> Length := v \<rparr>) @ r"
  using putUint32_replace
    [of "InitiatorSPI h @ ResponderSPI h @ [NextPayload h, Version h, ExchangeTyp h, HFlags h]
          @ be32 (MessageID h)" 24 _ _ _ _ r v]
  by (simp add: header_octets_def wf_header_def be32_def)

lemma wf_header_upd [simp]:
  "wf_header (h\<lparr> NextPayload := t \<rparr>) = wf_header h" "wf_header (h\<lparr> Length := l \<rparr>) = wf_header h"
  by (simp_all add: wf_header_def)

lemma NewBuilder_inv: "wf_header h \<Longrightarrow> builder_inv h [] (NewBuilder h)"
  by (simp add: builder_inv_def NewBuilder_def FirstPayload_def MarshalTo_octets)

lemma Push_buf:
  assumes "Push b t c body = Inr b'" "blastNextOffset b < length (bbuf b)"
  shows "bbuf b' = (bbuf b)[blastNextOffset b := t] @ payload_octets PayloadTypeNone c body"
    "blastNextOffset b' = length (bbuf b)" "bfirstSet b'"
    "FirstPayload b' = (if bfirstSet b then FirstPayload b else t)"
  using assms
  by (auto simp: Push_def Let_def putUint16_def payload_octets_def be16_def list_update_append
        FirstPayload_def split: if_splits)

lemma Push_inv:
  assumes h: "wf_header h" and inv: "builder_inv h ps b" and push: "Push b t c body = Inr b'"
  shows "builder_inv h (ps @ [(t, c, body)]) b'"
proof -
  have off: "blastNextOffset b < length (bbuf b)"
    using inv h chain_octets_snoc [of "butlast ps" _ _ _ 0]
    by (cases ps rule: rev_cases)
       (auto simp: builder_inv_def chain_octets_snoc length_chain_octets)
  have patched: "(bbuf b)[blastNextOffset b := t]
      = header_octets (h\<lparr> NextPayload := chain_first ps t \<rparr>) @ chain_octets ps t"
  proof (cases "ps = []")
    case True
    then show ?thesis using inv h header_octets_patch [of "h\<lparr> NextPayload := NextPayload h \<rparr>" "[]" t]
      by (simp add: builder_inv_def)
  next
    case False
    then have "chain_first ps (NextPayload h) = chain_first ps t" by (rule chain_first_indep)
    then show ?thesis
      using inv h False chain_octets_patch [OF False, of 0 "[]" 0 t]
      by (simp add: builder_inv_def list_update_append)
  qed
  have "length (chain_octets ps t) = length (chain_octets ps 0)"
    by (rule length_chain_octets_indep)
  then show ?thesis
    using Push_buf [OF push off] inv h patched
    by (cases "ps = []")
       (auto simp: builder_inv_def chain_octets_snoc chain_first_snoc intro: chain_first_indep)
qed

lemma PushAll_inv:
  "wf_header h \<Longrightarrow> builder_inv h ps b \<Longrightarrow> PushAll b qs = Inr b' \<Longrightarrow> builder_inv h (ps @ qs) b'"
proof (induction b qs arbitrary: ps rule: PushAll.induct)
  case (2 b t c body qs)
  then show ?case using Push_inv by fastforce
qed simp

lemma Push_size:
  "Push b t c body = Inr b' \<Longrightarrow> t \<noteq> PayloadTypeNone \<and> 4 + length body \<le> 0xffff
     \<and> length (bbuf b') \<le> 0xffff + HeaderLen"
  by (auto simp: Push_def Let_def putUint16_def split: if_splits)

lemma PushAll_size:
  "PushAll b ps = Inr b' \<Longrightarrow> length (bbuf b) \<le> 0xffff + HeaderLen \<Longrightarrow>
     length (bbuf b') \<le> 0xffff + HeaderLen
     \<and> (\<forall>(t, c, body) \<in> set ps. t \<noteq> PayloadTypeNone \<and> 4 + length body \<le> 0xffff)"
proof (induction b ps rule: PushAll.induct)
  case (2 b t c body qs)
  then show ?case using Push_size by fastforce
qed simp

lemma wf_chain_iff:
  "wf_chain ps \<longleftrightarrow> (\<forall>(t, c, body) \<in> set ps. t \<noteq> PayloadTypeNone \<and> t \<noteq> PayloadTypeSK
     \<and> t \<noteq> PayloadTypeSKF \<and> 4 + length body \<le> 0xffff)"
  by (induction ps rule: wf_chain.induct) auto

text \<open>The finished packet: header with patched first payload and length, then the chain.\<close>

lemma Finish_octets:
  assumes "wf_header h" "builder_inv h ps b"
  shows "Finish b = header_octets (h\<lparr> NextPayload := chain_first ps PayloadTypeNone,
      Length := word_of_nat (length (bbuf b)) \<rparr>) @ chain_octets ps PayloadTypeNone"
  using assms
  by (simp add: Finish_def PatchLength_def builder_inv_def header_octets_patch
        header_octets_putLength del: of_nat_add)

lemma ParseMessage_chain:
  assumes "wf_header h" "Version h = IKEDefaultVersion" "HFlags h AND NOT flagsMask = 0"
    and "PushAll (NewBuilder h) ps = Inr b"
    and "\<forall>(t, c, body) \<in> set ps. t \<noteq> PayloadTypeSK \<and> t \<noteq> PayloadTypeSKF"
  shows "ParseMessage (Finish b) = Inr \<lparr>
      MHeader = h\<lparr> NextPayload := chain_first ps PayloadTypeNone,
                  Length := word_of_nat (length (Finish b)) \<rparr>,
      Payloads = chain_payloads ps PayloadTypeNone, Encrypted = None \<rparr>"
proof -
  have inv: "builder_inv h ps b"
    using PushAll_inv [OF assms(1) NewBuilder_inv [OF assms(1)] assms(4)] by simp
  have size: "length (bbuf b) \<le> 0xffff + HeaderLen" and wf: "wf_chain ps"
    using PushAll_size [OF assms(4)] assms(1,5)
    by (auto simp: NewBuilder_def MarshalTo_octets wf_chain_iff)
  have fin: "Finish b = header_octets (h\<lparr> NextPayload := chain_first ps 0,
      Length := word_of_nat (length (bbuf b)) \<rparr>) @ chain_octets ps 0" (is "_ = header_octets ?h @ _")
    by (rule Finish_octets [OF assms(1) inv])
  have len: "length (bbuf b) = 28 + length (chain_octets ps 0)"
    using inv assms(1) by (simp add: builder_inv_def)
  then have "ParseHeader (Finish b) = Inr (?h, chain_octets ps 0)"
    using ParseHeader_octets [of ?h "chain_octets ps 0" "[]"] assms(1-3) size
    by (simp add: fin unat_word_of_nat del: of_nat_add)
  moreover have "length (Finish b) = length (bbuf b)"
    using assms(1) by (simp add: fin len)
  ultimately show ?thesis
    using ParsePayloads_chain [OF wf] by (simp add: ParseMessage_def)
qed

text \<open>C16: whatever cleartext payloads are pushed into a builder seeded with a
  version 2.0 header with legal flags, the finished packet is parsed back by
  \<^verbatim>\<open>ParseMessage\<close> to that header (with the first payload type and the total
  length stamped in) and to exactly those payloads, in order, chained to each
  other, with no encrypted payload.\<close>

theorem ParseMessage_Finish:
  assumes "wf_header h" "Version h = IKEDefaultVersion" "HFlags h AND NOT flagsMask = 0"
    and "PushAll (NewBuilder h) ps = Inr b"
    and "\<forall>(t, c, body) \<in> set ps. t \<noteq> PayloadTypeSK \<and> t \<noteq> PayloadTypeSKF"
  shows "ParseMessage (Finish b) = Inr \<lparr>
      MHeader = h\<lparr> NextPayload := chain_first ps PayloadTypeNone,
                  Length := word_of_nat (length (Finish b)) \<rparr>,
      Payloads = chain_payloads ps PayloadTypeNone, Encrypted = None \<rparr>"
  by (rule ParseMessage_chain [OF assms])

definition sample_header :: Header where
  "sample_header = \<lparr> InitiatorSPI = [1, 2, 3, 4, 5, 6, 7, 8], ResponderSPI = replicate 8 0,
     NextPayload = 0, Version = IKEDefaultVersion, ExchangeTyp = ExchangeIkeSAInit,
     HFlags = FlagInitiator, MessageID = 0, Length = 0 \<rparr>"

theorem ParseMessage_Finish_witness:
  "\<exists>b. PushAll (NewBuilder sample_header)
         [(PayloadTypeNonce, False, [7, 8]), (PayloadTypeNotify, True, [])] = Inr b
     \<and> ParseMessage (Finish b) = Inr \<lparr>
      MHeader = sample_header\<lparr> NextPayload := PayloadTypeNonce,
                  Length := word_of_nat (length (Finish b)) \<rparr>,
      Payloads = [\<lparr> PType = PayloadTypeNonce, Critical = False, Next = PayloadTypeNotify,
                     Body = [7, 8] \<rparr>,
                  \<lparr> PType = PayloadTypeNotify, Critical = True, Next = PayloadTypeNone,
                     Body = [] \<rparr>],
      Encrypted = None \<rparr>"
proof -
  have h: "wf_header sample_header" "Version sample_header = IKEDefaultVersion"
    "HFlags sample_header AND NOT flagsMask = 0"
    by (simp_all add: sample_header_def wf_header_def flagsMask_def)
  have ok: "is_ok (PushAll (NewBuilder sample_header)
      [(PayloadTypeNonce, False, [7, 8]), (PayloadTypeNotify, True, [])])"
    by (simp add: NewBuilder_def Push_def Let_def putUint16_def MarshalTo_octets [OF h(1)] h(1))
  from ok obtain b where b: "PushAll (NewBuilder sample_header)
      [(PayloadTypeNonce, False, [7, 8]), (PayloadTypeNotify, True, [])] = Inr b"
    by (auto simp: is_ok_iff)
  show ?thesis using ParseMessage_Finish [OF h b] b by simp
qed

section \<open>Lemmas: soundness of the chain walker\<close>

text \<open>The octets a parsed payload came from: the low seven bits of the second
  octet are reserved and ignored by the parser.\<close>

definition raw_payload :: "Payload \<Rightarrow> byte \<Rightarrow> bytes" where
  "raw_payload p r = [Next p, r] @ be16 (word_of_nat (4 + length (Body p))) @ Body p"

fun linked :: "PayloadType \<Rightarrow> Payload list \<Rightarrow> PayloadType \<Rightarrow> bool" where
  "linked t [] lst \<longleftrightarrow> t = lst"
| "linked t (p # ps) lst \<longleftrightarrow>
     PType p = t \<and> t \<noteq> PayloadTypeNone \<and> t \<noteq> PayloadTypeSK \<and> t \<noteq> PayloadTypeSKF
     \<and> linked (Next p) ps lst"

text \<open>\<open>chain_of buf first ps enc\<close>: \<open>buf\<close> is the concatenation of the octets of the
  payloads \<open>ps\<close>, linked from \<open>first\<close>, and of the terminal envelope \<open>enc\<close>.\<close>

definition envelope_octets :: "EncryptedPayload \<Rightarrow> byte \<Rightarrow> bytes" where
  "envelope_octets e r =
    (let body = (if Fragmented e
                 then be16 (FragmentNumber (Frag e)) @ be16 (TotalFragments (Frag e)) else [])
                @ EBody e
     in [InnerNext e, r] @ be16 (word_of_nat (4 + length body)) @ body)"

definition chain_of ::
  "bytes \<Rightarrow> PayloadType \<Rightarrow> Payload list \<Rightarrow> EncryptedPayload option \<Rightarrow> bool" where
  "chain_of buf t ps enc \<longleftrightarrow>
    (\<exists>rs tail. length rs = length ps \<and> buf = concat (map2 raw_payload ps rs) @ tail
       \<and> list_all2 (\<lambda>p r. Critical p \<longleftrightarrow> r AND 0x80 \<noteq> 0) ps rs
       \<and> (case enc of
            None \<Rightarrow> tail = [] \<and> linked t ps PayloadTypeNone
          | Some e \<Rightarrow> (\<exists>r. tail = envelope_octets e r) \<and> linked t ps (EType e)
              \<and> EType e = (if Fragmented e then PayloadTypeSKF else PayloadTypeSK)))"

lemma raw_payload_split:
  assumes "4 \<le> length rest" "len = unat (beUint16 (subslice rest 2 4))" "4 \<le> len" "len \<le> length rest"
  shows "rest = [rest ! 0, rest ! 1] @ be16 (word_of_nat len) @ subslice rest 4 len @ drop len rest"
proof -
  obtain x y z w r where rest: "rest = x # y # z # w # r"
    using assms(1) by (auto simp: eval_nat_numeral Suc_le_length_iff)
  have "be16 (word_of_nat len) = [z, w]"
    by (simp add: assms(2) rest subslice_def)
  then show ?thesis
    using take_subslice_drop [OF assms(3,4)] by (simp add: rest)
qed

lemma ParseSkfHeader_sound:
  "ParseSkfHeader b = Inr (f, tail) \<Longrightarrow>
     b = be16 (FragmentNumber f) @ be16 (TotalFragments f) @ tail
     \<and> 0 < FragmentNumber f \<and> FragmentNumber f \<le> TotalFragments f"
  by (auto simp: ParseSkfHeader_def Let_def subslice_def eval_nat_numeral Suc_le_length_iff not_less
        word_gt_0 split: if_splits)

lemma chain_of_Cons:
  assumes "chain_of buf (Next p) ps enc" "PType p \<noteq> PayloadTypeNone" "PType p \<noteq> PayloadTypeSK"
    "PType p \<noteq> PayloadTypeSKF" "Critical p \<longleftrightarrow> r AND 0x80 \<noteq> 0"
  shows "chain_of (raw_payload p r @ buf) (PType p) (p # ps) enc"
proof -
  obtain rs tail where *: "length rs = length ps" "buf = concat (map2 raw_payload ps rs) @ tail"
    "list_all2 (\<lambda>p r. Critical p \<longleftrightarrow> r AND 0x80 \<noteq> 0) ps rs"
    "case enc of None \<Rightarrow> tail = [] \<and> linked (Next p) ps PayloadTypeNone
       | Some e \<Rightarrow> (\<exists>r. tail = envelope_octets e r) \<and> linked (Next p) ps (EType e)
              \<and> EType e = (if Fragmented e then PayloadTypeSKF else PayloadTypeSK)"
    using assms(1) unfolding chain_of_def by blast
  show ?thesis
    unfolding chain_of_def
    by (rule exI [of _ "r # rs"], rule exI [of _ tail])
       (use * assms(2-5) in \<open>auto split: option.splits\<close>)
qed

lemma ParsePayloadsLoop_sound:
  "ParsePayloadsLoop rest t stop acc = Inr (ps, enc) \<Longrightarrow>
     \<exists>qs. ps = acc @ qs \<and> chain_of rest t qs enc \<and> (enc \<noteq> None \<longrightarrow> stop)"
proof (induction rest t stop acc arbitrary: ps enc rule: ParsePayloadsLoop.induct)
  case (1 rest t stop acc)
  let ?len = "unat (beUint16 (subslice rest 2 4))"
  let ?body = "subslice rest 4 ?len"
  let ?p = "\<lparr> PType = t, Critical = (rest ! 1 AND 0x80 \<noteq> 0), Next = rest ! 0, Body = ?body \<rparr>"
  note parse = 1(2) [unfolded ParsePayloadsLoop.simps [of rest t stop acc] Let_def]
  show ?case
  proof (cases "t = PayloadTypeNone")
    case True
    then show ?thesis using parse by (auto simp: chain_of_def split: if_splits)
  next
    case nonzero: False
    then have len: "4 \<le> length rest" "4 \<le> ?len" "?len \<le> length rest"
      using parse by (auto split: if_splits)
    have body: "4 + length ?body = ?len" using len by simp
    have raw: "rest = raw_payload ?p (rest ! 1) @ drop ?len rest"
      using raw_payload_split [OF len(1) refl len(2,3)] unfolding raw_payload_def
      by (simp only: body Payload.simps append.simps append_assoc)
    show ?thesis
    proof (cases "t = PayloadTypeSK \<or> t = PayloadTypeSKF")
      case True
      then have stop: "stop" and whole: "?len = length rest"
        using parse nonzero len by (auto split: if_splits)
      obtain f b where e: "enc = Some \<lparr> EType = t, InnerNext = rest ! 0,
            Fragmented = (t = PayloadTypeSKF), Frag = f, EBody = b \<rparr>" and ps: "ps = acc"
        and b: "?body = (if t = PayloadTypeSKF
                   then be16 (FragmentNumber f) @ be16 (TotalFragments f) else []) @ b"
        using parse nonzero len True stop whole
        by (fastforce split: if_splits dest: ParseSkfHeader_sound)
      have "rest = raw_payload ?p (rest ! 1)" using raw whole by simp
      also have "\<dots> = envelope_octets (the enc) (rest ! 1)"
        unfolding raw_payload_def envelope_octets_def Let_def e
        by (simp only: b Payload.simps EncryptedPayload.simps option.sel)
      finally show ?thesis
        using True e ps stop by (auto simp: chain_of_def)
    next
      case False
      then obtain qs where "ps = acc @ ?p # qs" "chain_of (drop ?len rest) (rest ! 0) qs enc"
        "enc \<noteq> None \<longrightarrow> stop"
        using 1(1) [OF nonzero _ refl refl refl _ refl] parse nonzero len by (auto split: if_splits)
      then show ?thesis
        using chain_of_Cons [of "drop ?len rest" ?p qs enc "rest ! 1"] raw nonzero False by auto
    qed
  qed
qed

text \<open>C30: whenever \<^verbatim>\<open>ParsePayloads\<close> succeeds, its result accounts for every octet
  of the input: the buffer is exactly the concatenation of the parsed payloads
  (their chaining octet, critical bit, 16-bit length and body) followed by the
  terminal encrypted envelope if there is one; each payload has the type its
  predecessor announced; none of them is None, SK or SKF; and an envelope is
  returned only when the caller asked for it.\<close>

theorem ParsePayloads_sound:
  assumes "ParsePayloads buf t stop = Inr (ps, enc)"
  shows "chain_of buf t ps enc \<and> (enc \<noteq> None \<longrightarrow> stop)"
  using ParsePayloadsLoop_sound [of buf t stop "[]"] assms by (auto simp: ParsePayloads_def)

theorem ParsePayloads_sound_witness:
  "chain_of [PayloadTypeSK, 0x80, 0, 5, 7, 0, 0, 0, 6, 9, 9] PayloadTypeNonce
     [\<lparr> PType = PayloadTypeNonce, Critical = True, Next = PayloadTypeSK, Body = [7] \<rparr>]
     (Some \<lparr> EType = PayloadTypeSK, InnerNext = 0, Fragmented = False,
             Frag = \<lparr> FragmentNumber = 0, TotalFragments = 0 \<rparr>, EBody = [9, 9] \<rparr>)"
proof -
  have "ParsePayloads [PayloadTypeSK, 0x80, 0, 5, 7, 0, 0, 0, 6, 9, 9] PayloadTypeNonce True
    = Inr ([\<lparr> PType = PayloadTypeNonce, Critical = True, Next = PayloadTypeSK, Body = [7] \<rparr>],
     Some \<lparr> EType = PayloadTypeSK, InnerNext = 0, Fragmented = False,
             Frag = \<lparr> FragmentNumber = 0, TotalFragments = 0 \<rparr>, EBody = [9, 9] \<rparr>)"
    by (simp add: ParsePayloads_def ParsePayloadsLoop.simps Let_def subslice_def beUint16_def)
  then show ?thesis by (rule ParsePayloads_sound [THEN conjunct1])
qed

end
