(* ===== verification/Payload_Codecs.thy ===== *)
theory Payload_Codecs
  imports Wire
begin

text \<open>
  The payload bodies of \<^verbatim>\<open>src/wire/payload\<close>: one encoder/decoder pair per
  payload (SA with proposals and transforms, TS, CP, ID, Delete, Notify, AUTH,
  KE, Nonce, CERT). An encoder appends to a buffer and may panic on values
  that have no wire form, so it returns a result; a decoder returns the value
  or an error. \<^verbatim>\<open>net.IP\<close> values are octet lists of length 0 (nil), 4 or 16
  with the standard library's \<^verbatim>\<open>To4\<close>/\<^verbatim>\<open>To16\<close>.

  Two interfaces carry the proofs: \<open>entry_codec\<close> (an element that is followed
  by more octets, with list lemmas for counted and exhausting loops) and
  \<open>body_codec\<close> (a whole payload body); both are interpreted on every codec.
\<close>

section \<open>Addresses\<close>

definition v4InV6Prefix :: bytes where
  "v4InV6Prefix = [0, 0, 0, 0, 0, 0, 0, 0, 0, 0, 0xff, 0xff]"

definition To4 :: "bytes \<Rightarrow> bytes option" where
  "To4 ip = (if length ip = 4 then Some ip
             else if length ip = 16 \<and> take 12 ip = v4InV6Prefix then Some (drop 12 ip)
             else None)"

definition To16 :: "bytes \<Rightarrow> bytes option" where
  "To16 ip = (if length ip = 4 then Some (v4InV6Prefix @ ip)
              else if length ip = 16 then Some ip else None)"

definition ipOctets :: "bytes \<Rightarrow> bytes" where
  "ipOctets ip = (case To4 ip of Some v4 \<Rightarrow> v4 | None \<Rightarrow> case_option [] id (To16 ip))"

definition cloneIP :: "bytes \<Rightarrow> bytes" where
  "cloneIP p = (if length p = 4 then v4InV6Prefix @ p else if length p = 16 then p else [])"

text \<open>The loop of \<^verbatim>\<open>compareIP\<close> over two addresses of equal length.\<close>

fun compareOctets :: "bytes \<Rightarrow> bytes \<Rightarrow> int" where
  "compareOctets (x # a) (y # b) =
     (if x < y then -1 else if x > y then 1 else compareOctets a b)"
| "compareOctets _ _ = 0"

definition compareIP :: "bytes \<Rightarrow> bytes \<Rightarrow> int" where
  "compareIP a b =
    (if length a \<noteq> length b then (if length a < length b then -1 else 1)
     else compareOctets a b)"

section \<open>Transforms and proposals\<close>

abbreviation (input) "TransformENC \<equiv> (1::8 word)"
abbreviation (input) "TransformPRF \<equiv> (2::8 word)"
abbreviation (input) "TransformINTEG \<equiv> (3::8 word)"
abbreviation (input) "TransformDH \<equiv> (4::8 word)"
abbreviation (input) "TransformESN \<equiv> (5::8 word)"
abbreviation (input) "TransformChainLast \<equiv> (0::8 word)"
abbreviation (input) "ProposalChainMore \<equiv> (2::8 word)"
abbreviation (input) "TransformChainMore \<equiv> (3::8 word)"
abbreviation (input) "TransformAttrKeyLength \<equiv> (14::16 word)"
abbreviation (input) "TransformAttrFormatTV \<equiv> (0x8000::16 word)"
abbreviation (input) "TransformHeaderLen \<equiv> (8::nat)"
abbreviation (input) "ProposalHeaderLen \<equiv> (8::nat)"

record Transform =
  TType :: "8 word"
  TID :: "16 word"
  TAttrs :: bytes

record Proposal =
  Num :: "8 word"
  PropProtocolID :: "8 word"
  PropSPI :: bytes
  Transforms :: "Transform list"

definition AppendTransform :: "bytes \<Rightarrow> Transform \<Rightarrow> bool \<Rightarrow> bytes res" where
  "AppendTransform dst t isLast =
    (if TransformHeaderLen + length (TAttrs t) > 0xFFFF
     then Inl (Panic ''transform length exceeds wire limit 65535'')
     else let start = length dst;
              dst = dst @ [0, 0, 0, 0, TType t, 0, 0, 0];
              dst = dst[start := if isLast then TransformChainLast else TransformChainMore];
              dst = putUint16 dst (start + 2) (word_of_nat (TransformHeaderLen + length (TAttrs t)));
              dst = putUint16 dst (start + 6) (TID t)
          in Inr (dst @ TAttrs t))"

definition ParseTransform :: "bytes \<Rightarrow> (Transform \<times> bytes) res" where
  "ParseTransform b =
    (if length b < TransformHeaderLen then Inl (Errorf ''transform too short'')
     else let len = unat (beUint16 (subslice b 2 4)) in
       if len < TransformHeaderLen then Inl (Errorf ''invalid transform length'')
       else if len > length b then Inl (Errorf ''transform length exceeds remaining'')
       else Inr (\<lparr> TType = b ! 4, TID = beUint16 (subslice b 6 8),
                   TAttrs = subslice b TransformHeaderLen len \<rparr>, drop len b))"

fun appendTransforms :: "bytes \<Rightarrow> Transform list \<Rightarrow> bytes res" where
  "appendTransforms dst [] = Inr dst"
| "appendTransforms dst (t # ts) =
     bind_res (AppendTransform dst t (ts = [])) (\<lambda>dst. appendTransforms dst ts)"

definition AppendProposal :: "bytes \<Rightarrow> Proposal \<Rightarrow> bool \<Rightarrow> bytes res" where
  "AppendProposal dst p hasMore =
    (if length (PropSPI p) > 255 then Inl (Panic ''proposal SPI length exceeds wire limit 255'')
     else if length (Transforms p) > 255
     then Inl (Panic ''proposal transforms exceed the wire limit 255'')
     else
       let transformLen = sum_list (map (\<lambda>t. TransformHeaderLen + length (TAttrs t)) (Transforms p));
           tot = ProposalHeaderLen + length (PropSPI p) + transformLen in
       if tot > 0xFFFF then Inl (Panic ''proposal length exceeds wire limit 65535'')
       else
         let start = length dst;
             dst = dst @ [0, 0, 0, 0, Num p, PropProtocolID p,
                     word_of_nat (length (PropSPI p)), word_of_nat (length (Transforms p))];
             dst = dst[start := if hasMore then ProposalChainMore else TransformChainLast];
             dst = putUint16 dst (start + 2) (word_of_nat tot)
         in appendTransforms (dst @ PropSPI p) (Transforms p))"

text \<open>The transform loop of \<^verbatim>\<open>ParseProposal\<close>; the first argument is the number of
  transforms still to read.\<close>

fun parseTransforms :: "nat \<Rightarrow> bytes \<Rightarrow> Transform list \<Rightarrow> (Transform list \<times> bytes) res" where
  "parseTransforms 0 rest acc = Inr (acc, rest)"
| "parseTransforms (Suc k) rest acc =
    (if length rest < TransformHeaderLen then Inl (Errorf ''transform too short'')
     else let marker = rest ! 0 in
       bind_res (ParseTransform rest) (\<lambda>(t, tail).
         let acc' = acc @ [t]; isLast = (k = 0) in
         if marker = TransformChainLast then
           (if \<not> isLast then Inl (Errorf ''transform chain ended early'') else Inr (acc', tail))
         else if marker \<noteq> TransformChainMore then Inl (Errorf ''invalid transform chain marker'')
         else if isLast then Inl (Errorf ''transform chain missing last marker'')
         else parseTransforms k tail acc'))"

definition ParseProposal :: "bytes \<Rightarrow> (Proposal \<times> bytes) res" where
  "ParseProposal b =
    (if length b < ProposalHeaderLen then Inl (Errorf ''proposal too short'')
     else let len = unat (beUint16 (subslice b 2 4)) in
       if len < ProposalHeaderLen then Inl (Errorf ''invalid proposal length'')
       else if len > length b then Inl (Errorf ''proposal length exceeds remaining'')
       else
         let spiSize = unat (b ! 6); numTransforms = unat (b ! 7) in
         if ProposalHeaderLen + spiSize > len then Inl (Errorf ''proposal spi exceeds declared length'')
         else if numTransforms = 0 then Inl (Errorf ''proposal declares no transforms'')
         else
           bind_res (parseTransforms numTransforms (subslice b (ProposalHeaderLen + spiSize) len) [])
             (\<lambda>(ts, rest).
               if length rest \<noteq> 0 then Inl (Errorf ''proposal has trailing bytes'')
               else Inr (\<lparr> Num = b ! 4, PropProtocolID = b ! 5,
                           PropSPI = subslice b ProposalHeaderLen (ProposalHeaderLen + spiSize),
                           Transforms = ts \<rparr>, drop len b)))"

definition KeyLengthAttr :: "16 word \<Rightarrow> bytes" where
  "KeyLengthAttr bits =
     putUint16 (putUint16 (replicate 4 0) 0 (TransformAttrKeyLength OR TransformAttrFormatTV)) 2 bits"

definition ParseKeyLengthAttr :: "bytes \<Rightarrow> (16 word) res" where
  "ParseKeyLengthAttr attrs =
    (if length attrs \<noteq> 4 then Inl (Errorf ''invalid key length attribute size'')
     else let typ = beUint16 (subslice attrs 0 2) in
       if typ AND TransformAttrFormatTV = 0
       then Inl (Errorf ''key length must use tv attribute format'')
       else if typ AND NOT TransformAttrFormatTV \<noteq> TransformAttrKeyLength
       then Inl (Errorf ''unsupported transform attribute'')
       else Inr (beUint16 (subslice attrs 2 4)))"

section \<open>SA\<close>

type_synonym SA = "Proposal list"

fun AppendSA :: "bytes \<Rightarrow> SA \<Rightarrow> bytes res" where
  "AppendSA dst [] = Inr dst"
| "AppendSA dst (p # ps) = bind_res (AppendProposal dst p (ps \<noteq> [])) (\<lambda>dst. AppendSA dst ps)"

lemma ParseTransform_consumes:
  "ParseTransform b = Inr (t, tail) \<Longrightarrow> length tail < length b"
  by (auto simp: ParseTransform_def Let_def split: if_splits)

lemma ParseProposal_consumes:
  "ParseProposal b = Inr (p, tail) \<Longrightarrow> length tail < length b"
  by (auto simp: ParseProposal_def Let_def split: if_splits)

function ParseSALoop :: "bytes \<Rightarrow> Proposal list \<Rightarrow> (Proposal list) res" where
  "ParseSALoop rest acc =
    (if length rest = 0 then Inr acc
     else if length rest < ProposalHeaderLen then Inl (Errorf ''sst proposal short'')
     else bind_res (ParseProposal rest) (\<lambda>(p, tail).
       let acc' = acc @ [p] in
       if length tail = 0 then
         (if rest ! 0 \<noteq> TransformChainLast then Inl (Errorf ''proposal chain missing last marker'')
          else Inr acc')
       else if rest ! 0 \<noteq> ProposalChainMore
       then Inl (Errorf ''proposal chain marker before remaining proposals'')
       else ParseSALoop tail acc'))"
  by pat_completeness auto
termination
  by (relation "measure (\<lambda>(rest, _). length rest)") (auto dest: ParseProposal_consumes)

declare ParseSALoop.simps [simp del]

definition ParseSA :: "bytes \<Rightarrow> SA res" where
  "ParseSA b =
    bind_res (ParseSALoop b []) (\<lambda>ps.
      if length ps = 0 then Inl (Errorf ''missing sa proposals'') else Inr ps)"

section \<open>Traffic selectors\<close>

abbreviation (input) "TSTypeIPv4AddrRange \<equiv> (7::8 word)"
abbreviation (input) "TSTypeIPv6AddrRange \<equiv> (8::8 word)"
abbreviation (input) "TsSelectorFixedLen \<equiv> (4::nat)"
abbreviation (input) "TsEntryFixedLen \<equiv> (8::nat)"

record Selector =
  SelType :: "8 word"
  SelProtocolID :: "8 word"
  StartPort :: "16 word"
  EndPort :: "16 word"
  StartAddr :: bytes
  EndAddr :: bytes

type_synonym TrafficSelectors = "Selector list"

definition addrLen :: "8 word \<Rightarrow> nat res" where
  "addrLen tsType =
    (if tsType = TSTypeIPv4AddrRange then Inr 4
     else if tsType = TSTypeIPv6AddrRange then Inr 16
     else Inl (Errorf ''unsupported traffic selector type''))"

definition appendTrafficSelector :: "bytes \<Rightarrow> Selector \<Rightarrow> bytes res" where
  "appendTrafficSelector dst s =
    (let startWidth = length (ipOctets (StartAddr s));
         endWidth = length (ipOctets (EndAddr s)) in
     if startWidth = 0 \<or> endWidth = 0 \<or> startWidth \<noteq> endWidth
     then Inl (Panic ''traffic selector address width mismatch'')
     else
       let start = length dst;
           dst = dst @ [SelType s, SelProtocolID s, 0, 0, 0, 0, 0, 0];
           dst = putUint16 dst (start + 2) (word_of_nat (TsEntryFixedLen + 2 * startWidth));
           dst = putUint16 dst (start + 4) (StartPort s);
           dst = putUint16 dst (start + 6) (EndPort s)
       in Inr (dst @ ipOctets (StartAddr s) @ ipOctets (EndAddr s)))"

definition parseTrafficSelector :: "bytes \<Rightarrow> (Selector \<times> bytes) res" where
  "parseTrafficSelector b =
    (if length b < TsEntryFixedLen then Inl (Errorf ''entry too short'')
     else bind_res (addrLen (b ! 0)) (\<lambda>width.
       if b ! 1 \<noteq> 0 then Inl (Errorf ''mvp traffic selector must use protocol 0'')
       else
         let entryLen = unat (beUint16 (subslice b 2 4)); want = TsEntryFixedLen + 2 * width in
         if entryLen \<noteq> want then Inl (Errorf ''invalid entry length for address width'')
         else if entryLen > length b then Inl (Errorf ''entry length exceeds remaining'')
         else
           let startPort = beUint16 (subslice b 4 6); endPort = beUint16 (subslice b 6 8) in
           if startPort > endPort then Inl (Errorf ''port range reversed'')
           else
             let addrs = subslice b TsEntryFixedLen entryLen;
                 startAddr = cloneIP (take width addrs);
                 endAddr = cloneIP (drop width addrs) in
             if length startAddr \<noteq> 0 \<and> compareIP startAddr endAddr > 0
             then Inl (Errorf ''address range reversed'')
             else Inr (\<lparr> SelType = b ! 0, SelProtocolID = b ! 1, StartPort = startPort,
                         EndPort = endPort, StartAddr = startAddr, EndAddr = endAddr \<rparr>,
                       drop entryLen b)))"

text \<open>The append loop and the counted parse loop, shared by the list-valued codecs.\<close>

fun append_each :: "(bytes \<Rightarrow> 'a \<Rightarrow> bytes res) \<Rightarrow> bytes \<Rightarrow> 'a list \<Rightarrow> bytes res" where
  "append_each app dst [] = Inr dst"
| "append_each app dst (x # xs) = bind_res (app dst x) (\<lambda>dst. append_each app dst xs)"

fun parse_count :: "(bytes \<Rightarrow> ('a \<times> bytes) res) \<Rightarrow> nat \<Rightarrow> bytes \<Rightarrow> 'a list \<Rightarrow> ('a list \<times> bytes) res" where
  "parse_count parse 0 rest acc = Inr (acc, rest)"
| "parse_count parse (Suc n) rest acc =
     bind_res (parse rest) (\<lambda>(x, tail). parse_count parse n tail (acc @ [x]))"

definition AppendTS :: "bytes \<Rightarrow> TrafficSelectors \<Rightarrow> bytes res" where
  "AppendTS dst ts =
    (if length ts > 255 then Inl (Panic ''traffic selectors exceed the wire limit 255'')
     else append_each appendTrafficSelector (dst @ [word_of_nat (length ts), 0, 0, 0]) ts)"

definition ParseTS :: "bytes \<Rightarrow> TrafficSelectors res" where
  "ParseTS b =
    (if length b < TsSelectorFixedLen then Inl (Errorf ''traffic selector payload too short'')
     else let count = unat (b ! 0) in
       if b ! 1 \<noteq> 0 \<or> b ! 2 \<noteq> 0 \<or> b ! 3 \<noteq> 0
       then Inl (Errorf ''traffic selector payload has non-zero reserved bytes'')
       else bind_res (parse_count parseTrafficSelector count (drop TsSelectorFixedLen b) [])
         (\<lambda>(ts, rest). if length rest \<noteq> 0
            then Inl (Errorf ''traffic selector payload has trailing bytes'') else Inr ts))"

section \<open>Configuration payloads\<close>

abbreviation (input) "ConfigTypeRequest \<equiv> (1::8 word)"
abbreviation (input) "ConfigTypeReply \<equiv> (2::8 word)"
abbreviation (input) "ConfigTypeSet \<equiv> (3::8 word)"
abbreviation (input) "ConfigTypeAck \<equiv> (4::8 word)"
abbreviation (input) "ConfigAttrInternalIPv4Address \<equiv> (1::16 word)"
abbreviation (input) "ConfigAttrInternalIPv4DNS \<equiv> (3::16 word)"
abbreviation (input) "ConfigAttrInternalAddressExpiry \<equiv> (5::16 word)"
abbreviation (input) "ConfigAttrInternalIPv6Address \<equiv> (8::16 word)"
abbreviation (input) "ConfigAttrInternalIPv6DNS \<equiv> (10::16 word)"
abbreviation (input) "ConfigFixedLen \<equiv> (4::nat)"
abbreviation (input) "ConfigAttrFixedLen \<equiv> (4::nat)"

record ConfigAttribute =
  AttrType :: "16 word"
  AttrValue :: bytes

record ConfigPayload =
  Kind :: "8 word"
  Attributes :: "ConfigAttribute list"

definition appendConfigAttribute :: "bytes \<Rightarrow> ConfigAttribute \<Rightarrow> bytes res" where
  "appendConfigAttribute dst attr =
    (if length (AttrValue attr) > 0xFFFF
     then Inl (Panic ''configuration attribute value exceeds wire limit 65535'')
     else let start = length dst;
              dst = dst @ [0, 0, 0, 0];
              dst = putUint16 dst start (AttrType attr);
              dst = putUint16 dst (start + 2) (word_of_nat (length (AttrValue attr)))
          in Inr (dst @ AttrValue attr))"

definition parseConfigAttribute :: "bytes \<Rightarrow> (ConfigAttribute \<times> bytes) res" where
  "parseConfigAttribute b =
    (if length b < ConfigAttrFixedLen then Inl (Errorf ''configuration attribute too short'')
     else let typ = beUint16 (subslice b 0 2); valueLen = unat (beUint16 (subslice b 2 4)) in
       if ConfigAttrFixedLen + valueLen > length b
       then Inl (Errorf ''configuration attribute value exceeds remaining bytes'')
       else Inr (\<lparr> AttrType = typ,
                   AttrValue = subslice b ConfigAttrFixedLen (ConfigAttrFixedLen + valueLen) \<rparr>,
                 drop (ConfigAttrFixedLen + valueLen) b))"

lemma parseConfigAttribute_consumes:
  "parseConfigAttribute b = Inr (a, tail) \<Longrightarrow> length tail < length b"
  by (auto simp: parseConfigAttribute_def Let_def split: if_splits)

definition AppendConfigPayload :: "bytes \<Rightarrow> ConfigPayload \<Rightarrow> bytes res" where
  "AppendConfigPayload dst cp =
    (let cfgType = (if Kind cp = 0 then ConfigTypeRequest else Kind cp)
     in append_each appendConfigAttribute (dst @ [cfgType, 0, 0, 0]) (Attributes cp))"

function parseConfigAttributes :: "bytes \<Rightarrow> ConfigAttribute list \<Rightarrow> (ConfigAttribute list) res" where
  "parseConfigAttributes rest acc =
    (if length rest > 0 then
       bind_res (parseConfigAttribute rest) (\<lambda>(attr, tail). parseConfigAttributes tail (acc @ [attr]))
     else Inr acc)"
  by pat_completeness auto
termination
  by (relation "measure (\<lambda>(rest, _). length rest)") (auto dest: parseConfigAttribute_consumes)

declare parseConfigAttributes.simps [simp del]

definition ParseConfigPayload :: "bytes \<Rightarrow> ConfigPayload res" where
  "ParseConfigPayload b =
    (if length b < ConfigFixedLen then Inl (Errorf ''configuration payload too short'')
     else if b ! 0 \<notin> {ConfigTypeRequest, ConfigTypeReply, ConfigTypeSet, ConfigTypeAck}
     then Inl (Errorf ''unsupported configuration payload type'')
     else if b ! 1 \<noteq> 0 \<or> b ! 2 \<noteq> 0 \<or> b ! 3 \<noteq> 0
     then Inl (Errorf ''configuration payload has non-zero reserved bytes'')
     else bind_res (parseConfigAttributes (drop ConfigFixedLen b) []) (\<lambda>attrs.
       Inr \<lparr> Kind = b ! 0, Attributes = attrs \<rparr>))"

definition AppendConfigRequest :: "bytes \<Rightarrow> bytes res" where
  "AppendConfigRequest dst =
    AppendConfigPayload dst \<lparr> Kind = ConfigTypeRequest,
      Attributes = map (\<lambda>typ. \<lparr> AttrType = typ, AttrValue = [] \<rparr>)
        [ConfigAttrInternalIPv4Address, ConfigAttrInternalIPv4DNS,
         ConfigAttrInternalIPv6Address, ConfigAttrInternalIPv6DNS] \<rparr>"

record ConfigRenewRequest =
  ReqIPv4 :: bytes
  ReqIPv6 :: bytes
  ReqIPv6Prefix :: "8 word"

definition AppendConfigRenewRequest :: "bytes \<Rightarrow> ConfigRenewRequest \<Rightarrow> bytes res" where
  "AppendConfigRenewRequest dst req =
    (let attrs = (case To4 (ReqIPv4 req) of None \<Rightarrow> []
         | Some v4 \<Rightarrow> [\<lparr> AttrType = ConfigAttrInternalIPv4Address, AttrValue = v4 \<rparr>]);
         attrs = attrs @ [\<lparr> AttrType = ConfigAttrInternalIPv4DNS, AttrValue = [] \<rparr>];
         attrs = attrs @ (case To16 (ReqIPv6 req) of None \<Rightarrow> []
         | Some v6 \<Rightarrow> [\<lparr> AttrType = ConfigAttrInternalIPv6Address,
                        AttrValue = v6 @ [ReqIPv6Prefix req] \<rparr>]);
         attrs = attrs @ [\<lparr> AttrType = ConfigAttrInternalIPv6DNS, AttrValue = [] \<rparr>]
     in AppendConfigPayload dst \<lparr> Kind = ConfigTypeRequest, Attributes = attrs \<rparr>)"

section \<open>Identification\<close>

abbreviation (input) "IDFixedLen \<equiv> (4::nat)"
abbreviation (input) "IDIPv4Addr \<equiv> (1::8 word)"
abbreviation (input) "IDFqdn \<equiv> (2::8 word)"
abbreviation (input) "IDRfc822Addr \<equiv> (3::8 word)"
abbreviation (input) "IDIPv6Addr \<equiv> (5::8 word)"
abbreviation (input) "IDKeyID \<equiv> (11::8 word)"

record ID =
  IDType :: "8 word"
  IDData :: bytes

definition AppendID :: "bytes \<Rightarrow> ID \<Rightarrow> bytes" where
  "AppendID dst i = dst @ [IDType i, 0, 0, 0] @ IDData i"

definition ParseID :: "bytes \<Rightarrow> ID res" where
  "ParseID b =
    (if length b < IDFixedLen then Inl (Errorf ''id payload too short'')
     else let data = drop IDFixedLen b in
       if length data = 0 then Inl (Errorf ''id payload is missing identity data'')
       else Inr \<lparr> IDType = b ! 0, IDData = data \<rparr>)"

section \<open>Delete and Notify\<close>

abbreviation (input) "DeleteProtocolIKE \<equiv> (1::8 word)"
abbreviation (input) "DeleteProtocolAH \<equiv> (2::8 word)"
abbreviation (input) "DeleteProtocolESP \<equiv> (3::8 word)"
abbreviation (input) "NotifyProtocolNone \<equiv> (0::8 word)"
abbreviation (input) "DeleteFixedLen \<equiv> (4::nat)"
abbreviation (input) "NotifyFixedLen \<equiv> (4::nat)"

record Delete =
  DelProtocolID :: "8 word"
  DelSPIs :: "32 word list"

definition AppendDelete :: "bytes \<Rightarrow> Delete \<Rightarrow> bytes res" where
  "AppendDelete dst d =
    (if DelProtocolID d = DeleteProtocolIKE \<and> length (DelSPIs d) \<noteq> 0
     then Inl (Panic ''IKE delete must not carry SPIs'')
     else if DelProtocolID d = DeleteProtocolESP
             \<and> (length (DelSPIs d) = 0 \<or> length (DelSPIs d) > 0xFFFF)
     then Inl (Panic ''ESP delete must carry 1..65535 SPIs'')
     else if DelProtocolID d \<noteq> DeleteProtocolIKE \<and> DelProtocolID d \<noteq> DeleteProtocolESP
     then Inl (Panic ''unsupported delete protocol'')
     else
       let spiSize = (if DelProtocolID d = DeleteProtocolESP then 4 else 0);
           start = length dst;
           dst = dst @ [DelProtocolID d, spiSize, 0, 0];
           dst = putUint16 dst (start + 2) (word_of_nat (length (DelSPIs d)))
       in Inr (fold (\<lambda>spi dst. putUint32 (dst @ [0, 0, 0, 0]) (length dst) spi) (DelSPIs d) dst))"

text \<open>\<^verbatim>\<open>for off := DeleteFixedLen; off < len(b); off += 4\<close>\<close>

function parseSPIs :: "bytes \<Rightarrow> nat \<Rightarrow> 32 word list \<Rightarrow> 32 word list" where
  "parseSPIs b off acc =
    (if off < length b then parseSPIs b (off + 4) (acc @ [beUint32 (subslice b off (off + 4))])
     else acc)"
  by pat_completeness auto
termination
  by (relation "measure (\<lambda>(b, off, _). length b - off)") auto

declare parseSPIs.simps [simp del]

definition ParseDelete :: "bytes \<Rightarrow> Delete res" where
  "ParseDelete b =
    (if length b < DeleteFixedLen then Inl (Errorf ''delete payload too short'')
     else let protocolID = b ! 0; spiSize = unat (b ! 1); count = unat (beUint16 (subslice b 2 4)) in
       if protocolID = DeleteProtocolIKE \<and> spiSize \<noteq> 0
       then Inl (Errorf ''ike delete must not carry spi values'')
       else if protocolID = DeleteProtocolIKE \<and> count \<noteq> 0
       then Inl (Errorf ''ike delete must not carry spi count'')
       else if protocolID = DeleteProtocolESP \<and> spiSize \<noteq> 4
       then Inl (Errorf ''esp delete must carry 4-byte spis'')
       else if protocolID = DeleteProtocolESP \<and> count = 0
       then Inl (Errorf ''esp delete must carry at least one spi'')
       else if protocolID \<noteq> DeleteProtocolIKE \<and> protocolID \<noteq> DeleteProtocolESP
       then Inl (Errorf ''unsupported delete protocol'')
       else if length b \<noteq> DeleteFixedLen + count * spiSize
       then Inl (Errorf ''invalid delete payload length'')
       else Inr \<lparr> DelProtocolID = protocolID, DelSPIs = parseSPIs b DeleteFixedLen [] \<rparr>)"

record Notify =
  NotProtocolID :: "8 word"
  NotSPI :: bytes
  NotType :: "16 word"
  NotData :: bytes

definition AppendNotify :: "bytes \<Rightarrow> Notify \<Rightarrow> bytes res" where
  "AppendNotify dst n =
    (if length (NotSPI n) > 255 then Inl (Panic ''notify SPI length exceeds wire limit 255'')
     else let start = length dst;
              dst = dst @ [NotProtocolID n, word_of_nat (length (NotSPI n)), 0, 0];
              dst = putUint16 dst (start + 2) (NotType n)
          in Inr (dst @ NotSPI n @ NotData n))"

definition checkNotifyScope :: "8 word \<Rightarrow> nat \<Rightarrow> unit res" where
  "checkNotifyScope protocolID spiLen =
    (if spiLen = 0 then
       (if protocolID \<noteq> NotifyProtocolNone \<and> protocolID \<noteq> DeleteProtocolIKE
        then Inl (Errorf ''notify without spi must use protocol 0 or ike'') else Inr ())
     else if protocolID \<noteq> DeleteProtocolAH \<and> protocolID \<noteq> DeleteProtocolESP
     then Inl (Errorf ''notify with spi must target ah or esp'') else Inr ())"

definition ParseNotify :: "bytes \<Rightarrow> Notify res" where
  "ParseNotify b =
    (if length b < NotifyFixedLen then Inl (Errorf ''notify payload too short'')
     else let spiSize = unat (b ! 1) in
       if NotifyFixedLen + spiSize > length b
       then Inl (Errorf ''notify payload spi exceeds remaining bytes'')
       else let n = \<lparr> NotProtocolID = b ! 0,
                      NotSPI = subslice b NotifyFixedLen (NotifyFixedLen + spiSize),
                      NotType = beUint16 (subslice b 2 4),
                      NotData = drop (NotifyFixedLen + spiSize) b \<rparr> in
         bind_res (checkNotifyScope (NotProtocolID n) (length (NotSPI n))) (\<lambda>_. Inr n))"

section \<open>Authentication, key exchange, nonce, certificate\<close>

abbreviation (input) "AuthFixedLen \<equiv> (4::nat)"
abbreviation (input) "KeFixedLen \<equiv> (4::nat)"

record Auth =
  AuthMethod :: "8 word"
  AuthData :: bytes

definition AppendAuth :: "bytes \<Rightarrow> Auth \<Rightarrow> bytes" where
  "AppendAuth dst a = dst @ [AuthMethod a, 0, 0, 0] @ AuthData a"

definition ParseAuth :: "bytes \<Rightarrow> Auth res" where
  "ParseAuth b =
    (if length b < AuthFixedLen then Inl (Errorf ''auth payload too short'')
     else if b ! 1 \<noteq> 0 \<or> b ! 2 \<noteq> 0 \<or> b ! 3 \<noteq> 0
     then Inl (Errorf ''auth payload has non-zero reserved bytes'')
     else Inr \<lparr> AuthMethod = b ! 0, AuthData = drop AuthFixedLen b \<rparr>)"

record KeyExchange =
  DHGroup :: "16 word"
  KEData :: bytes

definition AppendKE :: "bytes \<Rightarrow> KeyExchange \<Rightarrow> bytes" where
  "AppendKE dst ke = putUint16 (dst @ [0, 0, 0, 0]) (length dst) (DHGroup ke) @ KEData ke"

definition ParseKE :: "bytes \<Rightarrow> KeyExchange res" where
  "ParseKE b =
    (if length b < KeFixedLen then Inl (Errorf ''ke payload too short'')
     else let data = drop KeFixedLen b in
       if length data = 0 then Inl (Errorf ''ke payload is missing public key data'')
       else Inr \<lparr> DHGroup = beUint16 (subslice b 0 2), KEData = data \<rparr>)"

definition AppendNonce :: "bytes \<Rightarrow> bytes \<Rightarrow> bytes" where
  "AppendNonce dst nonce = dst @ nonce"

definition ParseNonce :: "bytes \<Rightarrow> bytes res" where
  "ParseNonce b = (if length b = 0 then Inl (Errorf ''nonce payload is empty'') else Inr b)"

record Cert =
  CertEncoding :: "8 word"
  DER :: bytes

definition AppendCert :: "bytes \<Rightarrow> Cert \<Rightarrow> bytes" where
  "AppendCert dst c = dst @ [CertEncoding c] @ DER c"

definition ParseCert :: "bytes \<Rightarrow> Cert res" where
  "ParseCert b =
    (if length b < 1 then Inl (Errorf ''cert payload too short'')
     else let der = drop 1 b in
       if length der = 0 then Inl (Errorf ''cert payload is missing der data'')
       else Inr \<lparr> CertEncoding = b ! 0, DER = der \<rparr>)"

section \<open>The two codec interfaces\<close>

locale entry_codec =
  fixes app :: "bytes \<Rightarrow> 'a \<Rightarrow> bytes res"
    and parse :: "bytes \<Rightarrow> ('a \<times> bytes) res"
    and valid :: "'a \<Rightarrow> bool"
    and octets :: "'a \<Rightarrow> bytes"
  assumes app_octets: "valid x \<Longrightarrow> app dst x = Inr (dst @ octets x)"
    and parse_octets: "valid x \<Longrightarrow> parse (octets x @ rest) = Inr (x, rest)"
begin

lemma append_each_octets:
  "\<forall>x \<in> set xs. valid x \<Longrightarrow> append_each app dst xs = Inr (dst @ concat (map octets xs))"
  by (induction xs arbitrary: dst) (auto simp: app_octets)

lemma parse_count_octets:
  "\<forall>x \<in> set xs. valid x \<Longrightarrow>
     parse_count parse (length xs) (concat (map octets xs) @ rest) acc = Inr (acc @ xs, rest)"
  by (induction xs arbitrary: acc) (auto simp: parse_octets)

lemma prefix_free:
  assumes "valid x" "valid y" "octets x @ r = octets y @ s"
  shows "x = y \<and> r = s"
proof -
  have "parse (octets x @ r) = parse (octets y @ s)" using assms(3) by (rule arg_cong)
  then show ?thesis
    using parse_octets [OF assms(1), of r] parse_octets [OF assms(2), of s] by simp
qed

end

locale body_codec =
  fixes app :: "bytes \<Rightarrow> 'a \<Rightarrow> bytes res"
    and parse :: "bytes \<Rightarrow> 'a res"
    and valid :: "'a \<Rightarrow> bool"
    and octets :: "'a \<Rightarrow> bytes"
  assumes app_octets: "valid x \<Longrightarrow> app dst x = Inr (dst @ octets x)"
    and parse_octets: "valid x \<Longrightarrow> parse (octets x) = Inr x"
begin

lemma round_trip: "valid x \<Longrightarrow> bind_res (app [] x) parse = Inr x"
  by (simp add: app_octets parse_octets)

lemma injective:
  assumes "valid x" "valid y" "app dst x = app dst y"
  shows "x = y"
proof -
  have "octets x = octets y"
    using app_octets [OF assms(1), of dst] app_octets [OF assms(2), of dst] assms(3) by simp
  then have "parse (octets x) = parse (octets y)" by (rule arg_cong)
  then show ?thesis using parse_octets [OF assms(1)] parse_octets [OF assms(2)] by simp
qed

end

section \<open>Lemmas: transforms, proposals, SA\<close>

definition transform_octets :: "Transform \<Rightarrow> bool \<Rightarrow> bytes" where
  "transform_octets t isLast =
     [if isLast then TransformChainLast else TransformChainMore, 0]
     @ be16 (word_of_nat (8 + length (TAttrs t))) @ [TType t, 0] @ be16 (TID t) @ TAttrs t"

definition valid_transform :: "Transform \<Rightarrow> bool" where
  "valid_transform t \<longleftrightarrow> 8 + length (TAttrs t) \<le> 0xFFFF"

fun transforms_octets :: "Transform list \<Rightarrow> bytes" where
  "transforms_octets [] = []"
| "transforms_octets (t # ts) = transform_octets t (ts = []) @ transforms_octets ts"

definition valid_proposal :: "Proposal \<Rightarrow> bool" where
  "valid_proposal p \<longleftrightarrow> length (PropSPI p) \<le> 255 \<and> Transforms p \<noteq> [] \<and> length (Transforms p) \<le> 255
     \<and> 8 + length (PropSPI p)
         + sum_list (map (\<lambda>t. 8 + length (TAttrs t)) (Transforms p)) \<le> 0xFFFF"

definition proposal_octets :: "Proposal \<Rightarrow> bool \<Rightarrow> bytes" where
  "proposal_octets p hasMore =
     [if hasMore then ProposalChainMore else TransformChainLast, 0]
     @ be16 (word_of_nat (8 + length (PropSPI p) + length (transforms_octets (Transforms p))))
     @ [Num p, PropProtocolID p, word_of_nat (length (PropSPI p)),
        word_of_nat (length (Transforms p))]
     @ PropSPI p @ transforms_octets (Transforms p)"

fun SA_octets :: "SA \<Rightarrow> bytes" where
  "SA_octets [] = []"
| "SA_octets (p # ps) = proposal_octets p (ps \<noteq> []) @ SA_octets ps"

definition valid_SA :: "SA \<Rightarrow> bool" where
  "valid_SA sa \<longleftrightarrow> sa \<noteq> [] \<and> (\<forall>p \<in> set sa. valid_proposal p)"

lemma length_transform_octets [simp]: "length (transform_octets t l) = 8 + length (TAttrs t)"
  by (simp add: transform_octets_def)

lemma length_transforms_octets:
  "length (transforms_octets ts) = sum_list (map (\<lambda>t. 8 + length (TAttrs t)) ts)"
  by (induction ts) auto

lemma AppendTransform_octets:
  "valid_transform t \<Longrightarrow> AppendTransform dst t l = Inr (dst @ transform_octets t l)"
  by (simp add: AppendTransform_def valid_transform_def Let_def putUint16_def be16_def
        transform_octets_def list_update_append del: of_nat_add)

lemma ParseTransform_octets:
  assumes "valid_transform t"
  shows "ParseTransform (transform_octets t l @ rest) = Inr (t, rest)"
proof -
  let ?b = "transform_octets t l @ rest"
  have sl: "subslice ?b 2 4 = be16 (word_of_nat (8 + length (TAttrs t)))"
    "subslice ?b 6 8 = be16 (TID t)" "?b ! 4 = TType t" "\<not> length ?b < 8"
    "subslice ?b 8 (8 + length (TAttrs t)) = TAttrs t"
    by (simp_all add: transform_octets_def subslice_def nth_append be16_def)
  have dr: "drop (8 + length (TAttrs t)) ?b = rest"
    by (metis append_eq_conv_conj length_transform_octets)
  have len: "unat (word_of_nat (8 + length (TAttrs t)) :: 16 word) = 8 + length (TAttrs t)"
    using assms by (simp add: valid_transform_def unat_word_of_nat del: of_nat_add)
  show ?thesis
    using len by (simp only: ParseTransform_def Let_def sl beUint_be_Nil dr if_False) simp
qed

lemma appendTransforms_octets:
  "\<forall>t \<in> set ts. valid_transform t \<Longrightarrow>
     appendTransforms dst ts = Inr (dst @ transforms_octets ts)"
  by (induction ts arbitrary: dst) (auto simp: AppendTransform_octets)

lemma transform_octets_marker:
  "(transform_octets t l @ rest) ! 0 = (if l then TransformChainLast else TransformChainMore)"
  by (simp add: transform_octets_def)

lemma parseTransforms_octets:
  "ts \<noteq> [] \<Longrightarrow> \<forall>t \<in> set ts. valid_transform t \<Longrightarrow>
     parseTransforms (length ts) (transforms_octets ts) acc = Inr (acc @ ts, [])"
proof (induction ts arbitrary: acc)
  case (Cons t ts)
  have "parseTransforms (length (t # ts)) (transforms_octets (t # ts)) acc
    = (if ts = [] then Inr (acc @ [t], []) else parseTransforms (length ts) (transforms_octets ts) (acc @ [t]))"
    using Cons.prems transform_octets_marker [of t "ts = []" "transforms_octets ts"]
      ParseTransform_octets [of t "ts = []" "transforms_octets ts"]
    by (simp add: Let_def)
  then show ?case using Cons by auto
qed simp

lemma sum_list_member_le:
  "t \<in> set ts \<Longrightarrow> (f t :: nat) \<le> sum_list (map f ts)"
  by (induction ts) auto

lemma valid_proposal_transforms: "valid_proposal p \<Longrightarrow> \<forall>t \<in> set (Transforms p). valid_transform t"
  using sum_list_member_le [where f = "\<lambda>t. 8 + length (TAttrs t)"]
  by (fastforce simp: valid_proposal_def valid_transform_def)

lemma AppendProposal_octets:
  assumes "valid_proposal p"
  shows "AppendProposal dst p hasMore = Inr (dst @ proposal_octets p hasMore)"
  using assms appendTransforms_octets [OF valid_proposal_transforms [OF assms]]
  by (simp add: AppendProposal_def valid_proposal_def Let_def putUint16_def be16_def
        proposal_octets_def list_update_append length_transforms_octets del: of_nat_add)

lemma length_proposal_octets:
  "length (proposal_octets p m) = 8 + length (PropSPI p) + length (transforms_octets (Transforms p))"
  by (simp add: proposal_octets_def)

lemma ParseProposal_octets:
  assumes "valid_proposal p"
  shows "ParseProposal (proposal_octets p m @ rest) = Inr (p, rest)"
proof -
  let ?b = "proposal_octets p m @ rest"
  let ?T = "transforms_octets (Transforms p)"
  let ?n = "8 + length (PropSPI p) + length ?T"
  have ix: "subslice ?b 2 4 = be16 (word_of_nat ?n)" "?b ! 4 = Num p" "?b ! 5 = PropProtocolID p"
    "?b ! 6 = word_of_nat (length (PropSPI p))" "?b ! 7 = word_of_nat (length (Transforms p))"
    "subslice ?b 8 (8 + length (PropSPI p)) = PropSPI p"
    by (simp_all add: proposal_octets_def subslice_def nth_append be16_def)
  obtain H where "proposal_octets p m = H @ PropSPI p @ ?T" "length H = 8"
    by (simp add: proposal_octets_def)
  then have sub: "subslice ?b (8 + length (PropSPI p)) ?n = ?T"
    by (simp add: subslice_append_right subslice_append_left)
  have dr: "drop ?n ?b = rest"
    by (metis append_eq_conv_conj length_proposal_octets)
  have n: "unat (word_of_nat ?n :: 16 word) = ?n"
    "unat (word_of_nat (length (PropSPI p)) :: 8 word) = length (PropSPI p)"
    "unat (word_of_nat (length (Transforms p)) :: 8 word) = length (Transforms p)"
    using assms by (simp_all add: valid_proposal_def length_transforms_octets unat_word_of_nat
        del: of_nat_add)
  have ts: "parseTransforms (length (Transforms p)) ?T [] = Inr (Transforms p, [])"
    using parseTransforms_octets [OF _ valid_proposal_transforms [OF assms]] assms
    by (simp add: valid_proposal_def)
  have "\<not> length ?b < 8" "\<not> ?n > length ?b" by (simp_all add: length_proposal_octets)
  then show ?thesis
    using assms ts
    by (simp only: ParseProposal_def Let_def ix sub beUint_be_Nil n dr if_False)
       (auto simp: valid_proposal_def)
qed

lemma AppendSA_octets:
  "\<forall>p \<in> set sa. valid_proposal p \<Longrightarrow> AppendSA dst sa = Inr (dst @ SA_octets sa)"
  by (induction sa arbitrary: dst) (auto simp: AppendProposal_octets)

lemma SA_octets_ne: "sa \<noteq> [] \<Longrightarrow> SA_octets sa \<noteq> []"
  by (cases sa) (auto simp: proposal_octets_def)

lemma ParseSALoop_octets:
  "sa \<noteq> [] \<Longrightarrow> \<forall>p \<in> set sa. valid_proposal p \<Longrightarrow>
     ParseSALoop (SA_octets sa) acc = Inr (acc @ sa)"
proof (induction sa arbitrary: acc)
  case (Cons p ps)
  have m: "(proposal_octets p (ps \<noteq> []) @ SA_octets ps) ! 0 = (if ps = [] then 0 else 2)"
    by (simp add: proposal_octets_def)
  have "ParseSALoop (SA_octets (p # ps)) acc
      = (if ps = [] then Inr (acc @ [p]) else ParseSALoop (SA_octets ps) (acc @ [p]))"
    using Cons.prems ParseProposal_octets [of p "ps \<noteq> []" "SA_octets ps"] SA_octets_ne [of ps] m
    by (subst ParseSALoop.simps) (auto simp: Let_def length_proposal_octets)
  then show ?case using Cons by auto
qed simp

interpretation sa_codec: body_codec AppendSA ParseSA valid_SA SA_octets
  by unfold_locales
     (auto simp: valid_SA_def AppendSA_octets ParseSA_def ParseSALoop_octets)

section \<open>Lemmas: traffic selectors\<close>

text \<open>The address forms \<^verbatim>\<open>ParseTS\<close> produces: IPv4 as the 16-octet mapped form,
  IPv6 as it is. An IPv6 selector with a mapped address has no wire form that
  is read back, because \<^verbatim>\<open>ipOctets\<close> shortens it to 4 octets.\<close>

definition valid_addr :: "8 word \<Rightarrow> bytes \<Rightarrow> bool" where
  "valid_addr typ ip \<longleftrightarrow> length ip = 16 \<and>
     (if typ = TSTypeIPv4AddrRange then take 12 ip = v4InV6Prefix
      else typ = TSTypeIPv6AddrRange \<and> take 12 ip \<noteq> v4InV6Prefix)"

definition valid_selector :: "Selector \<Rightarrow> bool" where
  "valid_selector s \<longleftrightarrow> SelProtocolID s = 0 \<and> StartPort s \<le> EndPort s
     \<and> valid_addr (SelType s) (StartAddr s) \<and> valid_addr (SelType s) (EndAddr s)
     \<and> compareIP (StartAddr s) (EndAddr s) \<le> 0"

definition selector_octets :: "Selector \<Rightarrow> bytes" where
  "selector_octets s =
     [SelType s, SelProtocolID s] @ be16 (word_of_nat (8 + 2 * length (ipOctets (StartAddr s))))
     @ be16 (StartPort s) @ be16 (EndPort s) @ ipOctets (StartAddr s) @ ipOctets (EndAddr s)"

definition TS_octets :: "TrafficSelectors \<Rightarrow> bytes" where
  "TS_octets ts = [word_of_nat (length ts), 0, 0, 0] @ concat (map selector_octets ts)"

definition valid_TS :: "TrafficSelectors \<Rightarrow> bool" where
  "valid_TS ts \<longleftrightarrow> length ts \<le> 255 \<and> (\<forall>s \<in> set ts. valid_selector s)"

lemma length_v4InV6Prefix [simp]: "length v4InV6Prefix = 12" "v4InV6Prefix \<noteq> []"
  by (simp_all add: v4InV6Prefix_def)

lemma valid_addr_octets:
  assumes "valid_addr typ ip"
  shows "addrLen typ = Inr (length (ipOctets ip))" "cloneIP (ipOctets ip) = ip"
    "length (ipOctets ip) = 4 \<or> length (ipOctets ip) = 16"
proof -
  have "take 12 ip @ drop 12 ip = ip" by simp
  then show "addrLen typ = Inr (length (ipOctets ip))" "cloneIP (ipOctets ip) = ip"
    "length (ipOctets ip) = 4 \<or> length (ipOctets ip) = 16"
    using assms
    by (auto simp: valid_addr_def addrLen_def ipOctets_def To4_def To16_def cloneIP_def
          simp del: append_take_drop_id split: if_splits)
qed

lemma appendTrafficSelector_octets:
  assumes "valid_selector s"
  shows "appendTrafficSelector dst s = Inr (dst @ selector_octets s)"
proof -
  have w: "addrLen (SelType s) = Inr (length (ipOctets (StartAddr s)))"
    "addrLen (SelType s) = Inr (length (ipOctets (EndAddr s)))"
    "length (ipOctets (StartAddr s)) = 4 \<or> length (ipOctets (StartAddr s)) = 16"
    using assms valid_addr_octets [of "SelType s"] by (simp_all add: valid_selector_def)
  then have "length (ipOctets (EndAddr s)) = length (ipOctets (StartAddr s))" by simp
  then show ?thesis
    using w(3)
    by (auto simp: appendTrafficSelector_def Let_def putUint16_def be16_def selector_octets_def
          list_update_append)
qed

lemma parseTrafficSelector_octets:
  assumes "valid_selector s"
  shows "parseTrafficSelector (selector_octets s @ rest) = Inr (s, rest)"
proof -
  let ?b = "selector_octets s @ rest"
  let ?S = "ipOctets (StartAddr s)" and ?E = "ipOctets (EndAddr s)"
  have w: "addrLen (SelType s) = Inr (length ?S)" "addrLen (SelType s) = Inr (length ?E)"
    "length ?S = 4 \<or> length ?S = 16" "cloneIP ?S = StartAddr s" "cloneIP ?E = EndAddr s"
    using assms valid_addr_octets [of "SelType s"] by (simp_all add: valid_selector_def)
  then have e: "length ?E = length ?S" by simp
  let ?n = "8 + 2 * length ?S"
  have ix: "?b ! 0 = SelType s" "?b ! 1 = 0" "subslice ?b 2 4 = be16 (word_of_nat ?n)"
    "subslice ?b 4 6 = be16 (StartPort s)" "subslice ?b 6 8 = be16 (EndPort s)"
    "subslice ?b 8 ?n = ?S @ ?E" "\<not> length ?b < 8" "\<not> ?n > length ?b"
    using assms e by (simp_all add: selector_octets_def subslice_def nth_append be16_def
        valid_selector_def)
  have l: "length (selector_octets s) = ?n" using e by (simp add: selector_octets_def)
  then have dr: "drop ?n ?b = rest" by (metis append_eq_conv_conj)
  have n: "unat (word_of_nat ?n :: 16 word) = ?n"
    using w(3) by (auto simp: unat_word_of_nat)
  show ?thesis
    unfolding parseTrafficSelector_def ix w(1) bind_res_simps Let_def beUint_be_Nil n dr
    using assms w e l by (auto simp: valid_selector_def)
qed

interpretation ts_entry:
  entry_codec appendTrafficSelector parseTrafficSelector valid_selector selector_octets
  by unfold_locales (simp_all add: appendTrafficSelector_octets parseTrafficSelector_octets)

lemma ParseTS_octets:
  assumes "valid_TS ts"
  shows "ParseTS (TS_octets ts) = Inr ts"
proof -
  have "unat (word_of_nat (length ts) :: 8 word) = length ts"
    using assms by (simp add: valid_TS_def)
  then show ?thesis
    using assms ts_entry.parse_count_octets [of ts "[]" "[]"]
    by (simp add: ParseTS_def TS_octets_def valid_TS_def)
qed

interpretation ts_codec: body_codec AppendTS ParseTS valid_TS TS_octets
  by unfold_locales (use ParseTS_octets in
     \<open>auto simp: AppendTS_def valid_TS_def ts_entry.append_each_octets TS_octets_def\<close>)

text \<open>What the parser guarantees of a selector it accepts.\<close>

lemma parseTrafficSelector_sound:
  "parseTrafficSelector b = Inr (s, tail) \<Longrightarrow>
     SelProtocolID s = 0 \<and> StartPort s \<le> EndPort s \<and> length (StartAddr s) = 16
     \<and> length (EndAddr s) = 16 \<and> SelType s \<in> {TSTypeIPv4AddrRange, TSTypeIPv6AddrRange}
     \<and> (SelType s = TSTypeIPv4AddrRange \<longrightarrow> take 12 (StartAddr s) = v4InV6Prefix
          \<and> take 12 (EndAddr s) = v4InV6Prefix)
     \<and> compareIP (StartAddr s) (EndAddr s) \<le> 0"
  by (auto simp: parseTrafficSelector_def Let_def addrLen_def cloneIP_def split: if_splits)

lemma parse_count_all:
  "parse_count parse n b acc = Inr (xs, tail) \<Longrightarrow> \<forall>x \<in> set acc. P x \<Longrightarrow>
   (\<And>b x tail. parse b = Inr (x, tail) \<Longrightarrow> P x) \<Longrightarrow> \<forall>x \<in> set xs. P x"
  by (induction parse n b acc rule: parse_count.induct) fastforce+

section \<open>Lemmas: configuration payloads\<close>

definition attribute_octets :: "ConfigAttribute \<Rightarrow> bytes" where
  "attribute_octets a =
     be16 (AttrType a) @ be16 (word_of_nat (length (AttrValue a))) @ AttrValue a"

definition valid_attribute :: "ConfigAttribute \<Rightarrow> bool" where
  "valid_attribute a \<longleftrightarrow> length (AttrValue a) \<le> 0xFFFF"

definition CP_octets :: "ConfigPayload \<Rightarrow> bytes" where
  "CP_octets cp = [Kind cp, 0, 0, 0] @ concat (map attribute_octets (Attributes cp))"

definition valid_CP :: "ConfigPayload \<Rightarrow> bool" where
  "valid_CP cp \<longleftrightarrow> Kind cp \<in> {ConfigTypeRequest, ConfigTypeReply, ConfigTypeSet, ConfigTypeAck}
     \<and> (\<forall>a \<in> set (Attributes cp). valid_attribute a)"

lemma parseConfigAttribute_octets:
  assumes "valid_attribute a"
  shows "parseConfigAttribute (attribute_octets a @ rest) = Inr (a, rest)"
proof -
  let ?b = "attribute_octets a @ rest" and ?n = "length (AttrValue a)"
  have ix: "subslice ?b 0 2 = be16 (AttrType a)" "subslice ?b 2 4 = be16 (word_of_nat ?n)"
    "subslice ?b 4 (4 + ?n) = AttrValue a" "\<not> length ?b < 4"
    by (simp_all add: attribute_octets_def subslice_def be16_def)
  have l: "length (attribute_octets a) = 4 + ?n" by (simp add: attribute_octets_def)
  then have dr: "drop (4 + ?n) ?b = rest" by (metis append_eq_conv_conj)
  have n: "unat (word_of_nat ?n :: 16 word) = ?n" using assms by (simp add: valid_attribute_def)
  show ?thesis
    unfolding parseConfigAttribute_def Let_def ix beUint_be_Nil n dr if_False by (simp add: l)
qed

interpretation cp_entry:
  entry_codec appendConfigAttribute parseConfigAttribute valid_attribute attribute_octets
  by (unfold_locales, use parseConfigAttribute_octets in
     \<open>simp_all add: appendConfigAttribute_def valid_attribute_def
        attribute_octets_def Let_def putUint16_def be16_def list_update_append\<close>)

lemma parseConfigAttributes_octets:
  "\<forall>a \<in> set as. valid_attribute a \<Longrightarrow>
     parseConfigAttributes (concat (map attribute_octets as)) acc = Inr (acc @ as)"
proof (induction as arbitrary: acc)
  case Nil
  show ?case by (simp add: parseConfigAttributes.simps)
next
  case (Cons a as)
  have "0 < length (attribute_octets a)" by (simp add: attribute_octets_def)
  then show ?case
    using Cons by (subst parseConfigAttributes.simps) (auto simp: parseConfigAttribute_octets)
qed

interpretation cp_codec: body_codec AppendConfigPayload ParseConfigPayload valid_CP CP_octets
  by unfold_locales
     (auto simp: AppendConfigPayload_def ParseConfigPayload_def valid_CP_def CP_octets_def
        cp_entry.append_each_octets parseConfigAttributes_octets)

section \<open>Lemmas: Delete and Notify\<close>

definition Delete_octets :: "Delete \<Rightarrow> bytes" where
  "Delete_octets d = [DelProtocolID d, if DelProtocolID d = DeleteProtocolESP then 4 else 0]
     @ be16 (word_of_nat (length (DelSPIs d))) @ concat (map be32 (DelSPIs d))"

definition valid_Delete :: "Delete \<Rightarrow> bool" where
  "valid_Delete d \<longleftrightarrow> (DelProtocolID d = DeleteProtocolIKE \<and> DelSPIs d = [])
     \<or> (DelProtocolID d = DeleteProtocolESP \<and> DelSPIs d \<noteq> [] \<and> length (DelSPIs d) \<le> 0xFFFF)"

lemma fold_putSPI:
  "fold (\<lambda>spi dst. putUint32 (dst @ [0, 0, 0, 0]) (length dst) spi) spis dst
     = dst @ concat (map be32 spis)"
  by (induction spis arbitrary: dst)
     (simp_all add: putUint32_def be32_def list_update_append)

lemma length_concat_be32 [simp]: "length (concat (map be32 spis)) = 4 * length spis"
  by (induction spis) auto

lemma parseSPIs_octets:
  "parseSPIs (pre @ concat (map be32 spis)) (length pre) acc = acc @ spis"
proof (induction spis arbitrary: pre acc)
  case Nil
  show ?case by (simp add: parseSPIs.simps)
next
  case (Cons v spis)
  have "parseSPIs (pre @ concat (map be32 (v # spis))) (length pre) acc
      = parseSPIs ((pre @ be32 v) @ concat (map be32 spis)) (length (pre @ be32 v)) (acc @ [v])"
    by (subst parseSPIs.simps) (simp add: subslice_def)
  then show ?case using Cons [of "pre @ be32 v" "acc @ [v]"] by simp
qed

interpretation delete_codec: body_codec AppendDelete ParseDelete valid_Delete Delete_octets
proof
  show "AppendDelete dst d = Inr (dst @ Delete_octets d)" if "valid_Delete d" for dst d
    using that
    by (auto simp: AppendDelete_def valid_Delete_def Delete_octets_def Let_def fold_putSPI
          putUint16_def be16_def list_update_append)
  show "ParseDelete (Delete_octets d) = Inr d" if "valid_Delete d" for d
    using that parseSPIs_octets [of "[3, 4] @ be16 (word_of_nat (length (DelSPIs d)))" "DelSPIs d" "[]"]
      parseSPIs_octets [of "[1, 0] @ be16 0" "[]" "[]"]
    by (auto simp: ParseDelete_def valid_Delete_def Delete_octets_def Let_def subslice_def)
qed

definition Notify_octets :: "Notify \<Rightarrow> bytes" where
  "Notify_octets n = [NotProtocolID n, word_of_nat (length (NotSPI n))] @ be16 (NotType n)
     @ NotSPI n @ NotData n"

definition valid_Notify :: "Notify \<Rightarrow> bool" where
  "valid_Notify n \<longleftrightarrow> length (NotSPI n) \<le> 255
     \<and> (if NotSPI n = [] then NotProtocolID n \<in> {NotifyProtocolNone, DeleteProtocolIKE}
        else NotProtocolID n \<in> {DeleteProtocolAH, DeleteProtocolESP})"

lemma ParseNotify_octets:
  assumes "valid_Notify n"
  shows "ParseNotify (Notify_octets n) = Inr n"
proof -
  let ?b = "Notify_octets n" and ?l = "length (NotSPI n)"
  have ix: "?b ! 0 = NotProtocolID n" "?b ! 1 = word_of_nat ?l" "subslice ?b 2 4 = be16 (NotType n)"
    "subslice ?b 4 (4 + ?l) = NotSPI n" "drop (4 + ?l) ?b = NotData n" "\<not> length ?b < 4"
    "\<not> 4 + ?l > length ?b"
    by (simp_all add: Notify_octets_def subslice_def be16_def drop_add del: drop_drop)
  have l: "unat (word_of_nat ?l :: 8 word) = ?l" using assms by (simp add: valid_Notify_def)
  show ?thesis
    unfolding ParseNotify_def Let_def ix l if_False beUint_be_Nil
    using assms ix(7) by (auto simp: valid_Notify_def checkNotifyScope_def split: if_splits)
qed

interpretation notify_codec: body_codec AppendNotify ParseNotify valid_Notify Notify_octets
  by (unfold_locales, use ParseNotify_octets in
     \<open>simp_all add: AppendNotify_def valid_Notify_def Notify_octets_def Let_def
        putUint16_def be16_def list_update_append\<close>)

section \<open>Lemmas: the simple bodies\<close>

interpretation id_codec: body_codec "\<lambda>dst i. Inr (AppendID dst i)" ParseID
    "\<lambda>i. IDData i \<noteq> []" "AppendID []"
  by unfold_locales (auto simp: AppendID_def ParseID_def)

interpretation auth_codec: body_codec "\<lambda>dst a. Inr (AppendAuth dst a)" ParseAuth
    "\<lambda>_. True" "AppendAuth []"
  by unfold_locales (auto simp: AppendAuth_def ParseAuth_def)

interpretation ke_codec: body_codec "\<lambda>dst ke. Inr (AppendKE dst ke)" ParseKE
    "\<lambda>ke. KEData ke \<noteq> []" "AppendKE []"
proof
  show "Inr (AppendKE dst ke) = Inr (dst @ AppendKE [] ke)" for dst ke
    by (simp add: AppendKE_def putUint16_def list_update_append)
  have "AppendKE [] ke = be16 (DHGroup ke) @ [0, 0] @ KEData ke" for ke
    by (simp add: AppendKE_def putUint16_def be16_def)
  then show "ParseKE (AppendKE [] ke) = Inr ke" if "KEData ke \<noteq> []" for ke
    using that by (simp add: ParseKE_def)
qed

interpretation nonce_codec: body_codec "\<lambda>dst n. Inr (AppendNonce dst n)" ParseNonce
    "\<lambda>n. n \<noteq> []" "AppendNonce []"
  by unfold_locales (auto simp: AppendNonce_def ParseNonce_def)

interpretation cert_codec: body_codec "\<lambda>dst c. Inr (AppendCert dst c)" ParseCert
    "\<lambda>c. DER c \<noteq> []" "AppendCert []"
  by unfold_locales (auto simp: AppendCert_def ParseCert_def)

section \<open>Properties\<close>

text \<open>C38: an SA payload body with at least one proposal, each with 1 to 255
  transforms and sizes that fit the wire fields, survives encoding and
  decoding: \<^verbatim>\<open>AppendSA\<close> does not panic and \<^verbatim>\<open>ParseSA\<close> returns the same proposals,
  with their SPIs, transforms and attributes, in order.\<close>

theorem ParseSA_AppendSA:
  assumes "valid_SA sa"
  shows "bind_res (AppendSA [] sa) ParseSA = Inr sa"
  using assms by (rule sa_codec.round_trip)

definition sample_SA :: SA where
  "sample_SA =
    [\<lparr> Num = 1, PropProtocolID = 3, PropSPI = [1, 2, 3, 4],
       Transforms = [\<lparr> TType = 1, TID = 20, TAttrs = KeyLengthAttr 256 \<rparr>,
                     \<lparr> TType = 5, TID = 0, TAttrs = [] \<rparr>] \<rparr>,
     \<lparr> Num = 2, PropProtocolID = 3, PropSPI = [1, 2, 3, 4],
       Transforms = [\<lparr> TType = 1, TID = 12, TAttrs = [] \<rparr>] \<rparr>]"

theorem ParseSA_AppendSA_witness:
  "valid_SA sample_SA \<and> bind_res (AppendSA [] sample_SA) ParseSA = Inr sample_SA"
proof
  show valid: "valid_SA sample_SA"
    by (simp add: valid_SA_def sample_SA_def valid_proposal_def KeyLengthAttr_def putUint16_def)
  show "bind_res (AppendSA [] sample_SA) ParseSA = Inr sample_SA"
    by (rule ParseSA_AppendSA [OF valid])
qed

text \<open>A traffic selector payload of at most 255 selectors with ordered ranges and
  addresses of the declared family survives encoding and decoding.\<close>

theorem ParseTS_AppendTS:
  assumes "valid_TS ts"
  shows "bind_res (AppendTS [] ts) ParseTS = Inr ts"
  using assms by (rule ts_codec.round_trip)

definition sample_TS :: TrafficSelectors where
  "sample_TS =
    [\<lparr> SelType = TSTypeIPv4AddrRange, SelProtocolID = 0, StartPort = 0, EndPort = 0xffff,
       StartAddr = v4InV6Prefix @ [10, 0, 0, 0], EndAddr = v4InV6Prefix @ [10, 0, 0, 255] \<rparr>,
     \<lparr> SelType = TSTypeIPv6AddrRange, SelProtocolID = 0, StartPort = 0, EndPort = 0xffff,
       StartAddr = [0x20, 0, 0, 0, 0, 0, 0, 0, 0, 0, 0, 0, 0, 0, 0, 0],
       EndAddr = [0x3f, 0xff, 0xff, 0xff, 0xff, 0xff, 0xff, 0xff,
                  0xff, 0xff, 0xff, 0xff, 0xff, 0xff, 0xff, 0xff] \<rparr>]"

lemma valid_sample_TS: "valid_TS sample_TS"
  by (simp add: valid_TS_def sample_TS_def valid_selector_def valid_addr_def v4InV6Prefix_def
        compareIP_def)

theorem ParseTS_AppendTS_witness:
  "valid_TS sample_TS \<and> bind_res (AppendTS [] sample_TS) ParseTS = Inr sample_TS"
  using valid_sample_TS ParseTS_AppendTS [OF valid_sample_TS] by simp

text \<open>C40: every traffic selector \<^verbatim>\<open>ParseTS\<close> accepts, from any input, is of a known
  type with protocol 0 and has ordered ports, 16-octet addresses (mapped ones for
  IPv4) and a start address that does not exceed the end address.\<close>

theorem ParseTS_sound:
  assumes "ParseTS b = Inr ts" "s \<in> set ts"
  shows "SelType s \<in> {TSTypeIPv4AddrRange, TSTypeIPv6AddrRange} \<and> SelProtocolID s = 0
    \<and> StartPort s \<le> EndPort s \<and> length (StartAddr s) = 16 \<and> length (EndAddr s) = 16
    \<and> (SelType s = TSTypeIPv4AddrRange \<longrightarrow>
         take 12 (StartAddr s) = v4InV6Prefix \<and> take 12 (EndAddr s) = v4InV6Prefix)
    \<and> compareIP (StartAddr s) (EndAddr s) \<le> 0"
proof -
  obtain n rest where "parse_count parseTrafficSelector n (drop 4 b) [] = Inr (ts, rest)"
    using assms(1) by (auto simp: ParseTS_def Let_def split: if_splits)
  from parse_count_all [OF this, of "\<lambda>s. SelProtocolID s = 0 \<and> StartPort s \<le> EndPort s
     \<and> length (StartAddr s) = 16 \<and> length (EndAddr s) = 16
     \<and> SelType s \<in> {TSTypeIPv4AddrRange, TSTypeIPv6AddrRange}
     \<and> (SelType s = TSTypeIPv4AddrRange \<longrightarrow> take 12 (StartAddr s) = v4InV6Prefix
          \<and> take 12 (EndAddr s) = v4InV6Prefix)
     \<and> compareIP (StartAddr s) (EndAddr s) \<le> 0"]
  show ?thesis using parseTrafficSelector_sound assms(2) by fastforce
qed

theorem ParseTS_sound_witness:
  "\<exists>b. ParseTS b = Inr sample_TS \<and> (\<exists>s. s \<in> set sample_TS \<and> StartPort s \<le> EndPort s)"
proof -
  have "ParseTS (TS_octets sample_TS) = Inr sample_TS" by (rule ParseTS_octets [OF valid_sample_TS])
  moreover have "hd sample_TS \<in> set sample_TS" by (simp add: sample_TS_def)
  ultimately show ?thesis using ParseTS_sound by blast
qed

text \<open>A configuration payload of any of the four kinds survives encoding and
  decoding, attributes in order, as long as each value fits its 16-bit length.\<close>

theorem ParseConfigPayload_AppendConfigPayload:
  assumes "valid_CP cp"
  shows "bind_res (AppendConfigPayload [] cp) ParseConfigPayload = Inr cp"
  using assms by (rule cp_codec.round_trip)

theorem ParseConfigPayload_AppendConfigPayload_witness:
  "bind_res (AppendConfigPayload [] \<lparr> Kind = ConfigTypeReply, Attributes =
       [\<lparr> AttrType = ConfigAttrInternalIPv4Address, AttrValue = [10, 0, 0, 7] \<rparr>] \<rparr>)
     ParseConfigPayload
   = Inr \<lparr> Kind = ConfigTypeReply, Attributes =
       [\<lparr> AttrType = ConfigAttrInternalIPv4Address, AttrValue = [10, 0, 0, 7] \<rparr>] \<rparr>"
  by (rule ParseConfigPayload_AppendConfigPayload) (simp add: valid_CP_def valid_attribute_def)

text \<open>A DELETE payload for the IKE SA, or for 1 to 65535 ESP SPIs, survives
  encoding and decoding.\<close>

theorem ParseDelete_AppendDelete:
  assumes "valid_Delete d"
  shows "bind_res (AppendDelete [] d) ParseDelete = Inr d"
  using assms by (rule delete_codec.round_trip)

theorem ParseDelete_AppendDelete_witness:
  "bind_res (AppendDelete [] \<lparr> DelProtocolID = DeleteProtocolESP, DelSPIs = [0xdeadbeef, 1] \<rparr>)
     ParseDelete = Inr \<lparr> DelProtocolID = DeleteProtocolESP, DelSPIs = [0xdeadbeef, 1] \<rparr>"
  by (rule ParseDelete_AppendDelete) (simp add: valid_Delete_def)

end
