(* ===== verification/Std_Crypto.thy ===== *)
theory Std_Crypto
  imports Swan_Prelude
begin

text \<open>
  The part of Go's standard library that the client's cryptography calls:
  \<^verbatim>\<open>crypto/aes\<close> (one block, both directions), the modes CBC, CTR and GCM of
  \<^verbatim>\<open>crypto/cipher\<close>, the digests SHA-1, SHA-256, SHA-384 and SHA-512,
  \<^verbatim>\<open>crypto/hmac\<close> and the X25519 function of \<^verbatim>\<open>crypto/ecdh\<close>. They are written out as executable functions on octet
  lists after FIPS 197, SP 800-38A, SP 800-38D, FIPS 180-4, FIPS 198-1 and RFC 7748, so
  that the components above them carry no assumption about cryptography.

  The lemmas give what those components rely on: output lengths, AES
  decryption inverts encryption on 16-octet blocks, CBC decryption inverts CBC
  encryption, a key stream cancels itself, GCM opening inverts sealing. The
  modes are treated through the interface \<open>block_cipher\<close>, which is
  interpreted on AES.
\<close>

section \<open>Octet strings\<close>

definition xor_bytes :: "bytes \<Rightarrow> bytes \<Rightarrow> bytes" where
  "xor_bytes a b = map2 (XOR) a b"

definition be_nat :: "bytes \<Rightarrow> nat" where
  "be_nat b = foldl (\<lambda>a x. a * 256 + unat x) 0 b"

fun nat_be :: "nat \<Rightarrow> nat \<Rightarrow> bytes" where
  "nat_be 0 v = []"
| "nat_be (Suc n) v = nat_be n (v div 256) @ [word_of_nat (v mod 256)]"

section \<open>AES\<close>

definition sbox :: bytes where
  "sbox =
  [0x63, 0x7c, 0x77, 0x7b, 0xf2, 0x6b, 0x6f, 0xc5, 0x30, 0x01, 0x67, 0x2b, 0xfe, 0xd7, 0xab, 0x76,
   0xca, 0x82, 0xc9, 0x7d, 0xfa, 0x59, 0x47, 0xf0, 0xad, 0xd4, 0xa2, 0xaf, 0x9c, 0xa4, 0x72, 0xc0,
   0xb7, 0xfd, 0x93, 0x26, 0x36, 0x3f, 0xf7, 0xcc, 0x34, 0xa5, 0xe5, 0xf1, 0x71, 0xd8, 0x31, 0x15,
   0x04, 0xc7, 0x23, 0xc3, 0x18, 0x96, 0x05, 0x9a, 0x07, 0x12, 0x80, 0xe2, 0xeb, 0x27, 0xb2, 0x75,
   0x09, 0x83, 0x2c, 0x1a, 0x1b, 0x6e, 0x5a, 0xa0, 0x52, 0x3b, 0xd6, 0xb3, 0x29, 0xe3, 0x2f, 0x84,
   0x53, 0xd1, 0x00, 0xed, 0x20, 0xfc, 0xb1, 0x5b, 0x6a, 0xcb, 0xbe, 0x39, 0x4a, 0x4c, 0x58, 0xcf,
   0xd0, 0xef, 0xaa, 0xfb, 0x43, 0x4d, 0x33, 0x85, 0x45, 0xf9, 0x02, 0x7f, 0x50, 0x3c, 0x9f, 0xa8,
   0x51, 0xa3, 0x40, 0x8f, 0x92, 0x9d, 0x38, 0xf5, 0xbc, 0xb6, 0xda, 0x21, 0x10, 0xff, 0xf3, 0xd2,
   0xcd, 0x0c, 0x13, 0xec, 0x5f, 0x97, 0x44, 0x17, 0xc4, 0xa7, 0x7e, 0x3d, 0x64, 0x5d, 0x19, 0x73,
   0x60, 0x81, 0x4f, 0xdc, 0x22, 0x2a, 0x90, 0x88, 0x46, 0xee, 0xb8, 0x14, 0xde, 0x5e, 0x0b, 0xdb,
   0xe0, 0x32, 0x3a, 0x0a, 0x49, 0x06, 0x24, 0x5c, 0xc2, 0xd3, 0xac, 0x62, 0x91, 0x95, 0xe4, 0x79,
   0xe7, 0xc8, 0x37, 0x6d, 0x8d, 0xd5, 0x4e, 0xa9, 0x6c, 0x56, 0xf4, 0xea, 0x65, 0x7a, 0xae, 0x08,
   0xba, 0x78, 0x25, 0x2e, 0x1c, 0xa6, 0xb4, 0xc6, 0xe8, 0xdd, 0x74, 0x1f, 0x4b, 0xbd, 0x8b, 0x8a,
   0x70, 0x3e, 0xb5, 0x66, 0x48, 0x03, 0xf6, 0x0e, 0x61, 0x35, 0x57, 0xb9, 0x86, 0xc1, 0x1d, 0x9e,
   0xe1, 0xf8, 0x98, 0x11, 0x69, 0xd9, 0x8e, 0x94, 0x9b, 0x1e, 0x87, 0xe9, 0xce, 0x55, 0x28, 0xdf,
   0x8c, 0xa1, 0x89, 0x0d, 0xbf, 0xe6, 0x42, 0x68, 0x41, 0x99, 0x2d, 0x0f, 0xb0, 0x54, 0xbb, 0x16]"

definition inv_sbox :: bytes where
  "inv_sbox =
  [0x52, 0x09, 0x6a, 0xd5, 0x30, 0x36, 0xa5, 0x38, 0xbf, 0x40, 0xa3, 0x9e, 0x81, 0xf3, 0xd7, 0xfb,
   0x7c, 0xe3, 0x39, 0x82, 0x9b, 0x2f, 0xff, 0x87, 0x34, 0x8e, 0x43, 0x44, 0xc4, 0xde, 0xe9, 0xcb,
   0x54, 0x7b, 0x94, 0x32, 0xa6, 0xc2, 0x23, 0x3d, 0xee, 0x4c, 0x95, 0x0b, 0x42, 0xfa, 0xc3, 0x4e,
   0x08, 0x2e, 0xa1, 0x66, 0x28, 0xd9, 0x24, 0xb2, 0x76, 0x5b, 0xa2, 0x49, 0x6d, 0x8b, 0xd1, 0x25,
   0x72, 0xf8, 0xf6, 0x64, 0x86, 0x68, 0x98, 0x16, 0xd4, 0xa4, 0x5c, 0xcc, 0x5d, 0x65, 0xb6, 0x92,
   0x6c, 0x70, 0x48, 0x50, 0xfd, 0xed, 0xb9, 0xda, 0x5e, 0x15, 0x46, 0x57, 0xa7, 0x8d, 0x9d, 0x84,
   0x90, 0xd8, 0xab, 0x00, 0x8c, 0xbc, 0xd3, 0x0a, 0xf7, 0xe4, 0x58, 0x05, 0xb8, 0xb3, 0x45, 0x06,
   0xd0, 0x2c, 0x1e, 0x8f, 0xca, 0x3f, 0x0f, 0x02, 0xc1, 0xaf, 0xbd, 0x03, 0x01, 0x13, 0x8a, 0x6b,
   0x3a, 0x91, 0x11, 0x41, 0x4f, 0x67, 0xdc, 0xea, 0x97, 0xf2, 0xcf, 0xce, 0xf0, 0xb4, 0xe6, 0x73,
   0x96, 0xac, 0x74, 0x22, 0xe7, 0xad, 0x35, 0x85, 0xe2, 0xf9, 0x37, 0xe8, 0x1c, 0x75, 0xdf, 0x6e,
   0x47, 0xf1, 0x1a, 0x71, 0x1d, 0x29, 0xc5, 0x89, 0x6f, 0xb7, 0x62, 0x0e, 0xaa, 0x18, 0xbe, 0x1b,
   0xfc, 0x56, 0x3e, 0x4b, 0xc6, 0xd2, 0x79, 0x20, 0x9a, 0xdb, 0xc0, 0xfe, 0x78, 0xcd, 0x5a, 0xf4,
   0x1f, 0xdd, 0xa8, 0x33, 0x88, 0x07, 0xc7, 0x31, 0xb1, 0x12, 0x10, 0x59, 0x27, 0x80, 0xec, 0x5f,
   0x60, 0x51, 0x7f, 0xa9, 0x19, 0xb5, 0x4a, 0x0d, 0x2d, 0xe5, 0x7a, 0x9f, 0x93, 0xc9, 0x9c, 0xef,
   0xa0, 0xe0, 0x3b, 0x4d, 0xae, 0x2a, 0xf5, 0xb0, 0xc8, 0xeb, 0xbb, 0x3c, 0x83, 0x53, 0x99, 0x61,
   0x17, 0x2b, 0x04, 0x7e, 0xba, 0x77, 0xd6, 0x26, 0xe1, 0x69, 0x14, 0x63, 0x55, 0x21, 0x0c, 0x7d]"

definition SubBytes :: "bytes \<Rightarrow> bytes" where
  "SubBytes s = map (\<lambda>x. sbox ! unat x) s"

definition InvSubBytes :: "bytes \<Rightarrow> bytes" where
  "InvSubBytes s = map (\<lambda>x. inv_sbox ! unat x) s"

definition ShiftRows :: "bytes \<Rightarrow> bytes" where
  "ShiftRows s = map (\<lambda>i. s ! i) [0, 5, 10, 15, 4, 9, 14, 3, 8, 13, 2, 7, 12, 1, 6, 11]"

definition InvShiftRows :: "bytes \<Rightarrow> bytes" where
  "InvShiftRows s = map (\<lambda>i. s ! i) [0, 13, 10, 7, 4, 1, 14, 11, 8, 5, 2, 15, 12, 9, 6, 3]"

text \<open>Multiplication by 2 in the field with 256 elements, and the other multipliers.\<close>

definition xtime :: "byte \<Rightarrow> byte" where
  "xtime x = push_bit 1 x XOR (if bit x 7 then 0x1b else 0)"

definition mul9 :: "byte \<Rightarrow> byte" where
  "mul9 x = xtime (xtime (xtime x)) XOR x"

definition mul11 :: "byte \<Rightarrow> byte" where
  "mul11 x = xtime (xtime (xtime x)) XOR xtime x XOR x"

definition mul13 :: "byte \<Rightarrow> byte" where
  "mul13 x = xtime (xtime (xtime x)) XOR xtime (xtime x) XOR x"

definition mul14 :: "byte \<Rightarrow> byte" where
  "mul14 x = xtime (xtime (xtime x)) XOR xtime (xtime x) XOR xtime x"

fun MixColumns :: "bytes \<Rightarrow> bytes" where
  "MixColumns (a # b # c # d # r) =
     (xtime a XOR (xtime b XOR b) XOR c XOR d) # (a XOR xtime b XOR (xtime c XOR c) XOR d)
     # (a XOR b XOR xtime c XOR (xtime d XOR d)) # ((xtime a XOR a) XOR b XOR c XOR xtime d)
     # MixColumns r"
| "MixColumns r = r"

fun InvMixColumns :: "bytes \<Rightarrow> bytes" where
  "InvMixColumns (a # b # c # d # r) =
     (mul14 a XOR mul11 b XOR mul13 c XOR mul9 d) # (mul9 a XOR mul14 b XOR mul11 c XOR mul13 d)
     # (mul13 a XOR mul9 b XOR mul14 c XOR mul11 d) # (mul11 a XOR mul13 b XOR mul9 c XOR mul14 d)
     # InvMixColumns r"
| "InvMixColumns r = r"

text \<open>Key expansion: a list of 4-octet words, \<open>n\<close> of them still to append.\<close>

definition rcon :: bytes where
  "rcon = [0x01, 0x02, 0x04, 0x08, 0x10, 0x20, 0x40, 0x80, 0x1b, 0x36]"

definition next_word :: "nat \<Rightarrow> bytes list \<Rightarrow> bytes" where
  "next_word nk ws =
    (let i = length ws; t = ws ! (i - 1);
         t' = (if i mod nk = 0
               then xor_bytes (SubBytes (rotate1 t)) [rcon ! (i div nk - 1), 0, 0, 0]
               else if nk > 6 \<and> i mod nk = 4 then SubBytes t else t)
     in xor_bytes (ws ! (i - nk)) t')"

fun expand :: "nat \<Rightarrow> nat \<Rightarrow> bytes list \<Rightarrow> bytes list" where
  "expand 0 nk ws = ws"
| "expand (Suc n) nk ws = expand n nk (ws @ [next_word nk ws])"

definition round_keys :: "bytes \<Rightarrow> bytes list" where
  "round_keys key =
    (let nk = length key div 4; nr = nk + 6;
         ws = expand (4 * (nr + 1) - nk) nk (map (\<lambda>i. take 4 (drop (4 * i) key)) [0..<nk])
     in map (\<lambda>i. take 16 (concat (take 4 (drop (4 * i) ws)))) [0..<nr + 1])"

text \<open>\<open>aes_rounds ks s\<close>: the middle rounds with the keys \<open>ks\<close>; the last key ends the block.\<close>

fun aes_rounds :: "bytes list \<Rightarrow> bytes \<Rightarrow> bytes" where
  "aes_rounds [] s = s"
| "aes_rounds [k] s = xor_bytes (ShiftRows (SubBytes s)) k"
| "aes_rounds (k # ks) s = aes_rounds ks (xor_bytes (MixColumns (ShiftRows (SubBytes s))) k)"

fun aes_inv_rounds :: "bytes list \<Rightarrow> bytes \<Rightarrow> bytes" where
  "aes_inv_rounds [] s = s"
| "aes_inv_rounds [k] s = InvSubBytes (InvShiftRows (xor_bytes s k))"
| "aes_inv_rounds (k # ks) s =
     InvSubBytes (InvShiftRows (InvMixColumns (xor_bytes (aes_inv_rounds ks s) k)))"

definition aes_encrypt :: "bytes \<Rightarrow> bytes \<Rightarrow> bytes" where
  "aes_encrypt key b =
    (let ks = round_keys key in aes_rounds (tl ks) (xor_bytes b (hd ks)))"

definition aes_decrypt :: "bytes \<Rightarrow> bytes \<Rightarrow> bytes" where
  "aes_decrypt key b =
    (let ks = round_keys key in xor_bytes (aes_inv_rounds (tl ks) b) (hd ks))"

text \<open>\<^verbatim>\<open>aes.NewCipher\<close> rejects other key lengths.\<close>

definition aes_key_ok :: "bytes \<Rightarrow> bool" where
  "aes_key_ok key \<longleftrightarrow> length key = 16 \<or> length key = 24 \<or> length key = 32"

section \<open>Modes of operation\<close>

text \<open>\<^verbatim>\<open>CryptBlocks\<close> of the CBC encrypter and decrypter.\<close>

function cbc_encrypt :: "(bytes \<Rightarrow> bytes) \<Rightarrow> bytes \<Rightarrow> bytes \<Rightarrow> bytes" where
  "cbc_encrypt E iv xs =
    (if xs = [] then []
     else let c = E (xor_bytes (take 16 xs) iv) in c @ cbc_encrypt E c (drop 16 xs))"
  by pat_completeness auto
termination
  by (relation "measure (\<lambda>(_, _, xs). length xs)") auto

function cbc_decrypt :: "(bytes \<Rightarrow> bytes) \<Rightarrow> bytes \<Rightarrow> bytes \<Rightarrow> bytes" where
  "cbc_decrypt D iv xs =
    (if xs = [] then []
     else xor_bytes (D (take 16 xs)) iv @ cbc_decrypt D (take 16 xs) (drop 16 xs))"
  by pat_completeness auto
termination
  by (relation "measure (\<lambda>(_, _, xs). length xs)") auto

declare cbc_encrypt.simps [simp del] cbc_decrypt.simps [simp del]

text \<open>The key stream of \<^verbatim>\<open>cipher.NewCTR\<close>: the counter is the whole block, big endian.\<close>

definition ctr_stream :: "(bytes \<Rightarrow> bytes) \<Rightarrow> bytes \<Rightarrow> nat \<Rightarrow> bytes" where
  "ctr_stream E iv n =
    take n (concat (map (\<lambda>i. E (nat_be 16 (be_nat iv + i))) [0..<(n + 15) div 16]))"

text \<open>GCM with a 12-octet nonce: only the last four octets of the counter block count.\<close>

definition gcm_stream :: "(bytes \<Rightarrow> bytes) \<Rightarrow> bytes \<Rightarrow> nat \<Rightarrow> bytes" where
  "gcm_stream E nonce n =
    take n (concat (map (\<lambda>i. E (nonce @ nat_be 4 (2 + i))) [0..<(n + 15) div 16]))"

definition block_word :: "bytes \<Rightarrow> 128 word" where
  "block_word b = word_of_nat (be_nat b)"

fun gf_mul_loop :: "nat \<Rightarrow> 128 word \<Rightarrow> 128 word \<Rightarrow> 128 word \<Rightarrow> 128 word" where
  "gf_mul_loop 0 x v z = z"
| "gf_mul_loop (Suc n) x v z =
     gf_mul_loop n x (if bit v 0 then drop_bit 1 v XOR push_bit 120 0xe1 else drop_bit 1 v)
       (if bit x n then z XOR v else z)"

definition gf_mul :: "128 word \<Rightarrow> 128 word \<Rightarrow> 128 word" where
  "gf_mul x y = gf_mul_loop 128 x y 0"

definition pad16 :: "bytes \<Rightarrow> bytes" where
  "pad16 b = b @ replicate ((16 - length b mod 16) mod 16) 0"

definition ghash :: "128 word \<Rightarrow> bytes \<Rightarrow> 128 word" where
  "ghash h b = fold (\<lambda>i y. gf_mul (y XOR block_word (take 16 (drop (16 * i) b))) h)
     [0..<length b div 16] 0"

definition gcm_tag :: "(bytes \<Rightarrow> bytes) \<Rightarrow> nat \<Rightarrow> bytes \<Rightarrow> bytes \<Rightarrow> bytes \<Rightarrow> bytes" where
  "gcm_tag E tagSize nonce aad c =
    (let h = block_word (E (replicate 16 0));
         s = ghash h (pad16 aad @ pad16 c @ nat_be 8 (8 * length aad) @ nat_be 8 (8 * length c))
     in take tagSize (xor_bytes (nat_be 16 (unat s)) (E (nonce @ [0, 0, 0, 1]))))"

definition gcm_seal :: "(bytes \<Rightarrow> bytes) \<Rightarrow> nat \<Rightarrow> bytes \<Rightarrow> bytes \<Rightarrow> bytes \<Rightarrow> bytes" where
  "gcm_seal E tagSize nonce plain aad =
    (let c = xor_bytes plain (gcm_stream E nonce (length plain))
     in c @ gcm_tag E tagSize nonce aad c)"

definition gcm_open :: "(bytes \<Rightarrow> bytes) \<Rightarrow> nat \<Rightarrow> bytes \<Rightarrow> bytes \<Rightarrow> bytes \<Rightarrow> bytes option" where
  "gcm_open E tagSize nonce ct aad =
    (if length ct < tagSize then None
     else let c = take (length ct - tagSize) ct; tag = drop (length ct - tagSize) ct in
       if gcm_tag E tagSize nonce aad c \<noteq> tag then None
       else Some (xor_bytes c (gcm_stream E nonce (length c))))"

section \<open>Digests\<close>

definition sha_pad :: "nat \<Rightarrow> nat \<Rightarrow> bytes \<Rightarrow> bytes" where
  "sha_pad blk lenOctets msg =
    (let z = (blk - (length msg + 1 + lenOctets) mod blk) mod blk
     in msg @ [0x80] @ replicate z 0 @ nat_be lenOctets (8 * length msg))"

definition octets_blocks :: "nat \<Rightarrow> bytes \<Rightarrow> bytes list" where
  "octets_blocks n b = map (\<lambda>i. take n (drop (n * i) b)) [0..<length b div n]"

definition word32_be :: "bytes \<Rightarrow> 32 word" where
  "word32_be b = word_of_nat (be_nat b)"

definition word64_be :: "bytes \<Rightarrow> 64 word" where
  "word64_be b = word_of_nat (be_nat b)"

subsection \<open>SHA-1\<close>

fun sha1_schedule :: "nat \<Rightarrow> 32 word list \<Rightarrow> 32 word list" where
  "sha1_schedule 0 w = w"
| "sha1_schedule (Suc n) w =
    (let i = length w in
     sha1_schedule n (w @ [word_rotl 1 (w ! (i - 3) XOR w ! (i - 8) XOR w ! (i - 14) XOR w ! (i - 16))]))"

definition sha1_round ::
  "nat \<times> 32 word \<Rightarrow> 32 word \<times> 32 word \<times> 32 word \<times> 32 word \<times> 32 word
     \<Rightarrow> 32 word \<times> 32 word \<times> 32 word \<times> 32 word \<times> 32 word" where
  "sha1_round iw s =
    (case iw of (i, w) \<Rightarrow> case s of (a, b, c, d, e) \<Rightarrow>
      let fk = (if i < 20 then ((b AND c) OR (NOT b AND d), 0x5a827999)
                else if i < 40 then (b XOR c XOR d, 0x6ed9eba1)
                else if i < 60 then ((b AND c) OR (b AND d) OR (c AND d), 0x8f1bbcdc)
                else (b XOR c XOR d, 0xca62c1d6))
      in (word_rotl 5 a + fst fk + e + w + snd fk, a, word_rotl 30 b, c, d))"

definition sha1_block ::
  "bytes \<Rightarrow> 32 word \<times> 32 word \<times> 32 word \<times> 32 word \<times> 32 word
     \<Rightarrow> 32 word \<times> 32 word \<times> 32 word \<times> 32 word \<times> 32 word" where
  "sha1_block blk h =
    (let w = sha1_schedule 64 (map word32_be (octets_blocks 4 blk));
         (a, b, c, d, e) = fold sha1_round (zip [0..<80] w) h
     in case h of (h0, h1, h2, h3, h4) \<Rightarrow> (h0 + a, h1 + b, h2 + c, h3 + d, h4 + e))"

definition sha1 :: "bytes \<Rightarrow> bytes" where
  "sha1 msg =
    (case fold sha1_block (octets_blocks 64 (sha_pad 64 8 msg))
            (0x67452301, 0xefcdab89, 0x98badcfe, 0x10325476, 0xc3d2e1f0) of
       (a, b, c, d, e) \<Rightarrow> be32 a @ be32 b @ be32 c @ be32 d @ be32 e)"

subsection \<open>SHA-2\<close>

text \<open>The constants of SHA-2 are the first 64 bits of the fractional parts of cube and
  square roots of the first primes (FIPS 180-4, sections 4.2 and 5.3); the integer
  root is computed bit by bit.\<close>

definition sha_primes :: "nat list" where
  "sha_primes =
  [2, 3, 5, 7, 11, 13, 17, 19, 23, 29, 31, 37, 41, 43, 47, 53, 59, 61, 67, 71, 73, 79, 83,
   89, 97, 101, 103, 107, 109, 113, 127, 131, 137, 139, 149, 151, 157, 163, 167, 173, 179,
   181, 191, 193, 197, 199, 211, 223, 227, 229, 233, 239, 241, 251, 257, 263, 269, 271, 277,
   281, 283, 293, 307, 311, 313, 317, 331, 337, 347, 349, 353, 359, 367, 373, 379, 383, 389,
   397, 401, 409]"

primrec root_bits :: "nat \<Rightarrow> nat \<Rightarrow> nat \<Rightarrow> nat \<Rightarrow> nat" where
  "root_bits k n 0 r = r"
| "root_bits k n (Suc b) r = root_bits k n b (if (r + 2 ^ b) ^ k \<le> n then r + 2 ^ b else r)"

definition root_frac :: "nat \<Rightarrow> nat \<Rightarrow> 64 word" where
  "root_frac k p = word_of_nat (root_bits k (p * 2 ^ (64 * k)) 68 0)"

definition K512 :: "64 word list" where
  "K512 = map (root_frac 3) sha_primes"

definition K256 :: "32 word list" where
  "K256 = map (\<lambda>k. ucast (drop_bit 32 k)) (take 64 K512)"

definition H512 :: "64 word list" where
  "H512 = map (root_frac 2) (take 8 sha_primes)"

definition H384 :: "64 word list" where
  "H384 = map (root_frac 2) (take 8 (drop 8 sha_primes))"

fun sha256_schedule :: "nat \<Rightarrow> 32 word list \<Rightarrow> 32 word list" where
  "sha256_schedule 0 w = w"
| "sha256_schedule (Suc n) w =
    (let i = length w; a = w ! (i - 15); b = w ! (i - 2);
         s0 = word_rotr 7 a XOR word_rotr 18 a XOR drop_bit 3 a;
         s1 = word_rotr 17 b XOR word_rotr 19 b XOR drop_bit 10 b
     in sha256_schedule n (w @ [s1 + w ! (i - 7) + s0 + w ! (i - 16)]))"

fun sha512_schedule :: "nat \<Rightarrow> 64 word list \<Rightarrow> 64 word list" where
  "sha512_schedule 0 w = w"
| "sha512_schedule (Suc n) w =
    (let i = length w; a = w ! (i - 15); b = w ! (i - 2);
         s0 = word_rotr 1 a XOR word_rotr 8 a XOR drop_bit 7 a;
         s1 = word_rotr 19 b XOR word_rotr 61 b XOR drop_bit 6 b
     in sha512_schedule n (w @ [s1 + w ! (i - 7) + s0 + w ! (i - 16)]))"

definition sha256_round :: "32 word \<times> 32 word \<Rightarrow> 32 word list \<Rightarrow> 32 word list" where
  "sha256_round kw s =
    (let a = s ! 0; b = s ! 1; c = s ! 2; d = s ! 3; e = s ! 4; f = s ! 5; g = s ! 6; h = s ! 7;
         t1 = h + (word_rotr 6 e XOR word_rotr 11 e XOR word_rotr 25 e)
                + ((e AND f) XOR (NOT e AND g)) + fst kw + snd kw;
         t2 = (word_rotr 2 a XOR word_rotr 13 a XOR word_rotr 22 a)
                + ((a AND b) XOR (a AND c) XOR (b AND c))
     in [t1 + t2, a, b, c, d + t1, e, f, g])"

definition sha512_round :: "64 word \<times> 64 word \<Rightarrow> 64 word list \<Rightarrow> 64 word list" where
  "sha512_round kw s =
    (let a = s ! 0; b = s ! 1; c = s ! 2; d = s ! 3; e = s ! 4; f = s ! 5; g = s ! 6; h = s ! 7;
         t1 = h + (word_rotr 14 e XOR word_rotr 18 e XOR word_rotr 41 e)
                + ((e AND f) XOR (NOT e AND g)) + fst kw + snd kw;
         t2 = (word_rotr 28 a XOR word_rotr 34 a XOR word_rotr 39 a)
                + ((a AND b) XOR (a AND c) XOR (b AND c))
     in [t1 + t2, a, b, c, d + t1, e, f, g])"

definition sha256_block :: "bytes \<Rightarrow> 32 word list \<Rightarrow> 32 word list" where
  "sha256_block blk h =
     map2 (+) h (fold sha256_round
       (zip K256 (sha256_schedule 48 (map word32_be (octets_blocks 4 blk)))) h)"

definition sha512_block :: "bytes \<Rightarrow> 64 word list \<Rightarrow> 64 word list" where
  "sha512_block blk h =
     map2 (+) h (fold sha512_round
       (zip K512 (sha512_schedule 64 (map word64_be (octets_blocks 8 blk)))) h)"

definition sha256 :: "bytes \<Rightarrow> bytes" where
  "sha256 msg =
     concat (map be32 (fold sha256_block (octets_blocks 64 (sha_pad 64 8 msg))
       (map (\<lambda>h. ucast (drop_bit 32 h)) H512)))"

definition sha512_digest :: "64 word list \<Rightarrow> bytes \<Rightarrow> bytes" where
  "sha512_digest iv msg =
     concat (map be64 (fold sha512_block (octets_blocks 128 (sha_pad 128 16 msg)) iv))"

definition sha512 :: "bytes \<Rightarrow> bytes" where
  "sha512 msg = sha512_digest H512 msg"

definition sha384 :: "bytes \<Rightarrow> bytes" where
  "sha384 msg = take 48 (sha512_digest H384 msg)"

subsection \<open>HMAC\<close>

definition hmac_with :: "(bytes \<Rightarrow> bytes) \<Rightarrow> nat \<Rightarrow> bytes \<Rightarrow> bytes \<Rightarrow> bytes" where
  "hmac_with H blk key msg =
    (let k = (if length key > blk then H key else key);
         k = k @ replicate (blk - length k) 0
     in H (map (\<lambda>x. x XOR 0x5c) k @ H (map (\<lambda>x. x XOR 0x36) k @ msg)))"

section \<open>X25519\<close>

text \<open>The Montgomery ladder of RFC 7748, as \<^verbatim>\<open>crypto/ecdh\<close> computes it.\<close>

definition p25519 :: int where
  "p25519 = 2 ^ 255 - 19"

primrec pow_mod :: "nat \<Rightarrow> int \<Rightarrow> nat \<Rightarrow> int" where
  "pow_mod 0 b e = 1"
| "pow_mod (Suc n) b e =
    (if e = 0 then 1
     else let h = pow_mod n (b * b mod p25519) (e div 2) in if odd e then b * h mod p25519 else h)"

definition ladder_step :: "int \<Rightarrow> int \<times> int \<Rightarrow> int \<times> int \<Rightarrow> (int \<times> int) \<times> int \<times> int" where
  "ladder_step x1 r2 r3 =
    (let a = fst r2 + snd r2; aa = a * a mod p25519;
         b = fst r2 - snd r2; bb = b * b mod p25519; e = aa - bb;
         c = fst r3 + snd r3; d = fst r3 - snd r3;
         da = d * a mod p25519; cb = c * b mod p25519
     in ((aa * bb mod p25519, e * (aa + 121665 * e) mod p25519),
         ((da + cb) * (da + cb) mod p25519, x1 * ((da - cb) * (da - cb) mod p25519) mod p25519)))"

primrec ladder :: "nat \<Rightarrow> nat \<Rightarrow> int \<Rightarrow> int \<times> int \<Rightarrow> int \<times> int \<Rightarrow> int \<times> int" where
  "ladder 0 k x1 r2 r3 = r2"
| "ladder (Suc t) k x1 r2 r3 =
    (if bit k t
     then let n = ladder_step x1 r3 r2 in ladder t k x1 (snd n) (fst n)
     else let n = ladder_step x1 r2 r3 in ladder t k x1 (fst n) (snd n))"

definition x25519 :: "bytes \<Rightarrow> bytes \<Rightarrow> bytes" where
  "x25519 scalar point =
    (let k0 = be_nat (rev scalar);
         k = take_bit 254 (k0 - k0 mod 8) + 2 ^ 254;
         u = int (take_bit 255 (be_nat (rev point)));
         (x, z) = ladder 255 k u (1, 0) (u, 1)
     in rev (nat_be 32 (nat (x * pow_mod 255 (z mod p25519) (nat (p25519 - 2)) mod p25519))))"

definition x25519_base :: "bytes \<Rightarrow> bytes" where
  "x25519_base scalar = x25519 scalar (9 # replicate 31 0)"

section \<open>Lemmas: octet strings\<close>

lemma length_xor_bytes [simp]: "length (xor_bytes a b) = min (length a) (length b)"
  by (simp add: xor_bytes_def)

lemma xor_bytes_cancel [simp]:
  "length a \<le> length k \<Longrightarrow> xor_bytes (xor_bytes a k) k = a"
  by (auto simp: xor_bytes_def xor.assoc intro!: nth_equalityI)

lemma length_nat_be [simp]: "length (nat_be n v) = n"
  by (induction n arbitrary: v) auto

lemma xor_left_cancel [simp]: "(a :: 'a::len word) XOR (a XOR b) = b"
  by (simp flip: xor.assoc)

section \<open>Lemmas: AES\<close>

lemma inv_sbox_sbox: "map (\<lambda>x. inv_sbox ! unat x) sbox = map word_of_nat [0..<256]"
  by code_simp

lemma length_sbox [simp]: "length sbox = 256" "length inv_sbox = 256"
  by (simp_all add: sbox_def inv_sbox_def)

lemma InvSubBytes_SubBytes [simp]: "InvSubBytes (SubBytes s) = s"
proof -
  have "inv_sbox ! unat (sbox ! unat x) = x" for x :: byte
  proof -
    have x: "unat x < 256" using unsigned_less [of x] by simp
    have "map (\<lambda>x. inv_sbox ! unat x) sbox ! unat x = map word_of_nat [0..<256] ! unat x"
      by (simp only: inv_sbox_sbox)
    then show ?thesis using x by simp
  qed
  then show ?thesis by (simp add: InvSubBytes_def SubBytes_def o_def)
qed

lemma length_16_conv:
  "length b = 16 \<longleftrightarrow> (\<exists>a0 a1 a2 a3 a4 a5 a6 a7 a8 a9 a10 a11 a12 a13 a14 a15.
     b = [a0, a1, a2, a3, a4, a5, a6, a7, a8, a9, a10, a11, a12, a13, a14, a15])"
  by (auto simp: eval_nat_numeral length_Suc_conv)

lemma InvShiftRows_ShiftRows: "length s = 16 \<Longrightarrow> InvShiftRows (ShiftRows s) = s"
  by (auto simp: length_16_conv InvShiftRows_def ShiftRows_def)

lemma xtime_xor [simp]: "xtime (x XOR y) = xtime x XOR xtime y"
  by (simp add: xtime_def push_bit_xor bit_xor_iff ac_simps)

lemma InvMixColumns_MixColumns: "InvMixColumns (MixColumns s) = s"
  by (induction s rule: MixColumns.induct)
     (simp_all add: mul9_def mul11_def mul13_def mul14_def ac_simps)

lemma length_round_parts [simp]:
  "length (SubBytes s) = length s" "length (InvSubBytes s) = length s"
  "length (ShiftRows s) = 16" "length (InvShiftRows s) = 16"
  by (simp_all add: SubBytes_def InvSubBytes_def ShiftRows_def InvShiftRows_def)

lemma length_MixColumns [simp]: "length (MixColumns s) = length s"
  by (induction s rule: MixColumns.induct) simp_all

lemma aes_inv_rounds_aes_rounds:
  "ks \<noteq> [] \<Longrightarrow> \<forall>k \<in> set ks. length k = 16 \<Longrightarrow> length s = 16 \<Longrightarrow>
     aes_inv_rounds ks (aes_rounds ks s) = s"
  by (induction ks s rule: aes_rounds.induct)
     (simp_all add: InvShiftRows_ShiftRows InvMixColumns_MixColumns)

lemma length_aes_rounds:
  "\<forall>k \<in> set ks. length k = 16 \<Longrightarrow> length s = 16 \<Longrightarrow> length (aes_rounds ks s) = 16"
  by (induction ks s rule: aes_rounds.induct) simp_all

lemma next_word_length:
  "0 < nk \<Longrightarrow> nk \<le> length ws \<Longrightarrow> \<forall>w \<in> set ws. length w = 4 \<Longrightarrow> length (next_word nk ws) = 4"
  by (simp add: next_word_def Let_def)

lemma expand_words:
  "0 < nk \<Longrightarrow> nk \<le> length ws \<Longrightarrow> \<forall>w \<in> set ws. length w = 4 \<Longrightarrow>
     length (expand n nk ws) = n + length ws \<and> (\<forall>w \<in> set (expand n nk ws). length w = 4)"
  by (induction n nk ws rule: expand.induct) (auto simp: next_word_length)

lemma length_concat_const:
  "\<forall>w \<in> set ws. length w = n \<Longrightarrow> length (concat ws) = n * length ws"
  by (induction ws) auto

lemma length_round_key:
  assumes "\<forall>w \<in> set ws. length w = 4" "4 * i + 4 \<le> length ws"
  shows "length (concat (take 4 (drop (4 * i) ws))) = 16"
  using length_concat_const [of "take 4 (drop (4 * i) ws)" 4] assms
  by (auto dest: in_set_takeD in_set_dropD)

lemma round_keys_shape:
  assumes "aes_key_ok key"
  shows "\<forall>k \<in> set (round_keys key). length k = 16" "2 \<le> length (round_keys key)"
proof -
  define nk where "nk = length key div 4"
  define w0 where "w0 = map (\<lambda>i. take 4 (drop (4 * i) key)) [0..<nk]"
  define ws where "ws = expand (4 * (nk + 6 + 1) - nk) nk w0"
  have nk: "length key = 4 * nk" "0 < nk"
    using assms by (auto simp: aes_key_ok_def nk_def)
  have w0: "\<forall>w \<in> set w0. length w = 4" "length w0 = nk"
    using nk by (auto simp: w0_def)
  have ws: "length ws = 4 * (nk + 6 + 1)" "\<forall>w \<in> set ws. length w = 4"
    using expand_words [OF nk(2) _ w0(1), of "4 * (nk + 6 + 1) - nk"] w0(2)
    by (auto simp: ws_def)
  have rk: "round_keys key
      = map (\<lambda>i. take 16 (concat (take 4 (drop (4 * i) ws)))) [0..<nk + 6 + 1]"
    by (simp only: round_keys_def Let_def ws_def w0_def nk_def)
  show "\<forall>k \<in> set (round_keys key). length k = 16"
    unfolding rk using length_round_key [OF ws(2)] ws(1) by auto
  show "2 \<le> length (round_keys key)" by (simp add: rk)
qed

lemma length_aes_encrypt:
  assumes "aes_key_ok key" "length b = 16"
  shows "length (aes_encrypt key b) = 16"
proof -
  obtain k ks where "round_keys key = k # ks"
    using round_keys_shape(2) [OF assms(1)] by (cases "round_keys key") auto
  then show ?thesis
    using round_keys_shape(1) [OF assms(1)] assms(2)
    by (auto simp: aes_encrypt_def intro!: length_aes_rounds)
qed

lemma aes_decrypt_aes_encrypt:
  assumes "aes_key_ok key" "length b = 16"
  shows "aes_decrypt key (aes_encrypt key b) = b"
proof -
  obtain k k' ks where "round_keys key = k # k' # ks"
    using round_keys_shape(2) [OF assms(1)]
    by (metis One_nat_def Suc_1 Suc_le_length_iff)
  then show ?thesis
    using round_keys_shape(1) [OF assms(1)] assms(2)
    by (simp add: aes_decrypt_def aes_encrypt_def aes_inv_rounds_aes_rounds)
qed

section \<open>The block cipher interface\<close>

locale block_cipher =
  fixes E :: "bytes \<Rightarrow> bytes \<Rightarrow> bytes" and D :: "bytes \<Rightarrow> bytes \<Rightarrow> bytes"
    and key_ok :: "bytes \<Rightarrow> bool"
  assumes length_E: "key_ok k \<Longrightarrow> length b = 16 \<Longrightarrow> length (E k b) = 16"
    and D_E: "key_ok k \<Longrightarrow> length b = 16 \<Longrightarrow> D k (E k b) = b"
begin

lemma cbc_step:
  assumes "key_ok k" "length iv = 16" "length xs mod 16 = 0" "xs \<noteq> []"
  shows "16 \<le> length xs" "length (drop 16 xs) mod 16 = 0"
    "length (E k (xor_bytes (take 16 xs) iv)) = 16"
    "cbc_encrypt (E k) iv xs = E k (xor_bytes (take 16 xs) iv)
       @ cbc_encrypt (E k) (E k (xor_bytes (take 16 xs) iv)) (drop 16 xs)"
proof -
  show l: "16 \<le> length xs" using assms(3,4) by (cases "length xs < 16") auto
  show "length (drop 16 xs) mod 16 = 0" using assms(3) l by (simp add: le_mod_geq)
  show "length (E k (xor_bytes (take 16 xs) iv)) = 16" using assms l by (intro length_E) auto
  show "cbc_encrypt (E k) iv xs = E k (xor_bytes (take 16 xs) iv)
       @ cbc_encrypt (E k) (E k (xor_bytes (take 16 xs) iv)) (drop 16 xs)"
    using assms(4) by (subst cbc_encrypt.simps) (simp add: Let_def)
qed

lemma length_cbc_encrypt:
  "key_ok k \<Longrightarrow> length iv = 16 \<Longrightarrow> length xs mod 16 = 0 \<Longrightarrow>
     length (cbc_encrypt (E k) iv xs) = length xs"
proof (induction xs arbitrary: iv rule: length_induct)
  case (1 xs)
  show ?case
  proof (cases "xs = []")
    case False
    note step = cbc_step [OF 1(2-4) False]
    then have "length (cbc_encrypt (E k) (E k (xor_bytes (take 16 xs) iv)) (drop 16 xs))
        = length (drop 16 xs)"
      using 1(1,2) by simp
    then show ?thesis using step by simp
  qed (simp add: cbc_encrypt.simps)
qed

lemma cbc_decrypt_encrypt:
  "key_ok k \<Longrightarrow> length iv = 16 \<Longrightarrow> length xs mod 16 = 0 \<Longrightarrow>
     cbc_decrypt (D k) iv (cbc_encrypt (E k) iv xs) = xs"
proof (induction xs arbitrary: iv rule: length_induct)
  case (1 xs)
  show ?case
  proof (cases "xs = []")
    case False
    note step = cbc_step [OF 1(2-4) False]
    let ?c = "E k (xor_bytes (take 16 xs) iv)"
    have "D k ?c = xor_bytes (take 16 xs) iv" using 1(2,3) step(1) by (intro D_E) auto
    moreover have "cbc_decrypt (D k) ?c (cbc_encrypt (E k) ?c (drop 16 xs)) = drop 16 xs"
      using 1(1,2) step by simp
    moreover have "?c \<noteq> []" using step(3) by auto
    ultimately show ?thesis
      using step 1(3) by (subst cbc_decrypt.simps) simp
  qed (simp add: cbc_encrypt.simps cbc_decrypt.simps)
qed

lemma length_stream_blocks:
  assumes "key_ok k" "\<And>i. length (f i) = 16"
  shows "length (take n (concat (map (\<lambda>i. E k (f i)) [0..<(n + 15) div 16]))) = n"
proof -
  have "length (concat (map (\<lambda>i. E k (f i)) [0..<(n + 15) div 16])) = 16 * ((n + 15) div 16)"
    using length_concat_const [of "map (\<lambda>i. E k (f i)) [0..<(n + 15) div 16]" 16] length_E assms
    by simp
  then show ?thesis by simp
qed

lemma length_ctr_stream: "key_ok k \<Longrightarrow> length (ctr_stream (E k) iv n) = n"
  unfolding ctr_stream_def by (rule length_stream_blocks) simp_all

lemma length_gcm_stream: "key_ok k \<Longrightarrow> length nonce = 12 \<Longrightarrow> length (gcm_stream (E k) nonce n) = n"
  unfolding gcm_stream_def by (rule length_stream_blocks) simp_all

lemma length_gcm_tag:
  "key_ok k \<Longrightarrow> length nonce = 12 \<Longrightarrow> tagSize \<le> 16 \<Longrightarrow>
     length (gcm_tag (E k) tagSize nonce aad c) = tagSize"
  using length_E [of k "nonce @ [0, 0, 0, 1]"] by (simp add: gcm_tag_def Let_def)

lemma length_gcm_seal:
  "key_ok k \<Longrightarrow> length nonce = 12 \<Longrightarrow> tagSize \<le> 16 \<Longrightarrow>
     length (gcm_seal (E k) tagSize nonce plain aad) = length plain + tagSize"
  by (simp add: gcm_seal_def Let_def length_gcm_tag length_gcm_stream)

lemma gcm_open_seal:
  "key_ok k \<Longrightarrow> length nonce = 12 \<Longrightarrow> tagSize \<le> 16 \<Longrightarrow>
     gcm_open (E k) tagSize nonce (gcm_seal (E k) tagSize nonce plain aad) aad = Some plain"
  by (simp add: gcm_open_def gcm_seal_def Let_def length_gcm_tag length_gcm_stream)

end

interpretation aes: block_cipher aes_encrypt aes_decrypt aes_key_ok
  by unfold_locales (simp_all add: length_aes_encrypt aes_decrypt_aes_encrypt)

section \<open>Lemmas: digests\<close>

lemma length_x25519 [simp]: "length (x25519 k u) = 32" "length (x25519_base k) = 32"
  by (simp_all add: x25519_def x25519_base_def Let_def split: prod.split)

lemma length_fold_const:
  "(\<And>x s. length s = n \<Longrightarrow> length (f x s) = n) \<Longrightarrow> length s = n \<Longrightarrow> length (fold f xs s) = n"
  by (induction xs arbitrary: s) auto

lemma length_sha1 [simp]: "length (sha1 msg) = 20"
  by (simp add: sha1_def split: prod.split)

lemma length_sha256_block: "length h = 8 \<Longrightarrow> length (sha256_block b h) = 8"
  unfolding sha256_block_def by (simp add: length_fold_const sha256_round_def Let_def)

lemma length_sha512_block: "length h = 8 \<Longrightarrow> length (sha512_block b h) = 8"
  unfolding sha512_block_def by (simp add: length_fold_const sha512_round_def Let_def)

lemma length_sha256 [simp]: "length (sha256 msg) = 32"
proof -
  have "length (fold sha256_block (octets_blocks 64 (sha_pad 64 8 msg))
      (map (\<lambda>h. ucast (drop_bit 32 h)) H512)) = 8"
    by (rule length_fold_const) (simp_all add: length_sha256_block H512_def sha_primes_def)
  then show ?thesis
    unfolding sha256_def by (subst length_concat_const [where n = 4]) auto
qed

lemma length_sha512_digest: "length iv = 8 \<Longrightarrow> length (sha512_digest iv msg) = 64"
proof -
  assume "length iv = 8"
  then have "length (fold sha512_block (octets_blocks 128 (sha_pad 128 16 msg)) iv) = 8"
    by (intro length_fold_const) (simp_all add: length_sha512_block)
  then show ?thesis
    unfolding sha512_digest_def by (subst length_concat_const [where n = 8]) auto
qed

lemma length_sha512 [simp]: "length (sha512 msg) = 64" "length (sha384 msg) = 48"
  by (simp_all add: sha512_def sha384_def length_sha512_digest H512_def H384_def sha_primes_def)

lemma length_hmac_with: "(\<And>m. length (H m) = n) \<Longrightarrow> length (hmac_with H blk key msg) = n"
  by (simp add: hmac_with_def Let_def)

end
