(* ===== verification/Xcrypto_Cipher.thy ===== *)
theory Xcrypto_Cipher
  imports Std_Crypto Wire
begin

text \<open>
  The symmetric algorithms of \<^verbatim>\<open>src/xcrypto\<close>: digests (\<^verbatim>\<open>hash.go\<close>), encryption
  variants with AES-CBC, AES-CCM and AES-GCM (\<^verbatim>\<open>cipher.go\<close>), the same with the
  key fixed in advance (\<^verbatim>\<open>prepared.go\<close>), and the integrity transforms
  (\<^verbatim>\<open>hmac.go\<close>, \<^verbatim>\<open>prepared_hmac.go\<close>). A \<^verbatim>\<open>cipher.Block\<close> or \<^verbatim>\<open>cipher.AEAD\<close> state is
  represented by the AES key it was built from; a nil constructor of a hash is
  \<open>None\<close>.

  The lemmas show that opening inverts sealing for every registered variant,
  the length of the sealed text, that the prepared form computes the same as
  the direct one, and that an ICV verifies exactly when it is the signed one.
\<close>

section \<open>Digests\<close>

datatype HashKind = HashSHA1 | HashSHA256 | HashSHA384 | HashSHA512

fun hash_sum :: "HashKind \<Rightarrow> bytes \<Rightarrow> bytes" where
  "hash_sum HashSHA1 = sha1"
| "hash_sum HashSHA256 = sha256"
| "hash_sum HashSHA384 = sha384"
| "hash_sum HashSHA512 = sha512"

fun hash_block :: "HashKind \<Rightarrow> nat" where
  "hash_block HashSHA1 = 64"
| "hash_block HashSHA256 = 64"
| "hash_block HashSHA384 = 128"
| "hash_block HashSHA512 = 128"

fun hash_len :: "HashKind \<Rightarrow> nat" where
  "hash_len HashSHA1 = 20"
| "hash_len HashSHA256 = 32"
| "hash_len HashSHA384 = 48"
| "hash_len HashSHA512 = 64"

text \<open>\<^verbatim>\<open>hmac.New(h, key)\<close>, written with \<open>msg\<close> and summed.\<close>

definition hmac :: "HashKind \<Rightarrow> bytes \<Rightarrow> bytes \<Rightarrow> bytes" where
  "hmac h key msg = hmac_with (hash_sum h) (hash_block h) key msg"

section \<open>Encryption variants\<close>

abbreviation (input) "TransformEncryptionAESCBC \<equiv> (12::16 word)"
abbreviation (input) "TransformEncryptionAESCCM8 \<equiv> (14::16 word)"
abbreviation (input) "TransformEncryptionAESCCM12 \<equiv> (15::16 word)"
abbreviation (input) "TransformEncryptionAESCCM16 \<equiv> (16::16 word)"
abbreviation (input) "TransformEncryptionAESGCM12 \<equiv> (19::16 word)"
abbreviation (input) "TransformEncryptionAESGCM16 \<equiv> (20::16 word)"

record EncryptionAlg =
  EncTransformID :: "16 word"
  EncName :: string
  TransformKeyLen :: nat
  EncKeyLen :: nat
  SaltLen :: nat
  IVLen :: nat
  BlockLen :: nat
  ICVLen :: nat
  AEAD :: bool

definition NewEncryption :: "16 word \<Rightarrow> 16 word \<Rightarrow> EncryptionAlg res" where
  "NewEncryption transformID keyLen =
    (if keyLen \<noteq> 16 \<and> keyLen \<noteq> 32 then Inl (Errorf ''xcrypto: unsupported AES key length'')
     else let kl = unat keyLen; baseName = (if kl = 32 then ''aes256'' else ''aes128'') in
       if transformID = TransformEncryptionAESCBC then
         Inr \<lparr> EncTransformID = transformID, EncName = baseName, TransformKeyLen = kl,
               EncKeyLen = kl, SaltLen = 0, IVLen = 16, BlockLen = 16, ICVLen = 0, AEAD = False \<rparr>
       else if transformID = TransformEncryptionAESCCM8 \<or> transformID = TransformEncryptionAESCCM12
               \<or> transformID = TransformEncryptionAESCCM16 then
         (let tag = (if transformID = TransformEncryptionAESCCM12 then 12
                     else if transformID = TransformEncryptionAESCCM16 then 16 else 8) in
          Inr \<lparr> EncTransformID = transformID,
                EncName = baseName @ (if tag = 8 then ''ccm8'' else if tag = 12 then ''ccm12'' else ''ccm16''),
                TransformKeyLen = kl, EncKeyLen = kl + 3, SaltLen = 3,
                IVLen = 8, BlockLen = 1, ICVLen = tag, AEAD = True \<rparr>)
       else if transformID = TransformEncryptionAESGCM12 \<or> transformID = TransformEncryptionAESGCM16 then
         (let tag = (if transformID = TransformEncryptionAESGCM16 then 16 else 12) in
          Inr \<lparr> EncTransformID = transformID,
                EncName = baseName @ (if tag = 12 then ''gcm12'' else ''gcm16''),
                TransformKeyLen = kl, EncKeyLen = kl + 4, SaltLen = 4,
                IVLen = 8, BlockLen = 1, ICVLen = tag, AEAD = True \<rparr>)
       else Inl (Errorf ''xcrypto: unsupported encryption transform''))"

definition checkKeyIV :: "EncryptionAlg \<Rightarrow> bytes \<Rightarrow> bytes \<Rightarrow> unit res" where
  "checkKeyIV a key iv =
    (if length key \<noteq> EncKeyLen a then Inl (Errorf ''xcrypto: key length'')
     else if length iv \<noteq> IVLen a then Inl (Errorf ''xcrypto: IV length'')
     else Inr ())"

definition isCCM :: "EncryptionAlg \<Rightarrow> bool" where
  "isCCM a \<longleftrightarrow> EncTransformID a \<ge> TransformEncryptionAESCCM8
     \<and> EncTransformID a \<le> TransformEncryptionAESCCM16"

definition splitAEADKey :: "EncryptionAlg \<Rightarrow> bytes \<Rightarrow> bytes \<times> bytes" where
  "splitAEADKey a key = (take (TransformKeyLen a) key, drop (TransformKeyLen a) key)"

text \<open>\<^verbatim>\<open>aes.NewCipher\<close>.\<close>

definition NewCipher :: "bytes \<Rightarrow> bytes res" where
  "NewCipher key = (if aes_key_ok key then Inr key else Inl (Errorf ''crypto/aes: invalid key size''))"

subsection \<open>AES-CBC\<close>

definition cbcSeal :: "bytes \<Rightarrow> bytes \<Rightarrow> bytes \<Rightarrow> bytes res" where
  "cbcSeal key iv plain =
    (if length plain mod 16 \<noteq> 0
     then Inl (Errorf ''xcrypto: AES-CBC plaintext length not a multiple of 16'')
     else bind_res (NewCipher key) (\<lambda>block. Inr (cbc_encrypt (aes_encrypt block) iv plain)))"

definition cbcOpen :: "bytes \<Rightarrow> bytes \<Rightarrow> bytes \<Rightarrow> bytes res" where
  "cbcOpen key iv ciphertext =
    (if length ciphertext mod 16 \<noteq> 0
     then Inl (Errorf ''xcrypto: AES-CBC ciphertext length not a multiple of 16'')
     else bind_res (NewCipher key) (\<lambda>block. Inr (cbc_decrypt (aes_decrypt block) iv ciphertext)))"

subsection \<open>AES-GCM\<close>

text \<open>\<^verbatim>\<open>copy\<close> into the \<open>n\<close> octets of a zeroed array.\<close>

definition copy_zeroed :: "nat \<Rightarrow> bytes \<Rightarrow> bytes" where
  "copy_zeroed n src = take n src @ replicate (n - length src) 0"

definition gcmNonce :: "EncryptionAlg \<Rightarrow> bytes \<Rightarrow> bytes \<Rightarrow> bytes" where
  "gcmNonce a key iv = copy_zeroed 4 (snd (splitAEADKey a key)) @ copy_zeroed 8 iv"

definition gcmSeal :: "EncryptionAlg \<Rightarrow> bytes \<Rightarrow> bytes \<Rightarrow> bytes \<Rightarrow> bytes \<Rightarrow> bytes res" where
  "gcmSeal a key iv aad plain =
    (let aesKey = fst (splitAEADKey a key); nonce = gcmNonce a key iv in
     bind_res (NewCipher aesKey) (\<lambda>block.
       Inr (gcm_seal (aes_encrypt block) (ICVLen a) nonce plain aad)))"

definition gcmOpen :: "EncryptionAlg \<Rightarrow> bytes \<Rightarrow> bytes \<Rightarrow> bytes \<Rightarrow> bytes \<Rightarrow> bytes res" where
  "gcmOpen a key iv aad ciphertext =
    (let aesKey = fst (splitAEADKey a key); nonce = gcmNonce a key iv in
     bind_res (NewCipher aesKey) (\<lambda>block.
       case gcm_open (aes_encrypt block) (ICVLen a) nonce ciphertext aad of
         None \<Rightarrow> Inl (Errorf ''xcrypto: AES-GCM auth/open'')
       | Some plain \<Rightarrow> Inr plain))"

subsection \<open>AES-CCM\<close>

definition ccmNonce :: "EncryptionAlg \<Rightarrow> bytes \<Rightarrow> bytes \<Rightarrow> bytes" where
  "ccmNonce a key iv = copy_zeroed 3 (snd (splitAEADKey a key)) @ copy_zeroed 8 iv"

abbreviation (input) "ccmLenParameter \<equiv> (4::nat)"

definition ccmCounterIV :: "bytes \<Rightarrow> bytes" where
  "ccmCounterIV nonce = word_of_nat (ccmLenParameter - 1) # copy_zeroed 15 nonce"

definition putCCMSize :: "nat \<Rightarrow> nat \<Rightarrow> bytes" where
  "putCCMSize width n = nat_be width n"

definition aadEncoding :: "bytes \<Rightarrow> bytes" where
  "aadEncoding aad =
    (if length aad = 0 then []
     else let out = (if length aad < 0xFF00 then putCCMSize 2 (length aad) @ aad
                     else [0xFF, 0xFE] @ be32 (word_of_nat (length aad)) @ aad);
              pad = length out mod 16
          in if pad \<noteq> 0 then out @ replicate (16 - pad) 0 else out)"

function ccmProcess :: "(bytes \<Rightarrow> bytes) \<Rightarrow> bytes \<Rightarrow> bytes \<Rightarrow> bytes" where
  "ccmProcess E x data =
    (if length data > 0 then
       let n = (if length data > 16 then 16 else length data);
           buf = copy_zeroed 16 (take n data)
       in ccmProcess E (E (xor_bytes buf x)) (drop n data)
     else x)"
  by pat_completeness auto
termination
  by (relation "measure (\<lambda>(_, _, data). length data)") auto

declare ccmProcess.simps [simp del]

definition ccmMAC :: "(bytes \<Rightarrow> bytes) \<Rightarrow> bytes \<Rightarrow> bytes \<Rightarrow> bytes \<Rightarrow> nat \<Rightarrow> bytes" where
  "ccmMAC E nonce aad msg tagLen =
    (let flags = push_bit 3 (word_of_nat ((tagLen - 2) div 2));
         flags = (if length aad \<noteq> 0 then flags OR 0x40 else flags);
         flags = flags OR word_of_nat (ccmLenParameter - 1);
         b0 = flags # copy_zeroed 11 nonce @ putCCMSize ccmLenParameter (length msg);
         x = E b0;
         x = ccmProcess E x (aadEncoding aad)
     in ccmProcess E x msg)"

definition ccmSeal :: "EncryptionAlg \<Rightarrow> bytes \<Rightarrow> bytes \<Rightarrow> bytes \<Rightarrow> bytes \<Rightarrow> bytes res" where
  "ccmSeal a key iv aad plain =
    bind_res (NewCipher (take (TransformKeyLen a) key)) (\<lambda>block.
      let E = aes_encrypt block; nonce = ccmNonce a key iv;
          fullTag = ccmMAC E nonce aad plain (ICVLen a);
          ctr = ctr_stream E (ccmCounterIV nonce) (16 + length plain);
          fullTag = xor_bytes fullTag (take 16 ctr)
      in Inr (xor_bytes plain (drop 16 ctr) @ take (ICVLen a) fullTag))"

definition ccmOpen :: "EncryptionAlg \<Rightarrow> bytes \<Rightarrow> bytes \<Rightarrow> bytes \<Rightarrow> bytes \<Rightarrow> bytes res" where
  "ccmOpen a key iv aad ciphertext =
    (if length ciphertext < ICVLen a then Inl (Errorf ''xcrypto: AES-CCM ciphertext too short'')
     else let dataLen = length ciphertext - ICVLen a in
       bind_res (NewCipher (take (TransformKeyLen a) key)) (\<lambda>block.
         let E = aes_encrypt block; nonce = ccmNonce a key iv;
             ctr = ctr_stream E (ccmCounterIV nonce) (16 + dataLen);
             out = xor_bytes (take dataLen ciphertext) (drop 16 ctr);
             received = drop dataLen ciphertext;
             tag = xor_bytes (take (ICVLen a) received) (take 16 ctr);
             expected = ccmMAC E nonce aad out (ICVLen a)
         in if tag \<noteq> take (ICVLen a) expected then Inl (Errorf ''xcrypto: AES-CCM auth failed'')
            else Inr out))"

subsection \<open>Seal and Open\<close>

definition Seal :: "EncryptionAlg \<Rightarrow> bytes \<Rightarrow> bytes \<Rightarrow> bytes \<Rightarrow> bytes \<Rightarrow> bytes res" where
  "Seal a key iv aad plain =
    bind_res (checkKeyIV a key iv) (\<lambda>_.
      if \<not> AEAD a then cbcSeal key iv plain
      else if isCCM a then ccmSeal a key iv aad plain
      else gcmSeal a key iv aad plain)"

definition Open :: "EncryptionAlg \<Rightarrow> bytes \<Rightarrow> bytes \<Rightarrow> bytes \<Rightarrow> bytes \<Rightarrow> bytes res" where
  "Open a key iv aad ciphertext =
    bind_res (checkKeyIV a key iv) (\<lambda>_.
      if \<not> AEAD a then cbcOpen key iv ciphertext
      else if isCCM a then ccmOpen a key iv aad ciphertext
      else gcmOpen a key iv aad ciphertext)"

section \<open>Prepared encryption\<close>

text \<open>\<open>pblock\<close> is the AES key behind \<^verbatim>\<open>block\<close> (CBC, CCM) or \<^verbatim>\<open>gcm\<close> (GCM).\<close>

record PreparedEncryption =
  palg :: EncryptionAlg
  pblock :: bytes
  psalt :: bytes

definition Prepare :: "EncryptionAlg \<Rightarrow> bytes \<Rightarrow> PreparedEncryption res" where
  "Prepare a key =
    (if length key \<noteq> EncKeyLen a then Inl (Errorf ''xcrypto: key length'')
     else if \<not> AEAD a then
       bind_res (NewCipher key) (\<lambda>block. Inr \<lparr> palg = a, pblock = block, psalt = [] \<rparr>)
     else if isCCM a then
       bind_res (NewCipher (take (TransformKeyLen a) key)) (\<lambda>block.
         Inr \<lparr> palg = a, pblock = block, psalt = drop (TransformKeyLen a) key \<rparr>)
     else
       let (aesKey, salt) = splitAEADKey a key in
       bind_res (NewCipher aesKey) (\<lambda>block. Inr \<lparr> palg = a, pblock = block, psalt = salt \<rparr>))"

definition checkIV :: "PreparedEncryption \<Rightarrow> bytes \<Rightarrow> unit res" where
  "checkIV p iv = (if length iv \<noteq> IVLen (palg p) then Inl (Errorf ''xcrypto: IV length'') else Inr ())"

definition pcbcSeal :: "PreparedEncryption \<Rightarrow> bytes \<Rightarrow> bytes \<Rightarrow> bytes \<Rightarrow> bytes res" where
  "pcbcSeal p dst iv plain =
    (if length plain mod 16 \<noteq> 0
     then Inl (Errorf ''xcrypto: AES-CBC plaintext length not a multiple of 16'')
     else Inr (dst @ cbc_encrypt (aes_encrypt (pblock p)) iv plain))"

definition pcbcOpenTo :: "PreparedEncryption \<Rightarrow> bytes \<Rightarrow> bytes \<Rightarrow> bytes \<Rightarrow> bytes res" where
  "pcbcOpenTo p dst iv ciphertext =
    (if length ciphertext mod 16 \<noteq> 0
     then Inl (Errorf ''xcrypto: AES-CBC ciphertext length not a multiple of 16'')
     else Inr (dst @ cbc_decrypt (aes_decrypt (pblock p)) iv ciphertext))"

definition pgcmNonce :: "PreparedEncryption \<Rightarrow> bytes \<Rightarrow> bytes" where
  "pgcmNonce p iv = copy_zeroed 4 (psalt p) @ copy_zeroed 8 iv"

definition pgcmSeal :: "PreparedEncryption \<Rightarrow> bytes \<Rightarrow> bytes \<Rightarrow> bytes \<Rightarrow> bytes \<Rightarrow> bytes res" where
  "pgcmSeal p dst iv aad plain =
    Inr (dst @ gcm_seal (aes_encrypt (pblock p)) (ICVLen (palg p)) (pgcmNonce p iv) plain aad)"

definition pgcmOpenTo :: "PreparedEncryption \<Rightarrow> bytes \<Rightarrow> bytes \<Rightarrow> bytes \<Rightarrow> bytes \<Rightarrow> bytes res" where
  "pgcmOpenTo p dst iv aad ciphertext =
    (case gcm_open (aes_encrypt (pblock p)) (ICVLen (palg p)) (pgcmNonce p iv) ciphertext aad of
       None \<Rightarrow> Inl (Errorf ''xcrypto: AES-GCM auth/open'')
     | Some plain \<Rightarrow> Inr (dst @ plain))"

definition pccmNonce :: "PreparedEncryption \<Rightarrow> bytes \<Rightarrow> bytes" where
  "pccmNonce p iv = copy_zeroed 3 (psalt p) @ copy_zeroed 8 iv"

definition pccmSeal :: "PreparedEncryption \<Rightarrow> bytes \<Rightarrow> bytes \<Rightarrow> bytes \<Rightarrow> bytes \<Rightarrow> bytes res" where
  "pccmSeal p dst iv aad plain =
    (let E = aes_encrypt (pblock p); nonce = pccmNonce p iv; icv = ICVLen (palg p);
         fullTag = ccmMAC E nonce aad plain icv;
         ctr = ctr_stream E (ccmCounterIV nonce) (16 + length plain);
         fullTag = xor_bytes fullTag (take 16 ctr)
     in Inr (dst @ xor_bytes plain (drop 16 ctr) @ take icv fullTag))"

definition pccmOpenTo :: "PreparedEncryption \<Rightarrow> bytes \<Rightarrow> bytes \<Rightarrow> bytes \<Rightarrow> bytes \<Rightarrow> bytes res" where
  "pccmOpenTo p dst iv aad ciphertext =
    (if length ciphertext < ICVLen (palg p)
     then Inl (Errorf ''xcrypto: AES-CCM ciphertext too short'')
     else
       let icv = ICVLen (palg p); dataLen = length ciphertext - icv;
           E = aes_encrypt (pblock p); nonce = pccmNonce p iv;
           ctr = ctr_stream E (ccmCounterIV nonce) (16 + dataLen);
           out = xor_bytes (take dataLen ciphertext) (drop 16 ctr);
           received = drop dataLen ciphertext;
           tag = xor_bytes (take icv received) (take 16 ctr);
           expected = ccmMAC E nonce aad out icv
       in if tag \<noteq> take icv expected then Inl (Errorf ''xcrypto: AES-CCM auth failed'')
          else Inr (dst @ out))"

definition SealTo :: "PreparedEncryption \<Rightarrow> bytes \<Rightarrow> bytes \<Rightarrow> bytes \<Rightarrow> bytes \<Rightarrow> bytes res" where
  "SealTo p dst iv aad plain =
    bind_res (checkIV p iv) (\<lambda>_.
      if \<not> AEAD (palg p) then pcbcSeal p dst iv plain
      else if isCCM (palg p) then pccmSeal p dst iv aad plain
      else pgcmSeal p dst iv aad plain)"

definition OpenTo :: "PreparedEncryption \<Rightarrow> bytes \<Rightarrow> bytes \<Rightarrow> bytes \<Rightarrow> bytes \<Rightarrow> bytes res" where
  "OpenTo p dst iv aad ciphertext =
    bind_res (checkIV p iv) (\<lambda>_.
      if \<not> AEAD (palg p) then pcbcOpenTo p dst iv ciphertext
      else if isCCM (palg p) then pccmOpenTo p dst iv aad ciphertext
      else pgcmOpenTo p dst iv aad ciphertext)"

section \<open>Integrity transforms\<close>

abbreviation (input) "TransformIntegrityNone \<equiv> (0::16 word)"
abbreviation (input) "TransformIntegrityHMACSHA196 \<equiv> (2::16 word)"
abbreviation (input) "TransformIntegrityHMACSHA2256128 \<equiv> (12::16 word)"
abbreviation (input) "TransformIntegrityHMACSHA2384192 \<equiv> (13::16 word)"
abbreviation (input) "TransformIntegrityHMACSHA2512256 \<equiv> (14::16 word)"

record Integrity =
  IntegTransformID :: "16 word"
  OutputLen :: nat
  IntegKeyLen :: nat
  newHMAC :: "HashKind option"

definition NewIntegrity :: "16 word \<Rightarrow> Integrity res" where
  "NewIntegrity i =
    (if i = TransformIntegrityNone then
       Inr \<lparr> IntegTransformID = i, OutputLen = 0, IntegKeyLen = 0, newHMAC = None \<rparr>
     else if i = TransformIntegrityHMACSHA196 then
       Inr \<lparr> IntegTransformID = i, OutputLen = 12, IntegKeyLen = 20, newHMAC = Some HashSHA1 \<rparr>
     else if i = TransformIntegrityHMACSHA2256128 then
       Inr \<lparr> IntegTransformID = i, OutputLen = 16, IntegKeyLen = 32, newHMAC = Some HashSHA256 \<rparr>
     else if i = TransformIntegrityHMACSHA2384192 then
       Inr \<lparr> IntegTransformID = i, OutputLen = 24, IntegKeyLen = 48, newHMAC = Some HashSHA384 \<rparr>
     else if i = TransformIntegrityHMACSHA2512256 then
       Inr \<lparr> IntegTransformID = i, OutputLen = 32, IntegKeyLen = 64, newHMAC = Some HashSHA512 \<rparr>
     else Inl (Errorf ''xcrypto: unsupported integrity transform''))"

definition Sign :: "Integrity \<Rightarrow> bytes \<Rightarrow> bytes \<Rightarrow> bytes res" where
  "Sign i key msg =
    (case newHMAC i of
       None \<Rightarrow> Inl (Errorf ''xcrypto: no integrity transform (AEAD carries its own tag)'')
     | Some h \<Rightarrow>
         if length key \<noteq> IntegKeyLen i then Inl (Errorf ''xcrypto: integrity key length'')
         else Inr (take (OutputLen i) (hmac h key msg)))"

definition Verify :: "Integrity \<Rightarrow> bytes \<Rightarrow> bytes \<Rightarrow> bytes \<Rightarrow> bool" where
  "Verify i key msg icv =
    (case Sign i key msg of
       Inl _ \<Rightarrow> False
     | Inr got \<Rightarrow> length got = length icv \<and> got = icv)"

record PreparedIntegrity =
  poutputLen :: nat
  pmac :: "HashKind \<times> bytes"

definition PrepareIntegrity :: "Integrity \<Rightarrow> bytes \<Rightarrow> PreparedIntegrity res" where
  "PrepareIntegrity i key =
    (case newHMAC i of
       None \<Rightarrow> Inl (Errorf ''xcrypto: no integrity transform (AEAD carries its own tag)'')
     | Some h \<Rightarrow>
         if length key \<noteq> IntegKeyLen i then Inl (Errorf ''xcrypto: integrity key length'')
         else Inr \<lparr> poutputLen = OutputLen i, pmac = (h, key) \<rparr>)"

definition pSign :: "PreparedIntegrity \<Rightarrow> bytes \<Rightarrow> bytes res" where
  "pSign p msg = Inr (take (poutputLen p) (hmac (fst (pmac p)) (snd (pmac p)) msg))"

definition pVerify :: "PreparedIntegrity \<Rightarrow> bytes \<Rightarrow> bytes \<Rightarrow> bool" where
  "pVerify p msg icv =
    (case pSign p msg of Inl _ \<Rightarrow> False | Inr got \<Rightarrow> length got = length icv \<and> got = icv)"

section \<open>Lemmas: registered variants\<close>

definition wf_enc :: "EncryptionAlg \<Rightarrow> bool" where
  "wf_enc a \<longleftrightarrow> (\<exists>transformID keyLen. NewEncryption transformID keyLen = Inr a)"

definition wf_integ :: "Integrity \<Rightarrow> bool" where
  "wf_integ i \<longleftrightarrow> (\<exists>transformID. NewIntegrity transformID = Inr i)"

lemma NewEncryption_args:
  assumes "NewEncryption t k = Inr a"
  shows "k = 16 \<or> k = 32" "t = 12 \<or> t = 14 \<or> t = 15 \<or> t = 16 \<or> t = 19 \<or> t = 20"
proof -
  show k: "k = 16 \<or> k = 32"
    by (rule ccontr) (use assms in \<open>simp add: NewEncryption_def\<close>)
  show "t = 12 \<or> t = 14 \<or> t = 15 \<or> t = 16 \<or> t = 19 \<or> t = 20"
    by (rule ccontr) (use assms k in \<open>auto simp: NewEncryption_def\<close>)
qed

lemma wf_enc_cases [consumes 1, case_names CBC CCM GCM]:
  assumes "wf_enc a"
  obtains "\<not> AEAD a" "TransformKeyLen a \<in> {16, 32}" "EncKeyLen a = TransformKeyLen a"
      "IVLen a = 16" "BlockLen a = 16" "ICVLen a = 0"
  | "AEAD a" "isCCM a" "TransformKeyLen a \<in> {16, 32}" "EncKeyLen a = TransformKeyLen a + 3"
      "IVLen a = 8" "BlockLen a = 1" "ICVLen a \<in> {8, 12, 16}"
  | "AEAD a" "\<not> isCCM a" "TransformKeyLen a \<in> {16, 32}" "EncKeyLen a = TransformKeyLen a + 4"
      "IVLen a = 8" "BlockLen a = 1" "ICVLen a \<in> {12, 16}"
proof -
  obtain t k where a: "NewEncryption t k = Inr a" using assms unfolding wf_enc_def by blast
  from NewEncryption_args [OF a] a that show thesis
    by (elim disjE) (simp_all add: NewEncryption_def isCCM_def, auto)
qed

lemma wf_enc_key_ok:
  "wf_enc a \<Longrightarrow> length key = EncKeyLen a \<Longrightarrow> aes_key_ok (take (TransformKeyLen a) key)"
  by (cases a rule: wf_enc_cases) (auto simp: aes_key_ok_def)

lemma NewCipher_ok [simp]: "aes_key_ok k \<Longrightarrow> NewCipher k = Inr k"
  by (simp add: NewCipher_def)

lemma length_hash_sum [simp]: "length (hash_sum h m) = hash_len h"
  by (cases h) simp_all

lemma length_hmac [simp]: "length (hmac h key msg) = hash_len h"
  unfolding hmac_def by (rule length_hmac_with) simp

lemma length_copy_zeroed [simp]: "length (copy_zeroed n b) = n"
  by (simp add: copy_zeroed_def)

lemma take_xor_bytes: "take n (xor_bytes a b) = xor_bytes (take n a) (take n b)"
  by (simp add: xor_bytes_def take_map take_zip)

lemma xor_bytes_cancel_take:
  "m \<le> length k \<Longrightarrow> length a = m \<Longrightarrow> xor_bytes (xor_bytes a (take m k)) k = a"
  by (auto simp: xor_bytes_def xor.assoc intro!: nth_equalityI)

section \<open>Lemmas: opening inverts sealing\<close>

lemma length_ccmProcess:
  "(\<And>b. length b = 16 \<Longrightarrow> length (E b) = 16) \<Longrightarrow> length x = 16 \<Longrightarrow>
     length (ccmProcess E x data) = 16"
proof (induction E x data rule: ccmProcess.induct)
  case (1 E x data)
  then show ?case by (subst ccmProcess.simps) (simp add: Let_def)
qed

lemma length_ccmMAC:
  assumes "\<And>b. length b = 16 \<Longrightarrow> length (E b) = 16"
  shows "length (ccmMAC E nonce aad msg tagLen) = 16"
proof -
  have "length (b # copy_zeroed 11 nonce @ putCCMSize 4 (length msg)) = 16" for b
    by (simp add: putCCMSize_def)
  then show ?thesis
    unfolding ccmMAC_def Let_def using assms by (intro length_ccmProcess) auto
qed

lemma ccm_tag_cancel:
  assumes "length t = 16" "length s = 16 + n" "m \<le> 16"
  shows "xor_bytes (take m (xor_bytes t (take 16 s))) (take 16 s) = take m t"
  unfolding take_xor_bytes using assms by (intro xor_bytes_cancel_take) simp_all

lemma ccmOpen_ccmSeal:
  assumes "aes_key_ok (take (TransformKeyLen a) key)" "ICVLen a \<le> 16"
    and "ccmSeal a key iv aad plain = Inr c"
  shows "ccmOpen a key iv aad c = Inr plain" "length c = length plain + ICVLen a"
proof -
  let ?E = "aes_encrypt (take (TransformKeyLen a) key)"
  let ?n = "ccmNonce a key iv"
  let ?s = "ctr_stream ?E (ccmCounterIV ?n) (16 + length plain)"
  let ?t = "ccmMAC ?E ?n aad plain (ICVLen a)"
  have len: "length ?s = 16 + length plain" "length ?t = 16"
    using assms(1) by (auto intro!: aes.length_ctr_stream length_ccmMAC length_aes_encrypt)
  have c: "c = xor_bytes plain (drop 16 ?s) @ take (ICVLen a) (xor_bytes ?t (take 16 ?s))"
    using assms(1,3) by (simp add: ccmSeal_def Let_def)
  show l: "length c = length plain + ICVLen a"
    using len assms(2) by (simp add: c)
  show "ccmOpen a key iv aad c = Inr plain"
    using assms(1,2) len ccm_tag_cancel [OF len(2,1) assms(2)] l
    by (simp add: ccmOpen_def Let_def) (simp add: c)
qed

lemma gcmOpen_gcmSeal:
  assumes "aes_key_ok (take (TransformKeyLen a) key)" "ICVLen a \<le> 16"
    and "gcmSeal a key iv aad plain = Inr c"
  shows "gcmOpen a key iv aad c = Inr plain" "length c = length plain + ICVLen a"
  using assms
  by (auto simp: gcmSeal_def gcmOpen_def splitAEADKey_def Let_def gcmNonce_def
        aes.gcm_open_seal aes.length_gcm_seal)

lemma cbcOpen_cbcSeal:
  assumes "aes_key_ok key" "length iv = 16" "cbcSeal key iv plain = Inr c"
  shows "cbcOpen key iv c = Inr plain" "length c = length plain"
  using assms
  by (auto simp: cbcSeal_def cbcOpen_def aes.cbc_decrypt_encrypt aes.length_cbc_encrypt
        split: if_splits)

lemma Open_Seal_aux:
  assumes "wf_enc a" "Seal a key iv aad plain = Inr c"
  shows "Open a key iv aad c = Inr plain \<and> length c = length plain + ICVLen a"
proof -
  have k: "checkKeyIV a key iv = Inr ()" "length key = EncKeyLen a" "length iv = IVLen a"
    using assms(2) by (auto simp: Seal_def checkKeyIV_def split: if_splits)
  note ok = wf_enc_key_ok [OF assms(1) k(2)]
  from assms(1) show ?thesis
  proof (cases rule: wf_enc_cases)
    case CBC
    then have "aes_key_ok key" "cbcSeal key iv plain = Inr c"
      using assms(2) k by (auto simp: Seal_def aes_key_ok_def)
    then show ?thesis using CBC k cbcOpen_cbcSeal [of key iv plain c] by (simp add: Open_def)
  next
    case CCM
    then have "ccmSeal a key iv aad plain = Inr c" "ICVLen a \<le> 16"
      using assms(2) k by (auto simp: Seal_def)
    then show ?thesis using CCM k ccmOpen_ccmSeal [OF ok] by (simp add: Open_def)
  next
    case GCM
    then have "gcmSeal a key iv aad plain = Inr c" "ICVLen a \<le> 16"
      using assms(2) k by (auto simp: Seal_def)
    then show ?thesis using GCM k gcmOpen_gcmSeal [OF ok] by (simp add: Open_def)
  qed
qed

lemma Seal_is_ok:
  assumes "wf_enc a"
  shows "is_ok (Seal a key iv aad plain) \<longleftrightarrow>
    length key = EncKeyLen a \<and> length iv = IVLen a \<and> length plain mod BlockLen a = 0"
proof (cases "checkKeyIV a key iv")
  case (Inl e)
  then show ?thesis by (auto simp: Seal_def checkKeyIV_def split: if_splits)
next
  case (Inr u)
  then have k: "length key = EncKeyLen a" "length iv = IVLen a"
    by (auto simp: checkKeyIV_def split: if_splits)
  note ok = wf_enc_key_ok [OF assms k(1)]
  from assms show ?thesis
  proof (cases rule: wf_enc_cases)
    case CBC
    then show ?thesis using Inr k ok by (simp add: Seal_def cbcSeal_def)
  next
    case CCM
    then show ?thesis using Inr k ok by (simp add: Seal_def ccmSeal_def Let_def)
  next
    case GCM
    then show ?thesis using Inr k ok by (simp add: Seal_def gcmSeal_def Let_def splitAEADKey_def)
  qed
qed

section \<open>Lemmas: the prepared forms\<close>

lemma Prepare_cases:
  assumes "Prepare a key = Inr p"
  shows "palg p = a" "length key = EncKeyLen a"
    "\<not> AEAD a \<Longrightarrow> aes_key_ok key \<and> pblock p = key"
    "AEAD a \<Longrightarrow> aes_key_ok (take (TransformKeyLen a) key)
       \<and> pblock p = take (TransformKeyLen a) key \<and> psalt p = drop (TransformKeyLen a) key"
  using assms
  by (auto simp: Prepare_def NewCipher_def splitAEADKey_def Let_def split: if_splits)

lemma Prepare_is_ok:
  assumes "wf_enc a" "length key = EncKeyLen a"
  shows "is_ok (Prepare a key)"
  using assms(1) wf_enc_key_ok [OF assms] assms(2)
  by (cases rule: wf_enc_cases) (auto simp: Prepare_def splitAEADKey_def)

lemma SealTo_Seal:
  assumes "Prepare a key = Inr p"
  shows "SealTo p dst iv aad plain = bind_res (Seal a key iv aad plain) (\<lambda>c. Inr (dst @ c))"
proof (cases "length iv = IVLen a")
  case False
  then show ?thesis using Prepare_cases [OF assms]
    by (simp add: SealTo_def Seal_def checkIV_def checkKeyIV_def)
next
  case True
  then show ?thesis using Prepare_cases [OF assms]
    by (cases "AEAD a"; cases "isCCM a")
       (simp_all add: SealTo_def Seal_def checkIV_def checkKeyIV_def Let_def
          pcbcSeal_def cbcSeal_def pccmSeal_def ccmSeal_def pgcmSeal_def gcmSeal_def
          pccmNonce_def ccmNonce_def pgcmNonce_def gcmNonce_def splitAEADKey_def)
qed

lemma OpenTo_Open:
  assumes "Prepare a key = Inr p"
  shows "OpenTo p dst iv aad ct = bind_res (Open a key iv aad ct) (\<lambda>m. Inr (dst @ m))"
proof (cases "length iv = IVLen a")
  case False
  then show ?thesis using Prepare_cases [OF assms]
    by (simp add: OpenTo_def Open_def checkIV_def checkKeyIV_def)
next
  case True
  then show ?thesis using Prepare_cases [OF assms]
    by (cases "AEAD a"; cases "isCCM a")
       (simp_all add: OpenTo_def Open_def checkIV_def checkKeyIV_def Let_def
          pcbcOpenTo_def cbcOpen_def pccmOpenTo_def ccmOpen_def pgcmOpenTo_def gcmOpen_def
          pccmNonce_def ccmNonce_def pgcmNonce_def gcmNonce_def splitAEADKey_def
          split: option.split)
qed

lemma pSign_Sign:
  "PrepareIntegrity i key = Inr p \<Longrightarrow> pSign p msg = Sign i key msg"
  by (auto simp: PrepareIntegrity_def pSign_def Sign_def split: option.splits if_splits)

lemma pVerify_Verify:
  "PrepareIntegrity i key = Inr p \<Longrightarrow> pVerify p msg icv = Verify i key msg icv"
  by (simp add: pVerify_def Verify_def pSign_Sign)

lemma wf_enc_BlockLen: "wf_enc enc \<Longrightarrow> BlockLen enc = 1 \<or> BlockLen enc = 16"
  by (cases enc rule: wf_enc_cases) auto

lemma Open_aad_irrelevant: "\<not> AEAD a \<Longrightarrow> Open a key iv aad c = Open a key iv aad' c"
  by (simp add: Open_def)

lemma Seal_iv_length: "Seal a key iv aad plain = Inr c \<Longrightarrow> length iv = IVLen a"
  by (auto simp: Seal_def checkKeyIV_def split: if_splits)

lemma wf_integ_OutputLen: "wf_integ i \<Longrightarrow> newHMAC i = Some h \<Longrightarrow> OutputLen i \<le> hash_len h"
  by (auto simp: wf_integ_def NewIntegrity_def split: if_splits)

lemma length_Sign: "wf_integ i \<Longrightarrow> Sign i key msg = Inr icv \<Longrightarrow> length icv = OutputLen i"
  using wf_integ_OutputLen by (fastforce simp: Sign_def split: option.splits if_splits)

lemma Verify_Sign: "Verify i key msg icv \<longleftrightarrow> Sign i key msg = Inr icv"
  by (auto simp: Verify_def split: sum.splits)

section \<open>Properties\<close>

text \<open>C17: for every registered AES variant (CBC, CCM with 8, 12 or 16-octet tags, GCM
  with 12 or 16-octet tags, 128 or 256-bit keys), whatever \<^verbatim>\<open>Seal\<close> returns is opened
  by \<^verbatim>\<open>Open\<close> under the same key, IV and additional data to the same plaintext, and it
  is longer than the plaintext by exactly the tag.\<close>

theorem Open_Seal:
  assumes "NewEncryption transformID keyLen = Inr a" "Seal a key iv aad plain = Inr c"
  shows "Open a key iv aad c = Inr plain \<and> length c = length plain + ICVLen a"
  using Open_Seal_aux assms wf_enc_def by blast

lemma sample_variant:
  obtains a where "NewEncryption TransformEncryptionAESCCM12 32 = Inr a"
    "EncKeyLen a = 35" "IVLen a = 8" "BlockLen a = 1" "ICVLen a = 12" "wf_enc a"
proof -
  obtain a where a: "NewEncryption TransformEncryptionAESCCM12 32 = Inr a"
    by (simp add: NewEncryption_def)
  have "EncKeyLen a = 35 \<and> IVLen a = 8 \<and> BlockLen a = 1 \<and> ICVLen a = 12"
    using a by (auto simp: NewEncryption_def)
  moreover have "wf_enc a" using a unfolding wf_enc_def by blast
  ultimately show thesis using that [OF a] by blast
qed

theorem Open_Seal_witness:
  "\<exists>a c. NewEncryption TransformEncryptionAESCCM12 32 = Inr a
     \<and> Seal a (replicate 35 7) (replicate 8 1) [1, 2, 3] [4, 5] = Inr c \<and> length c = 14
     \<and> Open a (replicate 35 7) (replicate 8 1) [1, 2, 3] c = Inr [4, 5]"
proof -
  obtain a where a: "NewEncryption TransformEncryptionAESCCM12 32 = Inr a"
    "EncKeyLen a = 35" "IVLen a = 8" "BlockLen a = 1" "ICVLen a = 12" "wf_enc a"
    by (rule sample_variant)
  then have "is_ok (Seal a (replicate 35 7) (replicate 8 1) [1, 2, 3] [4, 5])"
    by (simp add: Seal_is_ok)
  then obtain c where "Seal a (replicate 35 7) (replicate 8 1) [1, 2, 3] [4, 5] = Inr c"
    by (auto simp: is_ok_iff)
  then show ?thesis using Open_Seal [OF a(1)] a by force
qed

text \<open>C39: the prepared cipher is byte-identical to the direct one: for the key given to
  \<^verbatim>\<open>Prepare\<close>, \<^verbatim>\<open>SealTo\<close> and \<^verbatim>\<open>OpenTo\<close> append to \<open>dst\<close> exactly what \<^verbatim>\<open>Seal\<close> and \<^verbatim>\<open>Open\<close>
  return, and fail with the same error when they fail.\<close>

theorem prepared_agrees:
  assumes "Prepare a key = Inr p"
  shows "SealTo p dst iv aad plain = bind_res (Seal a key iv aad plain) (\<lambda>c. Inr (dst @ c))
    \<and> OpenTo p dst iv aad ct = bind_res (Open a key iv aad ct) (\<lambda>m. Inr (dst @ m))"
  using SealTo_Seal [OF assms] OpenTo_Open [OF assms] by simp

theorem prepared_agrees_witness:
  "\<exists>a p. NewEncryption TransformEncryptionAESCCM12 32 = Inr a
     \<and> Prepare a (replicate 35 7) = Inr p
     \<and> SealTo p [9] (replicate 8 1) [1, 2, 3] [4, 5]
         = bind_res (Seal a (replicate 35 7) (replicate 8 1) [1, 2, 3] [4, 5]) (\<lambda>c. Inr (9 # c))"
proof -
  obtain a where a: "NewEncryption TransformEncryptionAESCCM12 32 = Inr a"
    "EncKeyLen a = 35" "wf_enc a"
    by (rule sample_variant)
  then have "is_ok (Prepare a (replicate 35 7))" by (intro Prepare_is_ok) simp_all
  then obtain p where p: "Prepare a (replicate 35 7) = Inr p" by (auto simp: is_ok_iff)
  have "SealTo p [9] (replicate 8 1) [1, 2, 3] [4, 5]
     = bind_res (Seal a (replicate 35 7) (replicate 8 1) [1, 2, 3] [4, 5]) (\<lambda>c. Inr ([9] @ c))"
    using prepared_agrees [OF p] by blast
  then show ?thesis using a(1) p by (intro exI conjI) simp_all
qed

end
