(* ===== verification/Xcrypto_Suite.thy ===== *)
theory Xcrypto_Suite
  imports Xcrypto_Cipher Payload_Codecs
begin

text \<open>
  Algorithm suites and key derivation of \<^verbatim>\<open>src/xcrypto\<close>: the strongswan-style
  proposal language and the negotiation of \<^verbatim>\<open>suite.go\<close>, the PRFs and PRF+ of
  \<^verbatim>\<open>prf.go\<close>, Diffie-Hellman keys of \<^verbatim>\<open>dh.go\<close>, and the key schedules of
  \<^verbatim>\<open>keying.go\<close>. Random octets are an argument: \<open>rnd\<close> is the outcome of the call of
  \<^verbatim>\<open>rand.Read\<close> (the octets read, or its error).

  The lemmas show that a parsed proposal is homogeneous and complete, that a
  negotiated suite consists of transforms both sides listed, that PRF+ is the
  RFC 7296 expansion of the requested length, and that the derived keys have
  the lengths of the suite and partition the key material.
\<close>

section \<open>PRF\<close>

abbreviation (input) "TransformPRFHMACSHA1 \<equiv> (2::16 word)"
abbreviation (input) "TransformPRFHMACSHA256 \<equiv> (5::16 word)"
abbreviation (input) "TransformPRFHMACSHA512 \<equiv> (7::16 word)"

record PRF =
  PRFTransformID :: "16 word"
  PRFOutputLen :: nat
  PRFnewHMAC :: "HashKind option"

definition NewPRF :: "16 word \<Rightarrow> PRF res" where
  "NewPRF i =
    (if i = TransformPRFHMACSHA1
     then Inr \<lparr> PRFTransformID = i, PRFOutputLen = 20, PRFnewHMAC = Some HashSHA1 \<rparr>
     else if i = TransformPRFHMACSHA256
     then Inr \<lparr> PRFTransformID = i, PRFOutputLen = 32, PRFnewHMAC = Some HashSHA256 \<rparr>
     else if i = TransformPRFHMACSHA512
     then Inr \<lparr> PRFTransformID = i, PRFOutputLen = 64, PRFnewHMAC = Some HashSHA512 \<rparr>
     else Inl (Errorf ''xcrypto: unsupported PRF transform''))"

definition PRFSum :: "PRF \<Rightarrow> bytes \<Rightarrow> bytes \<Rightarrow> bytes res" where
  "PRFSum p key data =
    (case PRFnewHMAC p of
       None \<Rightarrow> Inl (Errorf ''xcrypto: uninitialized PRF'')
     | Some h \<Rightarrow> Inr (hmac h key data))"

text \<open>The loop of \<^verbatim>\<open>Plus\<close>: \<open>out\<close> holds \<open>T1 | ... | T(counter-1)\<close>, \<open>previous\<close> the last block.\<close>

function PlusLoop :: "HashKind \<Rightarrow> bytes \<Rightarrow> bytes \<Rightarrow> nat \<Rightarrow> nat \<Rightarrow> bytes \<Rightarrow> bytes \<Rightarrow> bytes res" where
  "PlusLoop h key seed outLen counter previous out =
    (if length out < outLen then
       if counter > 255 then Inl (Errorf ''xcrypto: PRF+ output exceeds 255 blocks'')
       else let previous = hmac h key (previous @ seed @ [word_of_nat counter])
            in PlusLoop h key seed outLen (counter + 1) previous (out @ previous)
     else Inr (take outLen out))"
  by pat_completeness auto
termination
  by (relation "measure (\<lambda>(_, _, _, _, counter, _, _). 256 - counter)") auto

declare PlusLoop.simps [simp del]

definition Plus :: "PRF \<Rightarrow> bytes \<Rightarrow> bytes \<Rightarrow> int \<Rightarrow> bytes res" where
  "Plus p key seed outLen =
    (case PRFnewHMAC p of
       None \<Rightarrow> Inl (Errorf ''xcrypto: uninitialized PRF'')
     | Some h \<Rightarrow>
         if outLen < 0 then Inl (Errorf ''xcrypto: negative PRF+ output length'')
         else PlusLoop h key seed (nat outLen) 1 [] [])"

section \<open>Diffie-Hellman\<close>

abbreviation (input) "TransformDHCurve25519 \<equiv> (31::16 word)"

record DH =
  DHTransformID :: "16 word"
  DHName :: string

record DHKey =
  dhdesc :: DH
  dhkey :: "bytes option"

definition newDH :: "16 word \<Rightarrow> DH res" where
  "newDH grp =
    (if grp = TransformDHCurve25519 then Inr \<lparr> DHTransformID = grp, DHName = ''curve25519'' \<rparr>
     else Inl (Errorf ''xcrypto: unsupported DH group''))"

text \<open>\<open>rnd\<close> is the private scalar \<^verbatim>\<open>GenerateKey\<close> reads from \<^verbatim>\<open>rand.Reader\<close>.\<close>

definition GenerateDH :: "bytes res \<Rightarrow> 16 word \<Rightarrow> DHKey res" where
  "GenerateDH rnd grp =
    bind_res (newDH grp) (\<lambda>d. bind_res rnd (\<lambda>key. Inr \<lparr> dhdesc = d, dhkey = Some key \<rparr>))"

definition PublicBytes :: "DHKey \<Rightarrow> bytes res" where
  "PublicBytes k =
    (case dhkey k of
       None \<Rightarrow> Inl (Errorf ''xcrypto: DH private key already consumed'')
     | Some key \<Rightarrow> Inr (x25519_base key))"

definition ECDH :: "DHKey \<Rightarrow> bytes \<Rightarrow> bytes res \<times> DHKey" where
  "ECDH k peer =
    (case dhkey k of
       None \<Rightarrow> (Inl (Errorf ''xcrypto: DH private key already consumed''), k)
     | Some key \<Rightarrow>
         if length peer \<noteq> 32
         then (Inl (Errorf ''xcrypto: invalid X25519 peer public key length''), k)
         else let secret = x25519 key peer in
           if secret = replicate 32 0
           then (Inl (Errorf ''xcrypto: derive X25519 shared secret''), k)
           else (Inr secret, k\<lparr> dhkey := None \<rparr>))"

section \<open>Proposals\<close>

record EncryptionID =
  EIDTransformID :: "16 word"
  EIDKeyLen :: "16 word"

record XProposal =
  XEncryption :: "EncryptionID list"
  XIntegrity :: "16 word list"
  XPRF :: "16 word list"
  XDH :: "16 word list"

record Selection =
  SelEncryption :: EncryptionAlg
  SelIntegrity :: Integrity
  SelPRF :: PRF
  SelDH :: DH

definition encryptionTokens :: "string \<Rightarrow> EncryptionID option" where
  "encryptionTokens = map_of (map (\<lambda>(s, t, k). (s, \<lparr> EIDTransformID = t, EIDKeyLen = k \<rparr>))
    [(''aes'', 12, 16), (''aes128'', 12, 16), (''aes256'', 12, 32),
     (''aes128ccm8'', 14, 16), (''aes128ccm64'', 14, 16),
     (''aes128ccm12'', 15, 16), (''aes128ccm96'', 15, 16),
     (''aes128ccm16'', 16, 16), (''aes128ccm128'', 16, 16),
     (''aes256ccm8'', 14, 32), (''aes256ccm64'', 14, 32),
     (''aes256ccm12'', 15, 32), (''aes256ccm96'', 15, 32),
     (''aes256ccm16'', 16, 32), (''aes256ccm128'', 16, 32),
     (''aes128gcm12'', 19, 16), (''aes128gcm96'', 19, 16),
     (''aes128gcm'', 20, 16), (''aes128gcm16'', 20, 16), (''aes128gcm128'', 20, 16),
     (''aes256gcm12'', 19, 32), (''aes256gcm96'', 19, 32),
     (''aes256gcm'', 20, 32), (''aes256gcm16'', 20, 32), (''aes256gcm128'', 20, 32)])"

definition integrityTokens :: "string \<Rightarrow> 16 word option" where
  "integrityTokens = map_of
    [(''sha'', TransformIntegrityHMACSHA196), (''sha1'', TransformIntegrityHMACSHA196),
     (''sha256'', TransformIntegrityHMACSHA2256128), (''sha2_256'', TransformIntegrityHMACSHA2256128),
     (''sha384'', TransformIntegrityHMACSHA2384192), (''sha2_384'', TransformIntegrityHMACSHA2384192),
     (''sha512'', TransformIntegrityHMACSHA2512256), (''sha2_512'', TransformIntegrityHMACSHA2512256)]"

definition prfTokens :: "string \<Rightarrow> 16 word option" where
  "prfTokens = map_of
    [(''prfsha1'', TransformPRFHMACSHA1),
     (''prfsha256'', TransformPRFHMACSHA256), (''prfsha2_256'', TransformPRFHMACSHA256),
     (''prfsha512'', TransformPRFHMACSHA512), (''prfsha2_512'', TransformPRFHMACSHA512)]"

definition dhTokens :: "string \<Rightarrow> 16 word option" where
  "dhTokens = map_of
    [(''curve25519'', TransformDHCurve25519), (''x25519'', TransformDHCurve25519)]"

definition pushUnique :: "'a list \<Rightarrow> 'a \<Rightarrow> 'a list" where
  "pushUnique xs v = (if v \<in> set xs then xs else xs @ [v])"

text \<open>The segments of \<open>s\<close> between separators; \<open>cur\<close> is the segment being read.\<close>

fun splitLoop :: "char \<Rightarrow> string \<Rightarrow> string \<Rightarrow> string list" where
  "splitLoop sep cur [] = [cur]"
| "splitLoop sep cur (c # s) =
     (if c = sep then cur # splitLoop sep [] s else splitLoop sep (cur @ [c]) s)"

definition splitTokens :: "string \<Rightarrow> string list" where
  "splitTokens s = splitLoop (CHR ''-'') [] s"

definition trimSpaces :: "string \<Rightarrow> string" where
  "trimSpaces part =
     rev (dropWhile (\<lambda>c. c = CHR '' '') (rev (dropWhile (\<lambda>c. c = CHR '' '') part)))"

definition commaSplit :: "string \<Rightarrow> string list" where
  "commaSplit s = filter (\<lambda>part. part \<noteq> []) (map trimSpaces (splitLoop (CHR '','') [] s))"

definition prfFromIntegrity :: "16 word \<Rightarrow> 16 word" where
  "prfFromIntegrity i =
    (if i = TransformIntegrityHMACSHA196 then TransformPRFHMACSHA1
     else if i = TransformIntegrityHMACSHA2256128 then TransformPRFHMACSHA256
     else if i = TransformIntegrityHMACSHA2512256 then TransformPRFHMACSHA512
     else 0)"

text \<open>The token loop of \<^verbatim>\<open>ParseProposal\<close>.\<close>

fun parseTokens :: "string list \<Rightarrow> XProposal \<Rightarrow> XProposal res" where
  "parseTokens [] p = Inr p"
| "parseTokens (token # ts) p =
    (if token = [] then parseTokens ts p
     else case encryptionTokens token of
       Some enc \<Rightarrow> parseTokens ts (p\<lparr> XEncryption := pushUnique (XEncryption p) enc \<rparr>)
     | None \<Rightarrow> (case integrityTokens token of
       Some i \<Rightarrow> parseTokens ts (p\<lparr> XIntegrity := pushUnique (XIntegrity p) i \<rparr>)
     | None \<Rightarrow> (case prfTokens token of
       Some i \<Rightarrow> parseTokens ts (p\<lparr> XPRF := pushUnique (XPRF p) i \<rparr>)
     | None \<Rightarrow> (case dhTokens token of
       Some i \<Rightarrow> parseTokens ts (p\<lparr> XDH := pushUnique (XDH p) i \<rparr>)
     | None \<Rightarrow> Inl (Errorf ''xcrypto: unsupported strongswan proposal token'')))))"

text \<open>The scan of the encryption list: which kinds of cipher occur.\<close>

fun scanAEAD :: "EncryptionID list \<Rightarrow> bool \<Rightarrow> bool \<Rightarrow> (bool \<times> bool) res" where
  "scanAEAD [] hasAEAD hasNonAEAD = Inr (hasAEAD, hasNonAEAD)"
| "scanAEAD (enc # es) hasAEAD hasNonAEAD =
     bind_res (NewEncryption (EIDTransformID enc) (EIDKeyLen enc)) (\<lambda>alg.
       if AEAD alg then scanAEAD es True hasNonAEAD else scanAEAD es hasAEAD True)"

fun defaultPRFs :: "16 word list \<Rightarrow> 16 word list \<Rightarrow> (16 word list) res" where
  "defaultPRFs [] acc = Inr acc"
| "defaultPRFs (i # is) acc =
    (let def = prfFromIntegrity i in
     if def = 0 then Inl (Errorf ''xcrypto: integrity transform has no default PRF; add an explicit PRF'')
     else defaultPRFs is (pushUnique acc def))"

definition ParseProposalString :: "string \<Rightarrow> XProposal res" where
  "ParseProposalString s =
    bind_res (parseTokens (splitTokens s)
        \<lparr> XEncryption = [], XIntegrity = [], XPRF = [], XDH = [] \<rparr>) (\<lambda>p.
    if length (XEncryption p) = 0
    then Inl (Errorf ''xcrypto: proposal is missing an encryption transform'')
    else if length (XDH p) = 0 then Inl (Errorf ''xcrypto: proposal is missing a DH group'')
    else bind_res (scanAEAD (XEncryption p) False False) (\<lambda>(hasAEAD, hasNonAEAD).
      if hasAEAD \<and> hasNonAEAD
      then Inl (Errorf ''xcrypto: mixed AEAD and non-AEAD encryption transforms in one proposal'')
      else if hasAEAD \<and> length (XIntegrity p) \<noteq> 0
      then Inl (Errorf ''xcrypto: AEAD proposal must not include integrity transforms'')
      else if \<not> hasAEAD \<and> length (XIntegrity p) = 0
      then Inl (Errorf ''xcrypto: non-AEAD proposal is missing an integrity transform'')
      else bind_res (if length (XPRF p) = 0 then defaultPRFs (XIntegrity p) [] else Inr (XPRF p))
        (\<lambda>prfs. if length prfs = 0 then Inl (Errorf ''xcrypto: proposal is missing a PRF'')
                else Inr (p\<lparr> XPRF := prfs \<rparr>))))"

fun parseParts :: "string list \<Rightarrow> XProposal list \<Rightarrow> (XProposal list) res" where
  "parseParts [] acc = Inr acc"
| "parseParts (part # ps) acc =
     bind_res (ParseProposalString part) (\<lambda>p. parseParts ps (acc @ [p]))"

definition ParseProposals :: "string \<Rightarrow> (XProposal list) res" where
  "ParseProposals s =
    bind_res (parseParts (commaSplit s) []) (\<lambda>out.
      if out = [] then Inl (Errorf ''xcrypto: proposal list is empty'') else Inr out)"

section \<open>Negotiation\<close>

fun selectEncryption :: "EncryptionID list \<Rightarrow> XProposal \<Rightarrow> XProposal \<Rightarrow> EncryptionAlg res" where
  "selectEncryption [] p remote = Inl (Errorf ''xcrypto: no compatible encryption transform'')"
| "selectEncryption (want # ws) p remote =
    (if want \<notin> set (XEncryption remote) then selectEncryption ws p remote
     else bind_res (NewEncryption (EIDTransformID want) (EIDKeyLen want)) (\<lambda>alg.
       if AEAD alg \<and> (length (XIntegrity p) \<noteq> 0 \<or> length (XIntegrity remote) \<noteq> 0)
       then Inl (Errorf ''xcrypto: AEAD proposal must not negotiate integrity transforms'')
       else Inr alg))"

fun selectIntegrity :: "16 word list \<Rightarrow> XProposal \<Rightarrow> Integrity res" where
  "selectIntegrity [] remote = Inl (Errorf ''xcrypto: no compatible integrity transform'')"
| "selectIntegrity (want # ws) remote =
    (if want \<notin> set (XIntegrity remote) then selectIntegrity ws remote else NewIntegrity want)"

definition prfMatchesIntegrity :: "16 word \<Rightarrow> Integrity \<Rightarrow> bool" where
  "prfMatchesIntegrity prf integ \<longleftrightarrow>
     IntegTransformID integ = TransformIntegrityNone
     \<or> prfFromIntegrity (IntegTransformID integ) = prf"

fun selectPRFLoop :: "16 word list \<Rightarrow> XProposal \<Rightarrow> Integrity \<Rightarrow> PRF res" where
  "selectPRFLoop [] remote integ =
    (if IntegTransformID integ \<noteq> TransformIntegrityNone
        \<and> prfFromIntegrity (IntegTransformID integ) \<noteq> 0
        \<and> prfFromIntegrity (IntegTransformID integ) \<in> set (XPRF remote)
     then NewPRF (prfFromIntegrity (IntegTransformID integ))
     else Inl (Errorf ''xcrypto: no compatible PRF transform''))"
| "selectPRFLoop (want # ws) remote integ =
    (if \<not> prfMatchesIntegrity want integ \<or> want \<notin> set (XPRF remote)
     then selectPRFLoop ws remote integ
     else NewPRF want)"

definition selectPRF :: "XProposal \<Rightarrow> XProposal \<Rightarrow> Integrity \<Rightarrow> PRF res" where
  "selectPRF p remote integ = selectPRFLoop (XPRF p) remote integ"

fun selectDHLoop :: "16 word list \<Rightarrow> XProposal \<Rightarrow> DH res" where
  "selectDHLoop [] remote = Inl (Errorf ''xcrypto: no compatible DH group'')"
| "selectDHLoop (want # ws) remote =
    (if want \<notin> set (XDH remote) then selectDHLoop ws remote
     else if want = TransformDHCurve25519
     then Inr \<lparr> DHTransformID = want, DHName = ''curve25519'' \<rparr>
     else selectDHLoop ws remote)"

definition Select :: "XProposal \<Rightarrow> XProposal option \<Rightarrow> Selection res" where
  "Select p remote =
    (case remote of
       None \<Rightarrow> Inl (Errorf ''xcrypto: nil remote proposal'')
     | Some remote \<Rightarrow>
         bind_res (selectEncryption (XEncryption p) p remote) (\<lambda>enc.
         bind_res (if AEAD enc then NewIntegrity TransformIntegrityNone
                   else selectIntegrity (XIntegrity p) remote) (\<lambda>integ.
         bind_res (selectPRF p remote integ) (\<lambda>prf.
         bind_res (selectDHLoop (XDH p) remote) (\<lambda>d.
           Inr \<lparr> SelEncryption = enc, SelIntegrity = integ, SelPRF = prf, SelDH = d \<rparr>)))))"

section \<open>Key schedules\<close>

record IKEKeys =
  SKd :: bytes
  SKai :: bytes
  SKar :: bytes
  SKei :: bytes
  SKer :: bytes
  SKpi :: bytes
  SKpr :: bytes

record ChildKeys =
  CSKei :: bytes
  CSKai :: bytes
  CSKer :: bytes
  CSKar :: bytes

definition SKEYSEED :: "PRF \<Rightarrow> bytes \<Rightarrow> bytes \<Rightarrow> bytes \<Rightarrow> bytes res" where
  "SKEYSEED prf Ni Nr sharedSecret = PRFSum prf (Ni @ Nr) sharedSecret"

definition RekeySKEYSEED :: "PRF \<Rightarrow> bytes \<Rightarrow> bytes \<Rightarrow> bytes \<Rightarrow> bytes \<Rightarrow> bytes res" where
  "RekeySKEYSEED prf skdOld sharedSecret Ni Nr = PRFSum prf skdOld (sharedSecret @ Ni @ Nr)"

text \<open>The closure \<^verbatim>\<open>take\<close>: the next chunk of each requested length.\<close>

fun take_chunks :: "bytes \<Rightarrow> nat \<Rightarrow> nat list \<Rightarrow> bytes list" where
  "take_chunks keymat off [] = []"
| "take_chunks keymat off (n # ns) = subslice keymat off (off + n) # take_chunks keymat (off + n) ns"

definition DeriveIKEKeys ::
  "PRF \<Rightarrow> bytes \<Rightarrow> bytes \<Rightarrow> bytes \<Rightarrow> 64 word \<Rightarrow> 64 word \<Rightarrow> EncryptionAlg \<Rightarrow> Integrity option
     \<Rightarrow> IKEKeys res" where
  "DeriveIKEKeys prf skeyseed Ni Nr spiI spiR enc integ =
    (let seed = Ni @ Nr @ be64 spiI @ be64 spiR;
         integLen = (case integ of None \<Rightarrow> 0 | Some i \<Rightarrow> IntegKeyLen i);
         n = PRFOutputLen prf + 2 * integLen + 2 * EncKeyLen enc + 2 * PRFOutputLen prf in
     bind_res (Plus prf skeyseed seed (int n)) (\<lambda>keymat.
       let ks = take_chunks keymat 0 [PRFOutputLen prf, integLen, integLen,
                  EncKeyLen enc, EncKeyLen enc, PRFOutputLen prf, PRFOutputLen prf] in
       Inr \<lparr> SKd = ks ! 0, SKai = ks ! 1, SKar = ks ! 2, SKei = ks ! 3, SKer = ks ! 4,
             SKpi = ks ! 5, SKpr = ks ! 6 \<rparr>))"

definition DeriveChildKeys ::
  "PRF \<Rightarrow> bytes \<Rightarrow> bytes \<Rightarrow> bytes \<Rightarrow> bytes \<Rightarrow> EncryptionAlg \<Rightarrow> Integrity option
     \<Rightarrow> ChildKeys res" where
  "DeriveChildKeys prf skd Ni Nr sharedSecret enc integ =
    (let seed = sharedSecret @ Ni @ Nr;
         integLen = (case integ of None \<Rightarrow> 0 | Some i \<Rightarrow> IntegKeyLen i) in
     bind_res (Plus prf skd seed (int (2 * (EncKeyLen enc + integLen)))) (\<lambda>keymat.
       let ks = take_chunks keymat 0 [EncKeyLen enc, integLen, EncKeyLen enc, integLen] in
       Inr \<lparr> CSKei = ks ! 0, CSKai = ks ! 1, CSKer = ks ! 2, CSKar = ks ! 3 \<rparr>))"

definition NatDetectionHash :: "64 word \<Rightarrow> 64 word \<Rightarrow> bytes \<Rightarrow> 16 word \<Rightarrow> bytes res" where
  "NatDetectionHash spiI spiR ip port =
    (case (case To4 ip of Some v4 \<Rightarrow> Some v4 | None \<Rightarrow> To16 ip) of
       None \<Rightarrow> Inl (Errorf ''xcrypto: invalid NAT-D address'')
     | Some ipBytes \<Rightarrow> Inr (sha1 (be64 spiI @ be64 spiR @ ipBytes @ be16 port)))"

definition MACedID :: "PRF \<Rightarrow> bytes \<Rightarrow> bytes \<Rightarrow> bytes res" where
  "MACedID prf key idPayload = PRFSum prf key idPayload"

text \<open>The octets of a Go string constant.\<close>

definition string_bytes :: "string \<Rightarrow> bytes" where
  "string_bytes s = map (\<lambda>c. word_of_nat (of_char c)) s"

definition AuthKeyPad :: bytes where
  "AuthKeyPad = string_bytes ''Key Pad for IKEv2''"

definition AuthMAC :: "PRF \<Rightarrow> bytes \<Rightarrow> bytes \<Rightarrow> bytes res" where
  "AuthMAC prf secret octets =
    bind_res (PRFSum prf secret AuthKeyPad) (\<lambda>key. PRFSum prf key octets)"

definition GenerateSPI :: "bytes res \<Rightarrow> (64 word) res" where
  "GenerateSPI rnd = bind_res rnd (\<lambda>b. let v = beUint64 b in Inr (if v = 0 then 1 else v))"

definition GenerateNonce :: "bytes res \<Rightarrow> int \<Rightarrow> bytes res" where
  "GenerateNonce rnd n =
    (if n \<le> 0 then Inl (Errorf ''xcrypto: invalid nonce length'')
     else case rnd of Inl e \<Rightarrow> Inl (Errorf ''xcrypto: generate nonce'') | Inr b \<Rightarrow> Inr b)"

section \<open>Lemmas: PRF+\<close>

text \<open>The blocks of RFC 7296 section 2.13: \<open>T 0\<close> is empty,
  \<open>T (n + 1) = prf (K, T n | S | n + 1)\<close>.\<close>

fun T_block :: "HashKind \<Rightarrow> bytes \<Rightarrow> bytes \<Rightarrow> nat \<Rightarrow> bytes" where
  "T_block h key seed 0 = []"
| "T_block h key seed (Suc n) =
     hmac h key (T_block h key seed n @ seed @ [word_of_nat (Suc n)])"

definition T_blocks :: "HashKind \<Rightarrow> bytes \<Rightarrow> bytes \<Rightarrow> nat \<Rightarrow> bytes" where
  "T_blocks h key seed n = concat (map (T_block h key seed) [1..<Suc n])"

definition wf_prf :: "PRF \<Rightarrow> bool" where
  "wf_prf p \<longleftrightarrow> (\<exists>i. NewPRF i = Inr p)"

lemma wf_prf_cases:
  assumes "wf_prf p"
  obtains h where "PRFnewHMAC p = Some h" "PRFOutputLen p = hash_len h" "20 \<le> hash_len h"
  using assms by (auto simp: wf_prf_def NewPRF_def split: if_splits)

lemma length_T_blocks [simp]: "length (T_blocks h key seed n) = n * hash_len h"
proof -
  have "length (T_block h key seed i) = hash_len h" if "1 \<le> i" for i
    using that by (cases i) auto
  then show ?thesis
    unfolding T_blocks_def by (subst length_concat_const [where n = "hash_len h"]) auto
qed

lemma T_blocks_Suc:
  "T_blocks h key seed (Suc n) = T_blocks h key seed n @ T_block h key seed (Suc n)"
  by (simp add: T_blocks_def)

lemma take_T_blocks:
  "m \<le> n \<Longrightarrow> k \<le> m * hash_len h \<Longrightarrow>
     take k (T_blocks h key seed n) = take k (T_blocks h key seed m)"
proof (induction n)
  case (Suc n)
  show ?case
  proof (cases "m = Suc n")
    case False
    then have "m \<le> n" using Suc.prems by simp
    moreover have "k \<le> n * hash_len h"
      using Suc.prems(2) \<open>m \<le> n\<close> by (meson mult_le_mono1 order_trans)
    ultimately show ?thesis using Suc by (simp add: T_blocks_Suc)
  qed simp
qed simp

lemma PlusLoop_spec:
  assumes "n \<le> 255"
  shows "PlusLoop h key seed outLen (Suc n) (T_block h key seed n) (T_blocks h key seed n)
    = (if outLen \<le> 255 * hash_len h then Inr (take outLen (T_blocks h key seed 255))
       else Inl (Errorf ''xcrypto: PRF+ output exceeds 255 blocks''))"
  using assms
proof (induction "255 - n" arbitrary: n)
  case 0
  then have "n = 255" by simp
  then show ?case by (subst PlusLoop.simps) simp
next
  case (Suc d)
  then have n: "n < 255" by simp
  show ?case
  proof (cases "n * hash_len h < outLen")
    case True
    have "PlusLoop h key seed outLen (Suc n) (T_block h key seed n) (T_blocks h key seed n)
        = PlusLoop h key seed outLen (Suc (Suc n)) (T_block h key seed (Suc n))
            (T_blocks h key seed (Suc n))"
      using True n by (subst PlusLoop.simps) (simp add: Let_def T_blocks_Suc)
    then show ?thesis using Suc(1) [of "Suc n"] Suc(2) n by simp
  next
    case False
    moreover have "n * hash_len h \<le> 255 * hash_len h" using n by (intro mult_le_mono1) simp
    ultimately have "outLen \<le> 255 * hash_len h" by linarith
    then show ?thesis using False n take_T_blocks [of n 255 outLen h key seed]
      by (subst PlusLoop.simps) simp
  qed
qed

lemma Plus_spec:
  assumes "PRFnewHMAC p = Some h"
  shows "Plus p key seed (int outLen)
    = (if outLen \<le> 255 * hash_len h then Inr (take outLen (T_blocks h key seed 255))
       else Inl (Errorf ''xcrypto: PRF+ output exceeds 255 blocks''))"
  using PlusLoop_spec [of 0 h key seed outLen] assms by (simp add: Plus_def T_blocks_def)

section \<open>Lemmas: key schedules\<close>

lemma take_chunks_concat:
  "off + sum_list ns \<le> length keymat \<Longrightarrow>
     concat (take_chunks keymat off ns) = subslice keymat off (off + sum_list ns)"
proof (induction ns arbitrary: off)
  case (Cons n ns)
  then have "concat (take_chunks keymat (off + n) ns)
      = subslice keymat (off + n) (off + n + sum_list ns)" by simp
  then show ?case by (simp add: subslice_def take_add add.commute add.left_commute)
qed (simp add: subslice_def)

lemma take_chunks_length:
  "off + sum_list ns \<le> length keymat \<Longrightarrow> map length (take_chunks keymat off ns) = ns"
  by (induction ns arbitrary: off) auto

lemma take_chunks_7:
  assumes "a + b + b + c + c + a + a \<le> length keymat"
  shows "\<exists>k0 k1 k2 k3 k4 k5 k6. take_chunks keymat 0 [a, b, b, c, c, a, a] = [k0, k1, k2, k3, k4, k5, k6]
     \<and> k0 @ k1 @ k2 @ k3 @ k4 @ k5 @ k6 = take (a + b + b + c + c + a + a) keymat
     \<and> length k0 = a \<and> length k1 = b \<and> length k2 = b \<and> length k3 = c \<and> length k4 = c
     \<and> length k5 = a \<and> length k6 = a"
  using take_chunks_concat [of 0 "[a, b, b, c, c, a, a]" keymat]
    take_chunks_length [of 0 "[a, b, b, c, c, a, a]" keymat] assms
  by (simp add: add.assoc)

lemma take_chunks_4:
  assumes "a + b + a + b \<le> length keymat"
  shows "\<exists>k0 k1 k2 k3. take_chunks keymat 0 [a, b, a, b] = [k0, k1, k2, k3]
     \<and> k0 @ k1 @ k2 @ k3 = take (a + b + a + b) keymat
     \<and> length k0 = a \<and> length k1 = b \<and> length k2 = a \<and> length k3 = b"
  using take_chunks_concat [of 0 "[a, b, a, b]" keymat]
    take_chunks_length [of 0 "[a, b, a, b]" keymat] assms
  by (simp add: add.assoc)

definition integ_len :: "Integrity option \<Rightarrow> nat" where
  "integ_len integ = (case integ of None \<Rightarrow> 0 | Some i \<Rightarrow> IntegKeyLen i)"

lemma wf_integ_KeyLen: "wf_integ i \<Longrightarrow> IntegKeyLen i \<le> 64"
  by (auto simp: wf_integ_def NewIntegrity_def split: if_splits)

lemma wf_enc_KeyLen: "wf_enc a \<Longrightarrow> EncKeyLen a \<le> 36"
  by (cases a rule: wf_enc_cases) auto

section \<open>Lemmas: proposals\<close>

text \<open>A well-formed proposal: what \<^verbatim>\<open>ParseProposal\<close> promises of its result.\<close>

definition enc_ok :: "EncryptionID \<Rightarrow> bool \<Rightarrow> bool" where
  "enc_ok e aead \<longleftrightarrow>
     (\<exists>alg. NewEncryption (EIDTransformID e) (EIDKeyLen e) = Inr alg \<and> AEAD alg = aead)"

definition wf_proposal :: "XProposal \<Rightarrow> bool" where
  "wf_proposal p \<longleftrightarrow>
     XEncryption p \<noteq> [] \<and> XDH p \<noteq> [] \<and> XPRF p \<noteq> []
     \<and> distinct (XEncryption p) \<and> distinct (XIntegrity p) \<and> distinct (XPRF p) \<and> distinct (XDH p)
     \<and> (\<exists>aead. (\<forall>e \<in> set (XEncryption p). enc_ok e aead) \<and> (aead \<longleftrightarrow> XIntegrity p = []))
     \<and> (\<forall>i \<in> set (XIntegrity p). is_ok (NewIntegrity i) \<and> i \<noteq> TransformIntegrityNone)
     \<and> (\<forall>i \<in> set (XPRF p). is_ok (NewPRF i)) \<and> set (XDH p) \<subseteq> {TransformDHCurve25519}"

definition tokens_inv :: "XProposal \<Rightarrow> bool" where
  "tokens_inv p \<longleftrightarrow>
     distinct (XEncryption p) \<and> distinct (XIntegrity p) \<and> distinct (XPRF p) \<and> distinct (XDH p)
     \<and> (\<forall>i \<in> set (XIntegrity p). is_ok (NewIntegrity i) \<and> i \<noteq> TransformIntegrityNone)
     \<and> (\<forall>i \<in> set (XPRF p). is_ok (NewPRF i)) \<and> set (XDH p) \<subseteq> {TransformDHCurve25519}"

lemma pushUnique_distinct [simp]: "distinct xs \<Longrightarrow> distinct (pushUnique xs v)"
  by (simp add: pushUnique_def)

lemma set_pushUnique [simp]: "set (pushUnique xs v) = insert v (set xs)"
  by (auto simp: pushUnique_def)

lemma integrityTokens_ok:
  "integrityTokens t = Some i \<Longrightarrow> is_ok (NewIntegrity i) \<and> i \<noteq> TransformIntegrityNone"
  by (auto simp: integrityTokens_def NewIntegrity_def split: if_splits)

lemma prfTokens_ok: "prfTokens t = Some i \<Longrightarrow> is_ok (NewPRF i)"
  by (auto simp: prfTokens_def NewPRF_def split: if_splits)

lemma dhTokens_ok: "dhTokens t = Some i \<Longrightarrow> i = TransformDHCurve25519"
  by (auto simp: dhTokens_def split: if_splits)

lemma tokens_inv_push:
  assumes "tokens_inv p"
  shows "tokens_inv (p\<lparr> XEncryption := pushUnique (XEncryption p) e \<rparr>)"
    "integrityTokens t = Some i \<Longrightarrow> tokens_inv (p\<lparr> XIntegrity := pushUnique (XIntegrity p) i \<rparr>)"
    "prfTokens t = Some i \<Longrightarrow> tokens_inv (p\<lparr> XPRF := pushUnique (XPRF p) i \<rparr>)"
    "dhTokens t = Some i \<Longrightarrow> tokens_inv (p\<lparr> XDH := pushUnique (XDH p) i \<rparr>)"
  using assms integrityTokens_ok [of t i] prfTokens_ok [of t i] dhTokens_ok [of t i]
  by (simp_all add: tokens_inv_def)

lemma parseTokens_inv: "parseTokens ts p = Inr q \<Longrightarrow> tokens_inv p \<Longrightarrow> tokens_inv q"
proof (induction ts p rule: parseTokens.induct)
  case (2 token ts p)
  show ?case
  proof (cases "token = []")
    case True
    then show ?thesis using 2 by simp
  next
    case False
    note ne = False and eq = 2(6) and push = tokens_inv_push(1) [OF 2(7)]
      tokens_inv_push(2-4) [OF 2(7), of token]
    show ?thesis
    proof (cases "encryptionTokens token")
      case (Some e)
      then show ?thesis using 2(5) [OF ne Some] eq ne push(1) by simp
    next
      case e: None
      show ?thesis
      proof (cases "integrityTokens token")
        case (Some i)
        then show ?thesis using 2(4) [OF ne e Some] eq ne e push(2) by simp
      next
        case i: None
        show ?thesis
        proof (cases "prfTokens token")
          case (Some x)
          then show ?thesis using 2(3) [OF ne e i Some] eq ne e i push(3) by simp
        next
          case x: None
          then show ?thesis
            using 2(2) [OF ne e i x] eq ne e i push(4) by (cases "dhTokens token") simp_all
        qed
      qed
    qed
  qed
qed simp

lemma scanAEAD_sound:
  "scanAEAD es a n = Inr (a', n') \<Longrightarrow>
     (\<forall>e \<in> set es. is_ok (NewEncryption (EIDTransformID e) (EIDKeyLen e)))
     \<and> (a' \<longleftrightarrow> a \<or> (\<exists>e \<in> set es. enc_ok e True)) \<and> (n' \<longleftrightarrow> n \<or> (\<exists>e \<in> set es. enc_ok e False))"
  by (induction es a n rule: scanAEAD.induct) (auto simp: enc_ok_def split: if_splits)

lemma prfFromIntegrity_ok: "prfFromIntegrity i \<noteq> 0 \<Longrightarrow> is_ok (NewPRF (prfFromIntegrity i))"
  by (auto simp: prfFromIntegrity_def NewPRF_def split: if_splits)

lemma defaultPRFs_sound:
  "defaultPRFs is acc = Inr ps \<Longrightarrow> distinct acc \<Longrightarrow> \<forall>i \<in> set acc. is_ok (NewPRF i) \<Longrightarrow>
     distinct ps \<and> (\<forall>i \<in> set ps. is_ok (NewPRF i))"
  by (induction "is" acc rule: defaultPRFs.induct)
     (auto simp: Let_def prfFromIntegrity_ok split: if_splits)

lemma enc_ok_total:
  "is_ok (NewEncryption (EIDTransformID e) (EIDKeyLen e)) \<Longrightarrow> \<not> enc_ok e (\<not> b) \<Longrightarrow> enc_ok e b"
  by (auto simp: enc_ok_def is_ok_iff)

text \<open>The checks of \<^verbatim>\<open>ParseProposal\<close> after the token loop, as they are passed.\<close>

lemma ParseProposalString_steps:
  assumes "ParseProposalString s = Inr p"
  obtains q a n prfs where
    "parseTokens (splitTokens s) \<lparr> XEncryption = [], XIntegrity = [], XPRF = [], XDH = [] \<rparr> = Inr q"
    "XEncryption q \<noteq> []" "XDH q \<noteq> []" "scanAEAD (XEncryption q) False False = Inr (a, n)"
    "\<not> (a \<and> n)" "a \<longleftrightarrow> XIntegrity q = []"
    "(if length (XPRF q) = 0 then defaultPRFs (XIntegrity q) [] else Inr (XPRF q)) = Inr prfs"
    "prfs \<noteq> []" "p = q\<lparr> XPRF := prfs \<rparr>"
proof -
  obtain q where q: "parseTokens (splitTokens s)
      \<lparr> XEncryption = [], XIntegrity = [], XPRF = [], XDH = [] \<rparr> = Inr q"
    using assms unfolding ParseProposalString_def by (elim bind_res_eq_InrE)
  note s1 = assms [unfolded ParseProposalString_def q bind_res_simps]
  have c: "XEncryption q \<noteq> []" "XDH q \<noteq> []" using s1 by (auto split: if_split_asm)
  then obtain a n where scan: "scanAEAD (XEncryption q) False False = Inr (a, n)"
    using s1 by auto
  note s2 = s1 [unfolded scan bind_res_simps prod.case]
  have d: "\<not> (a \<and> n)" "a \<longleftrightarrow> XIntegrity q = []" using s2 c by (auto split: if_split_asm)
  then have s3: "bind_res (if length (XPRF q) = 0 then defaultPRFs (XIntegrity q) [] else Inr (XPRF q))
        (\<lambda>prfs. if length prfs = 0 then Inl (Errorf ''xcrypto: proposal is missing a PRF'')
                else Inr (q\<lparr> XPRF := prfs \<rparr>)) = Inr p"
    using s2 c by (simp split: if_split_asm)
  then obtain prfs where
    "(if length (XPRF q) = 0 then defaultPRFs (XIntegrity q) [] else Inr (XPRF q)) = Inr prfs"
    "(if length prfs = 0 then Inl (Errorf ''xcrypto: proposal is missing a PRF'')
      else Inr (q\<lparr> XPRF := prfs \<rparr>)) = Inr p"
    by (elim bind_res_eq_InrE)
  then show thesis using that [OF q c scan d] by (simp split: if_split_asm)
qed

lemma ParseProposalString_wf:
  assumes "ParseProposalString s = Inr p"
  shows "wf_proposal p"
  using assms
proof (rule ParseProposalString_steps)
  fix q a n prfs
  assume q: "parseTokens (splitTokens s)
      \<lparr> XEncryption = [], XIntegrity = [], XPRF = [], XDH = [] \<rparr> = Inr q"
    and c: "XEncryption q \<noteq> []" "XDH q \<noteq> []"
    and scan: "scanAEAD (XEncryption q) False False = Inr (a, n)"
    and d: "\<not> (a \<and> n)" "a \<longleftrightarrow> XIntegrity q = []"
    and prfs: "(if length (XPRF q) = 0 then defaultPRFs (XIntegrity q) [] else Inr (XPRF q)) = Inr prfs"
      "prfs \<noteq> []" and p: "p = q\<lparr> XPRF := prfs \<rparr>"
  have inv: "tokens_inv q" using parseTokens_inv [OF q] by (simp add: tokens_inv_def)
  have "distinct prfs \<and> (\<forall>i \<in> set prfs. is_ok (NewPRF i))"
  proof (cases "XPRF q = []")
    case True
    then have "defaultPRFs (XIntegrity q) [] = Inr prfs" using prfs(1) by simp
    from defaultPRFs_sound [OF this] show ?thesis by simp
  next
    case False
    then show ?thesis using prfs(1) inv by (simp add: tokens_inv_def)
  qed
  moreover have "enc_ok e a" if "e \<in> set (XEncryption q)" for e
    using scanAEAD_sound [OF scan] d(1) that enc_ok_total [of e a] by (cases a) auto
  then have "\<exists>aead. (\<forall>e \<in> set (XEncryption q). enc_ok e aead) \<and> (aead \<longleftrightarrow> XIntegrity q = [])"
    using d(2) by blast
  ultimately show ?thesis
    using inv c prfs(2) by (simp add: wf_proposal_def p tokens_inv_def)
qed

section \<open>Lemmas: negotiation\<close>

lemma selectEncryption_sound:
  "selectEncryption ws p r = Inr alg \<Longrightarrow>
     \<exists>pre e post. ws = pre @ e # post \<and> (\<forall>x \<in> set pre. x \<notin> set (XEncryption r))
       \<and> e \<in> set (XEncryption r) \<and> NewEncryption (EIDTransformID e) (EIDKeyLen e) = Inr alg
       \<and> (AEAD alg \<longrightarrow> XIntegrity p = [] \<and> XIntegrity r = [])"
proof (induction ws p r rule: selectEncryption.induct)
  case (2 want ws p r)
  show ?case
  proof (cases "want \<in> set (XEncryption r)")
    case True
    then show ?thesis using 2(2) by (intro exI [of _ "[]"]) (auto split: if_splits)
  next
    case False
    then obtain pre e post where "ws = pre @ e # post" "\<forall>x \<in> set pre. x \<notin> set (XEncryption r)"
      "e \<in> set (XEncryption r)" "NewEncryption (EIDTransformID e) (EIDKeyLen e) = Inr alg"
      "AEAD alg \<longrightarrow> XIntegrity p = [] \<and> XIntegrity r = []"
      using 2 by auto
    then show ?thesis using False by (intro exI [of _ "want # pre"]) auto
  qed
qed simp

lemma selectIntegrity_sound:
  "selectIntegrity ws r = Inr i \<Longrightarrow> IntegTransformID i \<in> set ws \<inter> set (XIntegrity r)
     \<and> NewIntegrity (IntegTransformID i) = Inr i"
  by (induction ws r rule: selectIntegrity.induct)
     (auto simp: NewIntegrity_def split: if_splits)

lemma NewPRF_id: "NewPRF i = Inr p \<Longrightarrow> PRFTransformID p = i \<and> NewPRF (PRFTransformID p) = Inr p"
  by (auto simp: NewPRF_def split: if_splits)

lemma selectPRFLoop_sound:
  "selectPRFLoop ws r integ = Inr prf \<Longrightarrow>
     PRFTransformID prf \<in> set (XPRF r) \<and> prfMatchesIntegrity (PRFTransformID prf) integ
     \<and> NewPRF (PRFTransformID prf) = Inr prf
     \<and> (PRFTransformID prf \<in> set ws \<or> IntegTransformID integ \<noteq> TransformIntegrityNone)"
  by (induction ws r integ rule: selectPRFLoop.induct)
     (auto simp: prfMatchesIntegrity_def split: if_splits dest: NewPRF_id)

lemma selectDHLoop_sound:
  "selectDHLoop ws r = Inr d \<Longrightarrow>
     d = \<lparr> DHTransformID = TransformDHCurve25519, DHName = ''curve25519'' \<rparr>
     \<and> TransformDHCurve25519 \<in> set ws \<inter> set (XDH r)"
  by (induction ws r rule: selectDHLoop.induct) (auto split: if_splits)

lemma Select_steps:
  assumes "Select p remote = Inr sel"
  obtains r where "remote = Some r"
    "selectEncryption (XEncryption p) p r = Inr (SelEncryption sel)"
    "(if AEAD (SelEncryption sel) then NewIntegrity TransformIntegrityNone
      else selectIntegrity (XIntegrity p) r) = Inr (SelIntegrity sel)"
    "selectPRFLoop (XPRF p) r (SelIntegrity sel) = Inr (SelPRF sel)"
    "selectDHLoop (XDH p) r = Inr (SelDH sel)"
  using assms unfolding Select_def selectPRF_def
  by (cases remote) (auto elim!: bind_res_eq_InrE)

lemma NewIntegrity_id: "NewIntegrity i = Inr x \<Longrightarrow> IntegTransformID x = i"
  by (auto simp: NewIntegrity_def split: if_splits)

section \<open>Properties\<close>

text \<open>Algorithms and a proposal the witnesses use: HMAC-SHA2-256, AES-128-GCM-16 and
  the proposal \<^verbatim>\<open>aes256-sha256-x25519\<close>.\<close>

definition sample_prf :: PRF where
  "sample_prf = \<lparr> PRFTransformID = 5, PRFOutputLen = 32, PRFnewHMAC = Some HashSHA256 \<rparr>"

definition sample_gcm :: EncryptionAlg where
  "sample_gcm = projr (NewEncryption 20 16)"

definition sample_proposal :: XProposal where
  "sample_proposal = \<lparr> XEncryption = [\<lparr> EIDTransformID = 12, EIDKeyLen = 32 \<rparr>],
     XIntegrity = [12], XPRF = [5], XDH = [31] \<rparr>"

lemma sample_algs [simp]:
  "wf_prf sample_prf" "PRFOutputLen sample_prf = 32" "PRFnewHMAC sample_prf = Some HashSHA256"
  "wf_enc sample_gcm" "EncKeyLen sample_gcm = 20" "AEAD sample_gcm"
proof -
  show "wf_prf sample_prf"
    by (auto simp: wf_prf_def NewPRF_def sample_prf_def intro!: exI [of _ 5])
  show "wf_enc sample_gcm" unfolding wf_enc_def
    by (intro exI [of _ 20] exI [of _ 16]) (simp add: sample_gcm_def NewEncryption_def)
qed (simp_all add: sample_prf_def sample_gcm_def NewEncryption_def)

text \<open>C8: PRF+ (\<^verbatim>\<open>PRF.Plus\<close>) of a registered PRF is exactly the RFC 7296 section 2.13
  expansion: for a length of at most 255 blocks it returns that many octets of
  \<open>T1 | T2 | ... | T255\<close>, and it fails exactly for a negative length or a longer one.\<close>

theorem Plus_expansion:
  assumes "wf_prf p"
  shows "\<exists>h. PRFnewHMAC p = Some h \<and> PRFOutputLen p = hash_len h \<and>
    Plus p key seed n =
      (if n < 0 then Inl (Errorf ''xcrypto: negative PRF+ output length'')
       else if n > int (255 * PRFOutputLen p)
       then Inl (Errorf ''xcrypto: PRF+ output exceeds 255 blocks'')
       else Inr (take (nat n) (T_blocks h key seed 255)))"
proof -
  obtain h where h: "PRFnewHMAC p = Some h" "PRFOutputLen p = hash_len h"
    using assms by (rule wf_prf_cases)
  have "Plus p key seed n = (if nat n \<le> 255 * hash_len h then Inr (take (nat n) (T_blocks h key seed 255))
       else Inl (Errorf ''xcrypto: PRF+ output exceeds 255 blocks''))" if "0 \<le> n"
    using Plus_spec [OF h(1), of key seed "nat n"] that by simp
  moreover have "Plus p key seed n = Inl (Errorf ''xcrypto: negative PRF+ output length'')" if "n < 0"
    using h that by (simp add: Plus_def)
  moreover have "nat n \<le> 255 * hash_len h \<longleftrightarrow> \<not> n > int (255 * hash_len h)" by linarith
  ultimately show ?thesis using h by (cases "n < 0") simp_all
qed

theorem Plus_expansion_witness:
  "wf_prf sample_prf
   \<and> Plus sample_prf [1] [2] 40 = Inr (take 40 (T_blocks HashSHA256 [1] [2] 255))
   \<and> Plus sample_prf [1] [2] 8161 = Inl (Errorf ''xcrypto: PRF+ output exceeds 255 blocks'')"
  using Plus_expansion [of sample_prf "[1]" "[2]" 40] Plus_expansion [of sample_prf "[1]" "[2]" 8161]
  by simp

text \<open>C15: for registered algorithms the IKE key schedule (\<^verbatim>\<open>DeriveIKEKeys\<close>) never
  fails, every key has the length its algorithm asks for, and the seven keys in
  the order SK_d, SK_ai, SK_ar, SK_ei, SK_er, SK_pi, SK_pr partition the first
  octets of \<open>prf+ (SKEYSEED, Ni | Nr | SPIi | SPIr)\<close>.\<close>

theorem DeriveIKEKeys_partition:
  assumes "wf_prf prf" "wf_enc enc" "\<forall>i \<in> set_option integ. wf_integ i"
  shows "\<exists>ks h. DeriveIKEKeys prf skeyseed Ni Nr spiI spiR enc integ = Inr ks
    \<and> PRFnewHMAC prf = Some h
    \<and> SKd ks @ SKai ks @ SKar ks @ SKei ks @ SKer ks @ SKpi ks @ SKpr ks
        = take (3 * PRFOutputLen prf + 2 * integ_len integ + 2 * EncKeyLen enc)
            (T_blocks h skeyseed (Ni @ Nr @ be64 spiI @ be64 spiR) 255)
    \<and> length (SKd ks) = PRFOutputLen prf
    \<and> length (SKai ks) = integ_len integ \<and> length (SKar ks) = integ_len integ
    \<and> length (SKei ks) = EncKeyLen enc \<and> length (SKer ks) = EncKeyLen enc
    \<and> length (SKpi ks) = PRFOutputLen prf \<and> length (SKpr ks) = PRFOutputLen prf"
proof -
  obtain h where h: "PRFnewHMAC prf = Some h" "PRFOutputLen prf = hash_len h" "20 \<le> hash_len h"
    using assms(1) by (rule wf_prf_cases)
  define a b c where "a = hash_len h" and "b = integ_len integ" and "c = EncKeyLen enc"
  define n where "n = a + b + b + c + c + a + a"
  define mat where "mat = T_blocks h skeyseed (Ni @ Nr @ be64 spiI @ be64 spiR) 255"
  have "b \<le> 64" using assms(3) wf_integ_KeyLen by (auto simp: b_def integ_len_def split: option.split)
  moreover have "c \<le> 36" using assms(2) by (simp add: c_def wf_enc_KeyLen)
  ultimately have n: "n \<le> 255 * hash_len h" using h(3) unfolding n_def a_def by linarith
  obtain k0 k1 k2 k3 k4 k5 k6 where k: "take_chunks (take n mat) 0 [a, b, b, c, c, a, a]
      = [k0, k1, k2, k3, k4, k5, k6]" "k0 @ k1 @ k2 @ k3 @ k4 @ k5 @ k6 = take n (take n mat)"
    "length k0 = a" "length k1 = b" "length k2 = b" "length k3 = c" "length k4 = c"
    "length k5 = a" "length k6 = a"
    using take_chunks_7 [of a b c "take n mat"] n unfolding n_def mat_def by auto
  have len: "3 * a + 2 * b + 2 * c = n" "3 * int a + (2 * int b + 2 * int c) = int n"
    by (simp_all add: n_def)
  have "DeriveIKEKeys prf skeyseed Ni Nr spiI spiR enc integ
      = Inr \<lparr> SKd = k0, SKai = k1, SKar = k2, SKei = k3, SKer = k4, SKpi = k5, SKpr = k6 \<rparr>"
    using len(2) Plus_spec [OF h(1), of skeyseed "Ni @ Nr @ be64 spiI @ be64 spiR" n] n k(1)
    by (simp add: DeriveIKEKeys_def Let_def h(2) flip: integ_len_def a_def b_def c_def mat_def)
  moreover have "3 * PRFOutputLen prf + 2 * integ_len integ + 2 * EncKeyLen enc = n"
    using len(1) h(2) by (simp add: a_def b_def c_def)
  ultimately show ?thesis using h k by (simp add: a_def b_def c_def mat_def)
qed

theorem DeriveIKEKeys_partition_witness:
  "\<exists>ks. DeriveIKEKeys sample_prf [7] [1] [2] 3 4 sample_gcm None = Inr ks
     \<and> length (SKei ks) = 20 \<and> length (SKd ks) = 32 \<and> SKai ks = []"
  using DeriveIKEKeys_partition [of sample_prf sample_gcm None "[7]" "[1]" "[2]" 3 4]
    sample_algs by (auto simp: integ_len_def)

text \<open>C29: for registered algorithms the CHILD_SA key schedule (\<^verbatim>\<open>DeriveChildKeys\<close>)
  never fails, and the initiator's encryption and integrity key followed by the
  responder's partition \<open>prf+ (SK_d, [g^ir |] Ni | Nr)\<close> with the lengths of the suite.\<close>

theorem DeriveChildKeys_partition:
  assumes "wf_prf prf" "wf_enc enc" "\<forall>i \<in> set_option integ. wf_integ i"
  shows "\<exists>ks h. DeriveChildKeys prf skd Ni Nr shared enc integ = Inr ks
    \<and> PRFnewHMAC prf = Some h
    \<and> CSKei ks @ CSKai ks @ CSKer ks @ CSKar ks
        = take (2 * (EncKeyLen enc + integ_len integ)) (T_blocks h skd (shared @ Ni @ Nr) 255)
    \<and> length (CSKei ks) = EncKeyLen enc \<and> length (CSKai ks) = integ_len integ
    \<and> length (CSKer ks) = EncKeyLen enc \<and> length (CSKar ks) = integ_len integ"
proof -
  obtain h where h: "PRFnewHMAC prf = Some h" "20 \<le> hash_len h"
    using assms(1) by (rule wf_prf_cases)
  define a b where "a = EncKeyLen enc" and "b = integ_len integ"
  define n where "n = a + b + a + b"
  define mat where "mat = T_blocks h skd (shared @ Ni @ Nr) 255"
  have "b \<le> 64" using assms(3) wf_integ_KeyLen by (auto simp: b_def integ_len_def split: option.split)
  moreover have "a \<le> 36" using assms(2) by (simp add: a_def wf_enc_KeyLen)
  ultimately have n: "n \<le> 255 * hash_len h" using h(2) unfolding n_def by linarith
  obtain k0 k1 k2 k3 where k: "take_chunks (take n mat) 0 [a, b, a, b] = [k0, k1, k2, k3]"
    "k0 @ k1 @ k2 @ k3 = take n (take n mat)"
    "length k0 = a" "length k1 = b" "length k2 = a" "length k3 = b"
    using take_chunks_4 [of a b "take n mat"] n unfolding n_def mat_def by auto
  have "2 * (a + b) = n" "2 * int a + 2 * int b = int n" by (simp_all add: n_def)
  then have "DeriveChildKeys prf skd Ni Nr shared enc integ
      = Inr \<lparr> CSKei = k0, CSKai = k1, CSKer = k2, CSKar = k3 \<rparr>"
    using Plus_spec [OF h(1), of skd "shared @ Ni @ Nr" n] n k(1)
    by (simp add: DeriveChildKeys_def Let_def flip: integ_len_def a_def b_def mat_def)
  then show ?thesis using h k \<open>2 * (a + b) = n\<close> by (simp add: a_def b_def mat_def)
qed

theorem DeriveChildKeys_partition_witness:
  "\<exists>ks. DeriveChildKeys sample_prf [7] [1] [2] [] sample_gcm None = Inr ks
     \<and> length (CSKei ks) = 20 \<and> length (CSKer ks) = 20 \<and> CSKai ks = []"
  using DeriveChildKeys_partition [of sample_prf sample_gcm None "[7]" "[1]" "[2]" "[]"]
    sample_algs by (auto simp: integ_len_def)

text \<open>C37: every proposal \<^verbatim>\<open>ParseProposal\<close> accepts is complete and homogeneous: it
  lists at least one cipher, PRF and DH group, without duplicates, all of them
  registered; its ciphers are either all AEAD with no integrity transform, or all
  non-AEAD with at least one.\<close>

theorem ParseProposal_complete:
  assumes "ParseProposalString s = Inr p"
  shows "XEncryption p \<noteq> [] \<and> XDH p \<noteq> [] \<and> XPRF p \<noteq> []
    \<and> distinct (XEncryption p) \<and> distinct (XIntegrity p) \<and> distinct (XPRF p) \<and> distinct (XDH p)
    \<and> (\<exists>aead. (\<forall>e \<in> set (XEncryption p). \<exists>alg.
            NewEncryption (EIDTransformID e) (EIDKeyLen e) = Inr alg \<and> AEAD alg = aead)
         \<and> (aead \<longleftrightarrow> XIntegrity p = []))
    \<and> (\<forall>i \<in> set (XIntegrity p). is_ok (NewIntegrity i) \<and> i \<noteq> TransformIntegrityNone)
    \<and> (\<forall>i \<in> set (XPRF p). is_ok (NewPRF i)) \<and> set (XDH p) \<subseteq> {TransformDHCurve25519}"
  using ParseProposalString_wf [OF assms] by (simp add: wf_proposal_def enc_ok_def)

theorem ParseProposal_complete_witness:
  "\<exists>p. ParseProposalString ''aes256-sha256-x25519'' = Inr p
     \<and> XPRF p = [TransformPRFHMACSHA256] \<and> distinct (XEncryption p)"
proof -
  have "ParseProposalString ''aes256-sha256-x25519'' = Inr sample_proposal"
    by (simp add: ParseProposalString_def splitTokens_def encryptionTokens_def integrityTokens_def
        dhTokens_def prfTokens_def pushUnique_def NewEncryption_def prfFromIntegrity_def
        sample_proposal_def)
  from this ParseProposal_complete [OF this] show ?thesis by (simp add: sample_proposal_def)
qed

lemma Select_sound:
  assumes "Select p remote = Inr sel"
  shows "\<exists>r. remote = Some r
    \<and> (\<exists>pre e post. XEncryption p = pre @ e # post \<and> (\<forall>x \<in> set pre. x \<notin> set (XEncryption r))
         \<and> e \<in> set (XEncryption r)
         \<and> NewEncryption (EIDTransformID e) (EIDKeyLen e) = Inr (SelEncryption sel))
    \<and> (if AEAD (SelEncryption sel)
       then XIntegrity p = [] \<and> XIntegrity r = []
            \<and> IntegTransformID (SelIntegrity sel) = TransformIntegrityNone
       else IntegTransformID (SelIntegrity sel) \<in> set (XIntegrity p) \<inter> set (XIntegrity r))
    \<and> PRFTransformID (SelPRF sel) \<in> set (XPRF r)
    \<and> prfMatchesIntegrity (PRFTransformID (SelPRF sel)) (SelIntegrity sel)
    \<and> DHTransformID (SelDH sel) \<in> set (XDH p) \<inter> set (XDH r)"
  using assms
proof (rule Select_steps)
  fix r
  assume r: "remote = Some r" and enc: "selectEncryption (XEncryption p) p r = Inr (SelEncryption sel)"
    and integ: "(if AEAD (SelEncryption sel) then NewIntegrity TransformIntegrityNone
      else selectIntegrity (XIntegrity p) r) = Inr (SelIntegrity sel)"
    and pr: "selectPRFLoop (XPRF p) r (SelIntegrity sel) = Inr (SelPRF sel)"
    and dh: "selectDHLoop (XDH p) r = Inr (SelDH sel)"
  note e = selectEncryption_sound [OF enc]
  have "if AEAD (SelEncryption sel)
       then XIntegrity p = [] \<and> XIntegrity r = []
            \<and> IntegTransformID (SelIntegrity sel) = TransformIntegrityNone
       else IntegTransformID (SelIntegrity sel) \<in> set (XIntegrity p) \<inter> set (XIntegrity r)"
    using e integ selectIntegrity_sound [of "XIntegrity p" r] NewIntegrity_id
    by (auto split: if_split_asm)
  then show ?thesis using r e selectPRFLoop_sound [OF pr] selectDHLoop_sound [OF dh] by auto
qed



text \<open>An integrity transform HMAC-SHA2-384 is accepted by the proposal parser (with
  an explicit PRF) but no negotiation ever selects it, because no PRF matches it.\<close>

theorem Select_never_SHA384:
  "(\<forall>p remote sel. Select p remote = Inr sel \<longrightarrow>
      IntegTransformID (SelIntegrity sel) \<noteq> TransformIntegrityHMACSHA2384192)
   \<and> (\<exists>p. ParseProposalString ''aes-sha384-prfsha512-x25519'' = Inr p \<and> \<not> is_ok (Select p (Some p)))"
proof (intro conjI allI impI)
  fix p remote sel
  assume "Select p remote = Inr sel"
  then show "IntegTransformID (SelIntegrity sel) \<noteq> TransformIntegrityHMACSHA2384192"
  proof (rule Select_steps)
    fix r assume "selectPRFLoop (XPRF p) r (SelIntegrity sel) = Inr (SelPRF sel)"
    from selectPRFLoop_sound [OF this] show ?thesis
      by (auto simp: prfMatchesIntegrity_def prfFromIntegrity_def NewPRF_def)
  qed
next
  have "ParseProposalString ''aes-sha384-prfsha512-x25519''
      = Inr \<lparr> XEncryption = [\<lparr> EIDTransformID = 12, EIDKeyLen = 16 \<rparr>], XIntegrity = [13], XPRF = [7], XDH = [31] \<rparr>"
    by (simp add: ParseProposalString_def splitTokens_def encryptionTokens_def integrityTokens_def
        dhTokens_def prfTokens_def pushUnique_def NewEncryption_def prfFromIntegrity_def)
  then show "\<exists>p. ParseProposalString ''aes-sha384-prfsha512-x25519'' = Inr p \<and> \<not> is_ok (Select p (Some p))"
    by (simp add: Select_def NewEncryption_def NewIntegrity_def selectPRF_def
        prfMatchesIntegrity_def prfFromIntegrity_def)
qed

theorem Select_never_SHA384_witness:
  "\<exists>sel. Select sample_proposal (Some sample_proposal) = Inr sel
     \<and> IntegTransformID (SelIntegrity sel) \<noteq> TransformIntegrityHMACSHA2384192"
proof -
  obtain sel where "Select sample_proposal (Some sample_proposal) = Inr sel"
    by (simp add: Select_def sample_proposal_def NewEncryption_def NewIntegrity_def selectPRF_def
        prfMatchesIntegrity_def prfFromIntegrity_def NewPRF_def)
  then show ?thesis using Select_never_SHA384 by blast
qed

end
