(* ===== verification/Esp_Replay.thy ===== *)
theory Esp_Replay
  imports Swan_Prelude
begin

text \<open>
  The anti-replay window of \<^verbatim>\<open>src/esp/replay.go\<close>, and its contract: the locale
  \<open>anti_replay\<close> states what a window promises about the sequence numbers it has
  accepted (a set), with the consequences for a whole history of packets proved
  once; the bitmap window is an interpretation.
\<close>

section \<open>Model\<close>

record ReplayWindow =
  highest :: "32 word"
  bitmap :: "64 word"

definition zeroWindow :: ReplayWindow where
  "zeroWindow = \<lparr> highest = 0, bitmap = 0 \<rparr>"

definition Accept :: "ReplayWindow \<Rightarrow> 32 word \<Rightarrow> ReplayWindow \<times> bool" where
  "Accept w seq =
    (if seq = 0 then (w, False)
     else if highest w = 0 then (w\<lparr> highest := seq, bitmap := 1 \<rparr>, True)
     else if seq > highest w then
       (let delta = seq - highest w;
            bm = (if delta \<ge> 64 then 1 else push_bit (unat delta) (bitmap w) OR 1)
        in (w\<lparr> bitmap := bm, highest := seq \<rparr>, True))
     else
       let delta = highest w - seq in
       if delta \<ge> 64 then (w, False)
       else let b = push_bit (unat delta) 1 in
         if bitmap w AND b \<noteq> 0 then (w, False)
         else (w\<lparr> bitmap := bitmap w OR b \<rparr>, True))"

definition Reset :: "ReplayWindow \<Rightarrow> ReplayWindow" where
  "Reset w = w\<lparr> highest := 0, bitmap := 0 \<rparr>"

section \<open>The contract of a replay window\<close>

text \<open>What RFC 4303 asks for, on the set of accepted numbers: a new number passes unless
  it is zero, was accepted before, or lies 64 or more below the largest one.\<close>

definition acceptable :: "nat set \<Rightarrow> nat \<Rightarrow> bool" where
  "acceptable S n \<longleftrightarrow> n \<noteq> 0 \<and> n \<notin> S \<and> (S = {} \<or> Max S < n + 64)"

text \<open>The packets of a history that pass: the window after it and the numbers accepted.\<close>

fun accepted_by :: "('w \<Rightarrow> 32 word \<Rightarrow> 'w \<times> bool) \<Rightarrow> 'w \<Rightarrow> 32 word list \<Rightarrow> 32 word list \<times> 'w" where
  "accepted_by acc w [] = ([], w)"
| "accepted_by acc w (s # ss) =
    (let (w', ok) = acc w s; (as, w'') = accepted_by acc w' ss in (if ok then s # as else as, w''))"

locale anti_replay =
  fixes accept :: "'w \<Rightarrow> 32 word \<Rightarrow> 'w \<times> bool"
    and fresh :: 'w
    and seen :: "'w \<Rightarrow> nat set \<Rightarrow> bool"
  assumes seen_fresh: "seen fresh {}"
    and seen_finite: "seen w S \<Longrightarrow> finite S"
    and accept_iff: "seen w S \<Longrightarrow> snd (accept w s) \<longleftrightarrow> acceptable S (unat s)"
    and accept_seen: "seen w S \<Longrightarrow> seen (fst (accept w s))
          (if snd (accept w s) then insert (unat s) S else S)"
    and reject_same: "\<not> snd (accept w s) \<Longrightarrow> fst (accept w s) = w"
begin

lemma accepted_by_seen:
  "seen w S \<Longrightarrow> seen (snd (accepted_by accept w ss)) (S \<union> unat ` set (fst (accepted_by accept w ss)))"
proof (induction ss arbitrary: w S)
  case (Cons s ss)
  from Cons.IH [OF accept_seen [OF Cons.prems, of s]]
  show ?case by (auto simp: split_beta Let_def split: if_splits)
qed simp

lemma accepted_by_fresh:
  "seen w S \<Longrightarrow> unat ` set (fst (accepted_by accept w ss)) \<inter> S = {}
     \<and> distinct (fst (accepted_by accept w ss)) \<and> 0 \<notin> set (fst (accepted_by accept w ss))"
proof (induction ss arbitrary: w S)
  case (Cons s ss)
  note ih = Cons.IH [OF accept_seen [OF Cons.prems, of s]]
  show ?case
  proof (cases "snd (accept w s)")
    case True
    then have "acceptable S (unat s)" using accept_iff [OF Cons.prems] by simp
    then show ?thesis using True ih by (auto simp: split_beta Let_def acceptable_def)
  next
    case False
    then show ?thesis using ih by (simp add: split_beta Let_def)
  qed
qed simp

lemma accepted_subset: "set (fst (accepted_by accept w ss)) \<subseteq> set ss"
  by (induction ss arbitrary: w) (auto simp: split_beta Let_def)

text \<open>In a history from a fresh window, the verdict on the last packet depends on the
  accepted numbers alone.\<close>

lemma verdict_after:
  "snd (accept (snd (accepted_by accept fresh ss)) s)
     \<longleftrightarrow> acceptable (unat ` set (fst (accepted_by accept fresh ss))) (unat s)"
  using accept_iff [OF accepted_by_seen [OF seen_fresh]] by simp

end

section \<open>The bitmap window implements the contract\<close>

definition window_rel :: "ReplayWindow \<Rightarrow> nat set \<Rightarrow> bool" where
  "window_rel w S \<longleftrightarrow> finite S \<and> 0 \<notin> S
     \<and> (if highest w = 0 then S = {}
        else unat (highest w) \<in> S \<and> (\<forall>n \<in> S. n \<le> unat (highest w))
          \<and> (\<forall>i < 64. bit (bitmap w) i \<longleftrightarrow> i \<le> unat (highest w) \<and> unat (highest w) - i \<in> S))"

lemma window_rel_Max: "window_rel w S \<Longrightarrow> highest w \<noteq> 0 \<Longrightarrow> S \<noteq> {} \<and> Max S = unat (highest w)"
  by (auto simp: window_rel_def intro: Max_eqI)

lemma unat_ge_64: "(64 :: 32 word) \<le> d \<longleftrightarrow> 64 \<le> unat d"
  by (simp add: word_le_nat_alt)

lemma and_power_2: "(b :: 64 word) AND 2 ^ i = 0 \<longleftrightarrow> \<not> bit b i"
  by (simp add: bit_iff_and_push_bit_not_eq_0)

lemma Accept_zero: "Accept w 0 = (w, False)"
  by (simp add: Accept_def)

lemma Accept_above:
  assumes "highest w \<noteq> 0" "highest w < s"
  shows "Accept w s = (\<lparr> highest = s,
      bitmap = (if unat s - unat (highest w) \<ge> 64 then 1
                else push_bit (unat s - unat (highest w)) (bitmap w) OR 1), \<dots> = ReplayWindow.more w \<rparr>, True)"
proof -
  have "unat (s - highest w) = unat s - unat (highest w)" "s \<noteq> 0"
    using assms unat_sub [of "highest w" s] by (auto simp: word_less_nat_alt word_le_nat_alt)
  then show ?thesis using assms by (cases w) (simp add: Accept_def Let_def unat_ge_64)
qed

lemma Accept_below:
  assumes "s \<noteq> 0" "\<not> highest w < s" "highest w \<noteq> 0"
  shows "Accept w s =
    (let d = unat (highest w) - unat s in
     if d \<ge> 64 \<or> bit (bitmap w) d then (w, False)
     else (w\<lparr> bitmap := bitmap w OR push_bit d 1 \<rparr>, True))"
proof -
  have "unat (highest w - s) = unat (highest w) - unat s"
    using assms by (intro unat_sub) (auto simp: word_le_nat_alt word_less_nat_alt)
  then show ?thesis using assms
    by (auto simp: Accept_def Let_def unat_ge_64 and_power_2)
qed

lemma window_rel_above:
  assumes "window_rel w S" "highest w \<noteq> 0" "highest w < s"
  shows "snd (Accept w s)" "acceptable S (unat s)" "window_rel (fst (Accept w s)) (insert (unat s) S)"
proof -
  let ?h = "unat (highest w)" and ?s = "unat s"
  have lt: "?h < ?s" "s \<noteq> 0" using assms(3) by (auto simp: word_less_nat_alt)
  have S: "finite S" "0 \<notin> S" "?h \<in> S" "\<And>n. n \<in> S \<Longrightarrow> n \<le> ?h"
    "\<And>i. i < 64 \<Longrightarrow> bit (bitmap w) i \<longleftrightarrow> i \<le> ?h \<and> ?h - i \<in> S"
    using assms(1,2) by (auto simp: window_rel_def)
  show "snd (Accept w s)" using assms by (simp add: Accept_above)
  show "acceptable S ?s" using window_rel_Max [OF assms(1,2)] lt S(4) [of ?s]
    by (auto simp: acceptable_def unat_eq_0)
  have b: "bit (bitmap (fst (Accept w s))) i \<longleftrightarrow> i \<le> ?s \<and> (?s - i = ?s \<or> ?s - i \<in> S)" if "i < 64" for i
  proof (cases "i = 0")
    case True
    then show ?thesis using assms by (auto simp: Accept_above bit_simps)
  next
    case False
    have notin: "i < ?s - ?h \<Longrightarrow> ?s - i \<notin> S" using S(4) [of "?s - i"] by linarith
    show ?thesis
    proof (cases "i < ?s - ?h")
      case True
      then show ?thesis using assms False notin that by (auto simp: Accept_above bit_simps)
    next
      case ge: False
      then have "?s - i = ?h - (i - (?s - ?h))" "i \<le> ?s \<longleftrightarrow> i - (?s - ?h) \<le> ?h" using lt by linarith+
      then show ?thesis using assms False ge that lt S(5) [of "i - (?s - ?h)"]
        by (auto simp: Accept_above bit_simps)
    qed
  qed
  show "window_rel (fst (Accept w s)) (insert ?s S)"
    using b S lt assms(2,3) by (auto simp: window_rel_def Accept_above unat_eq_0 dest: S(4))
qed

lemma window_rel_below:
  assumes "window_rel w S" "highest w \<noteq> 0" "\<not> highest w < s" "s \<noteq> 0"
  shows "snd (Accept w s) \<longleftrightarrow> acceptable S (unat s)"
    "snd (Accept w s) \<Longrightarrow> window_rel (fst (Accept w s)) (insert (unat s) S)"
    "\<not> snd (Accept w s) \<Longrightarrow> fst (Accept w s) = w"
proof -
  let ?h = "unat (highest w)" and ?s = "unat s"
  have le: "?s \<le> ?h" "?s \<noteq> 0" using assms(3,4) by (auto simp: word_less_nat_alt unat_eq_0)
  have S: "finite S" "0 \<notin> S" "?h \<in> S" "\<And>n. n \<in> S \<Longrightarrow> n \<le> ?h"
    "\<And>i. i < 64 \<Longrightarrow> bit (bitmap w) i \<longleftrightarrow> i \<le> ?h \<and> ?h - i \<in> S"
    using assms(1,2) by (auto simp: window_rel_def)
  have d: "?h - (?h - ?s) = ?s" "?h - ?s \<le> ?h" using le by simp_all
  show "snd (Accept w s) \<longleftrightarrow> acceptable S ?s"
    using window_rel_Max [OF assms(1,2)] S(5) [of "?h - ?s"] d le
    by (cases "?h - ?s < 64") (auto simp: Accept_below [OF assms(4,3,2)] Let_def acceptable_def)
  show "\<not> snd (Accept w s) \<Longrightarrow> fst (Accept w s) = w"
    by (auto simp: Accept_below [OF assms(4,3,2)] Let_def split: if_splits)
  assume "snd (Accept w s)"
  then have w: "fst (Accept w s) = w\<lparr> bitmap := bitmap w OR push_bit (?h - ?s) 1 \<rparr>" "?h - ?s < 64"
    by (auto simp: Accept_below [OF assms(4,3,2)] Let_def split: if_splits)
  have "bit (bitmap w OR push_bit (?h - ?s) 1) i \<longleftrightarrow> i \<le> ?h \<and> (?h - i = ?s \<or> ?h - i \<in> S)"
    if "i < 64" for i
    using S(5) [OF that] le that by (auto simp: bit_simps)
  then show "window_rel (fst (Accept w s)) (insert ?s S)"
    using S le assms(2) unfolding w(1) by (auto simp: window_rel_def dest: S(4))
qed

lemma window_rel_first:
  assumes "window_rel w S" "highest w = 0" "s \<noteq> 0"
  shows "Accept w s = (w\<lparr> highest := s, bitmap := 1 \<rparr>, True)" "acceptable S (unat s)"
    "window_rel (w\<lparr> highest := s, bitmap := 1 \<rparr>) (insert (unat s) S)"
proof -
  have S: "S = {}" using assms(1,2) by (simp add: window_rel_def)
  show "Accept w s = (w\<lparr> highest := s, bitmap := 1 \<rparr>, True)" using assms(2,3) by (simp add: Accept_def)
  show "window_rel (w\<lparr> highest := s, bitmap := 1 \<rparr>) (insert (unat s) S)"
    using assms(3) S by (auto simp: window_rel_def bit_simps unat_eq_0)
  show "acceptable S (unat s)" using assms(3) S by (simp add: acceptable_def unat_eq_0)
qed

lemma Accept_cases:
  obtains "s = 0" | "s \<noteq> 0" "highest w = 0" | "highest w \<noteq> 0" "highest w < s"
    | "highest w \<noteq> 0" "\<not> highest w < s" "s \<noteq> 0"
  by blast

interpretation window: anti_replay Accept zeroWindow window_rel
proof
  show "window_rel zeroWindow {}" by (simp add: window_rel_def zeroWindow_def)
  show "finite S" if "window_rel w S" for w S using that by (simp add: window_rel_def)
  show "snd (Accept w s) \<longleftrightarrow> acceptable S (unat s)" if "window_rel w S" for w S s
    by (rule Accept_cases [where s = s and w = w])
       (use that in \<open>simp_all add: Accept_zero window_rel_first window_rel_above window_rel_below,
         simp_all add: acceptable_def\<close>)
  show "window_rel (fst (Accept w s)) (if snd (Accept w s) then insert (unat s) S else S)"
    if "window_rel w S" for w S s
    by (rule Accept_cases [where s = s and w = w])
       (use that in \<open>simp_all add: Accept_zero window_rel_first window_rel_above window_rel_below\<close>)
  show "fst (Accept w s) = w" if "\<not> snd (Accept w s)" for w s
    using that by (auto simp: Accept_def Let_def split: if_splits)
qed

section \<open>Properties\<close>

text \<open>C3: over any history of received sequence numbers the bitmap window of
  \<^verbatim>\<open>replay.go\<close> implements the set-based contract: no number is accepted twice, zero
  never is, and the next number is accepted exactly when it is non-zero, has not
  been accepted before, and is less than 64 below the largest accepted one.\<close>

theorem Accept_history:
  "\<exists>passed w. accepted_by Accept zeroWindow history = (passed, w)
     \<and> distinct passed \<and> 0 \<notin> set passed \<and> set passed \<subseteq> set history
     \<and> (snd (Accept w s) \<longleftrightarrow> acceptable (unat ` set passed) (unat s))"
  using window.accepted_by_fresh [OF window.seen_fresh, of history]
    window.verdict_after [of history s] window.accepted_subset [of zeroWindow history]
  by (cases "accepted_by Accept zeroWindow history") auto

end
