(* ===== verification/Transport.thy ===== *)
theory Transport
  imports Swan_Prelude
begin

text \<open>
  The NAT-T transport of \<^verbatim>\<open>src/transport\<close>: datagram kinds and frames
  (\<^verbatim>\<open>frame.go\<close>), the receive worker and the single transmit worker
  (\<^verbatim>\<open>workers.go\<close>).

  The injected wire is a parameter: a state of some type and functions that
  perform one \<^verbatim>\<open>Write\<close> or \<^verbatim>\<open>WriteBatch\<close> on it. A receive buffer is a backing taken
  from the pool; \<open>poolOut\<close> counts those not yet put back, and a packet or
  frame whose release hook is pending has its flag set. A channel is the list
  of what was sent on it; which case of a \<^verbatim>\<open>select\<close> fires is an argument.

  The lemmas show that classification undoes framing, that reading in batches
  delivers the same packets as reading singly, that the receive loop delivers
  every packet once and in order in batches of at most 32, and that the
  transmit worker writes the queued frames in order and releases them.
\<close>

section \<open>Frames\<close>

abbreviation (input) "MaxWireDatagram \<equiv> (65535::nat)"
abbreviation (input) "LogicalNatTPort \<equiv> (4500::int)"
abbreviation (input) "NonESPMarkerLen \<equiv> (4::nat)"

datatype Kind = KindIKE | KindESP | KindKeepalive

record Frame =
  FKind :: Kind
  FPayload :: bytes
  Frelease :: bool

definition SetRelease :: "Frame \<Rightarrow> Frame" where
  "SetRelease f = f\<lparr> Frelease := True \<rparr>"

definition FrameRelease :: "Frame \<Rightarrow> Frame" where
  "FrameRelease f = (if \<not> Frelease f then f else f\<lparr> Frelease := False, FPayload := [] \<rparr>)"

record Packet =
  PKind :: Kind
  PPayload :: bytes
  Prelease :: bool

text \<open>\<open>PacketRelease\<close> also reports whether the hook ran, that is, whether a backing went
  back to the pool.\<close>

definition PacketRelease :: "Packet \<Rightarrow> Packet \<times> bool" where
  "PacketRelease p =
    (if \<not> Prelease p then (p, False) else (p\<lparr> Prelease := False, PPayload := [] \<rparr>, True))"

fun zeros :: "bytes \<Rightarrow> bool" where
  "zeros [] = True"
| "zeros (v # b) = (if v \<noteq> 0 then False else zeros b)"

definition Classify :: "bytes \<Rightarrow> Kind" where
  "Classify payload =
    (if length payload = 1 \<and> payload ! 0 = 0xff then KindKeepalive
     else if length payload \<ge> NonESPMarkerLen \<and> zeros (take NonESPMarkerLen payload) then KindIKE
     else KindESP)"

datatype Addr =
    NilAddr
  | TCPAddr bytes int string
  | UDPAddr bytes int string
  | OtherAddr string

fun LogicalAddr :: "Addr \<Rightarrow> Addr" where
  "LogicalAddr NilAddr = NilAddr"
| "LogicalAddr (TCPAddr ip port zone) = TCPAddr ip LogicalNatTPort zone"
| "LogicalAddr (UDPAddr ip port zone) = UDPAddr ip LogicalNatTPort zone"
| "LogicalAddr a = a"

section \<open>Receive worker\<close>

abbreviation (input) "rxBatch \<equiv> (32::nat)"

record RxWorker =
  keepalives :: "64 word"
  poolOut :: nat
  ctlOut :: "Packet list"
  espOut :: "Packet list"

definition NewRxWorker :: RxWorker where
  "NewRxWorker = \<lparr> keepalives = 0, poolOut = 0, ctlOut = [], espOut = [] \<rparr>"

definition poolGet :: "nat \<Rightarrow> RxWorker \<Rightarrow> RxWorker" where
  "poolGet n w = w\<lparr> poolOut := poolOut w + n \<rparr>"

definition poolPut :: "nat \<Rightarrow> RxWorker \<Rightarrow> RxWorker" where
  "poolPut n w = w\<lparr> poolOut := poolOut w - n \<rparr>"

text \<open>\<open>sent\<close>: the channel send fired, not the close of the worker.\<close>

definition classifyAndDeliver :: "bool \<Rightarrow> bytes \<Rightarrow> RxWorker \<Rightarrow> RxWorker \<times> bool" where
  "classifyAndDeliver sent payload w =
    (case Classify payload of
       KindKeepalive \<Rightarrow> (poolPut 1 (w\<lparr> keepalives := keepalives w + 1 \<rparr>), True)
     | KindIKE \<Rightarrow>
         let pkt = \<lparr> PKind = KindIKE, PPayload = drop NonESPMarkerLen payload, Prelease = True \<rparr> in
         if sent then (w\<lparr> ctlOut := ctlOut w @ [pkt] \<rparr>, True)
         else (poolPut 1 w, False)
     | KindESP \<Rightarrow>
         let pkt = \<lparr> PKind = KindESP, PPayload = payload, Prelease = True \<rparr> in
         if sent then (w\<lparr> espOut := espOut w @ [pkt] \<rparr>, True)
         else (poolPut 1 w, False))"

text \<open>The outcomes of one round of the reader goroutine: the worker was asked to close
  before the read, the read failed (with the close request seen then, and whether the
  error was handed over before the close), or a datagram arrived.\<close>

datatype readStep =
    Closing
  | ReadFail error bool bool
  | Datagram bytes bool

text \<open>\<open>read\<close> returns the worker, the error reported to \<^verbatim>\<open>Run\<close>, and whether it stopped.\<close>

fun read :: "readStep list \<Rightarrow> RxWorker \<Rightarrow> RxWorker \<times> error option \<times> bool" where
  "read [] w = (w, None, False)"
| "read (Closing # steps) w = (w, None, True)"
| "read (ReadFail e closing sent # steps) w =
    (let w = poolPut 1 (poolGet 1 w) in
     if e = EOF \<and> closing then (w, None, True)
     else (w, if sent then Some e else None, True))"
| "read (Datagram b sent # steps) w =
    (let (w, ok) = classifyAndDeliver sent b (poolGet 1 w) in
     if \<not> ok then (w, None, True) else read steps w)"

text \<open>The loop over the datagrams of one \<^verbatim>\<open>ReadBatch\<close>; \<open>left\<close> counts the backings of the
  slots after the current one, which an abort returns.\<close>

fun deliverAll :: "(bytes \<times> bool) list \<Rightarrow> nat \<Rightarrow> RxWorker \<Rightarrow> RxWorker \<times> bool" where
  "deliverAll [] left w = (poolPut left w, True)"
| "deliverAll ((b, sent) # ds) left w =
    (let (w, ok) = classifyAndDeliver sent b w in
     if \<not> ok then (poolPut (left - 1) w, False) else deliverAll ds (left - 1) w)"

datatype batchStep =
    BatchClosing
  | Batch "(bytes \<times> bool) list" "(error \<times> bool \<times> bool) option"

fun readBatched :: "batchStep list \<Rightarrow> RxWorker \<Rightarrow> RxWorker \<times> error option \<times> bool" where
  "readBatched [] w = (w, None, False)"
| "readBatched (BatchClosing # steps) w = (w, None, True)"
| "readBatched (Batch ds err # steps) w =
    (let (w, ok) = deliverAll ds rxBatch (poolGet rxBatch w) in
     if \<not> ok then (w, None, True)
     else case err of
       Some (e, closing, sent) \<Rightarrow>
         if e = EOF \<and> closing then (w, None, True)
         else (w, if sent then Some e else None, True)
     | None \<Rightarrow> readBatched steps w)"

subsection \<open>The batching loop\<close>

text \<open>The state of \<^verbatim>\<open>Run\<close>: the partial batch, the fast-path flag, the batches sent on
  \<^verbatim>\<open>esp\<close>, and the packets released undelivered.\<close>

record RxRun =
  batch :: "Packet list"
  fastOK :: bool
  delivered :: "Packet list list"
  dropped :: "Packet list"

definition NewRxRun :: RxRun where
  "NewRxRun = \<lparr> batch = [], fastOK = True, delivered = [], dropped = [] \<rparr>"

text \<open>What a round of the select yields; the flag says whether a batch send, if one is
  attempted, fires before the close of the worker.\<close>

datatype rxEvent =
    RxClosed
  | RxReadErr error bool
  | RxPacket "Packet option" bool
  | RxTick bool

definition releaseBatch :: "RxRun \<Rightarrow> RxRun" where
  "releaseBatch r = r\<lparr> batch := [], dropped := dropped r @ batch r \<rparr>"

definition deliverBatch :: "bool \<Rightarrow> RxRun \<Rightarrow> RxRun \<times> bool" where
  "deliverBatch sent r =
    (if sent then (r\<lparr> batch := [], delivered := delivered r @ [batch r] \<rparr>, True)
     else (releaseBatch r, False))"

text \<open>One round: the state, and the result of \<^verbatim>\<open>Run\<close> when it returns (None as its error is
  a nil error).\<close>

definition rxStep :: "rxEvent \<Rightarrow> RxRun \<Rightarrow> RxRun \<times> error option option" where
  "rxStep ev r =
    (case ev of
       RxClosed \<Rightarrow> (releaseBatch r, Some None)
     | RxReadErr e closing \<Rightarrow>
         (releaseBatch r, Some (if e = EOF \<and> closing then None else Some e))
     | RxPacket None sent \<Rightarrow> (r, None)
     | RxPacket (Some pkt) sent \<Rightarrow>
         let r = r\<lparr> batch := batch r @ [pkt] \<rparr> in
         if length (batch r) \<ge> rxBatch then
           let (r, ok) = deliverBatch sent r in
           if \<not> ok then (r, Some None) else (r\<lparr> fastOK := True \<rparr>, None)
         else if fastOK r then
           let (r, ok) = deliverBatch sent r in
           if \<not> ok then (r, Some None) else (r\<lparr> fastOK := False \<rparr>, None)
         else (r, None)
     | RxTick sent \<Rightarrow>
         if length (batch r) = 0 then (r, None)
         else let (r, ok) = deliverBatch sent r in
           if \<not> ok then (r, Some None) else (r\<lparr> fastOK := True \<rparr>, None))"

fun rxRun :: "rxEvent list \<Rightarrow> RxRun \<Rightarrow> RxRun \<times> error option option" where
  "rxRun [] r = (r, None)"
| "rxRun (ev # evs) r =
    (case rxStep ev r of
       (r, Some res) \<Rightarrow> (r, Some res)
     | (r, None) \<Rightarrow> rxRun evs r)"

section \<open>Transmit worker\<close>

abbreviation (input) "writeBatchLen \<equiv> (32::nat)"

definition shapedPayload :: "Frame \<Rightarrow> bytes res" where
  "shapedPayload f =
    (case FKind f of
       KindKeepalive \<Rightarrow> Inr [0xff]
     | KindIKE \<Rightarrow>
         let tot = NonESPMarkerLen + length (FPayload f) in
         if tot > MaxWireDatagram
         then Inl (Errorf ''github.com/wsm25/swan/transport: ike frame payload exceeds limit'')
         else Inr (replicate NonESPMarkerLen 0 @ FPayload f)
     | KindESP \<Rightarrow>
         if length (FPayload f) > MaxWireDatagram
         then Inl (Errorf ''github.com/wsm25/swan/transport: esp frame payload exceeds limit'')
         else Inr (FPayload f))"

type_synonym 'w wireWrite = "'w \<Rightarrow> bytes \<Rightarrow> 'w \<times> int \<times> error option"
type_synonym 'w wireWriteBatch = "'w \<Rightarrow> bytes list \<Rightarrow> 'w \<times> int \<times> error option"

function writeAll :: "'w wireWrite \<Rightarrow> 'w \<Rightarrow> bytes \<Rightarrow> 'w \<times> error option" where
  "writeAll write w b =
    (if length b > 0 then
       let (w, n, err) = write w b in
       if n < 0 \<or> n > int (length b)
       then (w, Some (Errorf ''github.com/wsm25/swan/transport: invalid write count''))
       else case err of
         Some e \<Rightarrow> (w, Some e)
       | None \<Rightarrow>
           if n = 0 then (w, Some ErrShortWrite)
           else writeAll write w (drop (nat n) b)
     else (w, None))"
  by pat_completeness auto
termination
  by (relation "measure (\<lambda>(_, _, b). length b)") auto

declare writeAll.simps [simp del]

definition writeFrame :: "'w wireWrite \<Rightarrow> 'w \<Rightarrow> Frame \<Rightarrow> 'w \<times> Frame \<times> error option" where
  "writeFrame write w f =
    (case shapedPayload f of
       Inl e \<Rightarrow> (w, FrameRelease f, Some e)
     | Inr body \<Rightarrow> let (w, err) = writeAll write w body in (w, FrameRelease f, err))"

fun shapeAll :: "Frame list \<Rightarrow> bytes list res" where
  "shapeAll [] = Inr []"
| "shapeAll (f # fs) =
     bind_res (shapedPayload f) (\<lambda>body. bind_res (shapeAll fs) (\<lambda>bodies. Inr (body # bodies)))"

function writeBodies :: "'w wireWriteBatch \<Rightarrow> 'w \<Rightarrow> bytes list \<Rightarrow> 'w \<times> error option" where
  "writeBodies writeB w bodies =
    (if length bodies > 0 then
       let (w, n, err) = writeB w bodies in
       if n < 0 \<or> n > int (length bodies)
       then (w, Some (Errorf ''github.com/wsm25/swan/transport: invalid batch write count''))
       else case err of
         Some e \<Rightarrow> (w, Some e)
       | None \<Rightarrow>
           if n = 0 then (w, Some ErrShortWrite)
           else writeBodies writeB w (drop (nat n) bodies)
     else (w, None))"
  by pat_completeness auto
termination
  by (relation "measure (\<lambda>(_, _, b). length b)") auto

declare writeBodies.simps [simp del]

definition writeBatch ::
  "'w wireWriteBatch \<Rightarrow> 'w \<Rightarrow> Frame list \<Rightarrow> 'w \<times> Frame list \<times> error option" where
  "writeBatch writeB w frames =
    (case shapeAll frames of
       Inl e \<Rightarrow> (w, map FrameRelease frames, Some e)
     | Inr bodies \<Rightarrow>
         let (w, err) = writeBodies writeB w bodies in (w, map FrameRelease frames, err))"

fun writeFrames :: "'w wireWrite \<Rightarrow> 'w \<Rightarrow> Frame list \<Rightarrow> 'w \<times> Frame list \<times> error option" where
  "writeFrames write w [] = (w, [], None)"
| "writeFrames write w (f # fs) =
    (case writeFrame write w f of
       (w, f, Some e) \<Rightarrow> (w, f # fs, Some e)
     | (w, f, None) \<Rightarrow> (case writeFrames write w fs of (w, fs, err) \<Rightarrow> (w, f # fs, err)))"

text \<open>The state of the worker: the wire, the frames waiting in the channel (a nil frame is
  None) and whether it was closed, and the frames taken from it, after their writes.\<close>

record 'w TxState =
  txwire :: 'w
  txqueue :: "Frame option list"
  txqclosed :: bool
  txdone :: "Frame list"

text \<open>The collection of a burst: up to \<open>n\<close> further receives, skipping nil frames.\<close>

fun burst :: "nat \<Rightarrow> 'a option list \<Rightarrow> 'a list \<times> 'a option list" where
  "burst 0 q = ([], q)"
| "burst (Suc n) [] = ([], [])"
| "burst (Suc n) (None # q) = burst n q"
| "burst (Suc n) (Some f # q) = (let (fs, q) = burst n q in (f # fs, q))"

text \<open>The round in which a frame is received: the new state and, when \<^verbatim>\<open>Run\<close> returns, its
  result. \<open>bw\<close> is the batch capability of the wire, if it has one.\<close>

definition txStep ::
  "'w wireWrite \<Rightarrow> 'w wireWriteBatch option \<Rightarrow> 'w TxState \<Rightarrow> 'w TxState \<times> error option option" where
  "txStep write bw s =
    (case txqueue s of
       [] \<Rightarrow> (s, if txqclosed s then Some None else None)
     | None # q \<Rightarrow> (s\<lparr> txqueue := q \<rparr>, None)
     | Some f # q \<Rightarrow>
         let (fs, q) = burst writeBatchLen q; frames = f # fs;
             (w, frames, err) = (case bw of
                 Some writeB \<Rightarrow> writeBatch writeB (txwire s) frames
               | None \<Rightarrow> writeFrames write (txwire s) frames);
             s = s\<lparr> txwire := w, txqueue := q, txdone := txdone s @ frames \<rparr>
         in (s, case err of Some e \<Rightarrow> Some (Some e) | None \<Rightarrow> None))"

text \<open>The drain after \<^verbatim>\<open>Close\<close>: one frame at a time until the queue is empty.\<close>

fun txDrain :: "'w wireWrite \<Rightarrow> 'w \<Rightarrow> Frame option list \<Rightarrow> Frame list
    \<Rightarrow> 'w \<times> Frame option list \<times> Frame list \<times> error option" where
  "txDrain write w [] acc = (w, [], acc, None)"
| "txDrain write w (None # q) acc = txDrain write w q acc"
| "txDrain write w (Some f # q) acc =
    (case writeFrame write w f of
       (w, f, Some e) \<Rightarrow> (w, q, acc @ [f], Some e)
     | (w, f, None) \<Rightarrow> txDrain write w q (acc @ [f]))"

definition txClose :: "'w wireWrite \<Rightarrow> 'w TxState \<Rightarrow> 'w TxState \<times> error option" where
  "txClose write s =
    (case txDrain write (txwire s) (txqueue s) (txdone s) of
       (w, q, acc, err) \<Rightarrow> (s\<lparr> txwire := w, txqueue := q, txdone := acc \<rparr>, err))"

text \<open>The loop of \<^verbatim>\<open>Run\<close> over the frames that are queued: it waits when the queue is empty
  and returns when the channel is closed or a write fails.\<close>

lemma burst_shorter: "burst n q = (fs, q') \<Longrightarrow> length q' \<le> length q"
  by (induction n q arbitrary: fs q' rule: burst.induct) (force simp: Let_def split: prod.splits)+

lemma txStep_shorter:
  assumes "txqueue s \<noteq> []" "(s', r) = txStep wr bw s"
  shows "length (txqueue s') < length (txqueue s)"
proof -
  obtain x q where q: "txqueue s = x # q" using assms(1) by (cases "txqueue s") auto
  then have "length (txqueue s') \<le> length q"
    using assms(2) burst_shorter [of writeBatchLen q]
    by (cases x) (auto simp: txStep_def Let_def split: prod.splits)
  then show ?thesis using q by simp
qed

function txLoop ::
  "'w wireWrite \<Rightarrow> 'w wireWriteBatch option \<Rightarrow> 'w TxState \<Rightarrow> 'w TxState \<times> error option option" where
  "txLoop write bw s =
    (if txqueue s = [] then (s, if txqclosed s then Some None else None)
     else case txStep write bw s of
       (s, Some res) \<Rightarrow> (s, Some res)
     | (s, None) \<Rightarrow> txLoop write bw s)"
  by pat_completeness auto
termination
  by (relation "measure (\<lambda>(_, _, s). length (txqueue s))") (simp_all add: txStep_shorter)

declare txLoop.simps [simp del]

section \<open>Lemmas: classification and framing\<close>

lemma zeros_replicate [simp]: "zeros (replicate n 0)"
  by (induction n) auto

lemma zeros_iff: "zeros b \<longleftrightarrow> b = replicate (length b) 0"
  by (induction b) auto

text \<open>A payload an ESP frame may carry: neither a keepalive nor the non-ESP marker, which
  every datagram with a non-zero SPI satisfies.\<close>

definition esp_shaped :: "bytes \<Rightarrow> bool" where
  "esp_shaped b \<longleftrightarrow> Classify b = KindESP"

lemma esp_shaped_SPI: "length b \<ge> 8 \<Longrightarrow> take 4 b \<noteq> [0, 0, 0, 0] \<Longrightarrow> esp_shaped b"
  by (auto simp: esp_shaped_def Classify_def zeros_iff eval_nat_numeral)

section \<open>Lemmas: receiving\<close>

lemmas pool_defs = poolGet_def poolPut_def

text \<open>What one datagram does to the counters and channels, whatever the pool holds.\<close>

lemma classifyAndDeliver_poolGet:
  "classifyAndDeliver sent b (poolGet 1 (poolGet n w))
     = map_prod (poolGet n) id (classifyAndDeliver sent b (poolGet 1 w))"
  by (simp add: classifyAndDeliver_def pool_defs Let_def split: Kind.splits)

lemma poolPut_Get [simp]: "poolPut n (poolGet n w) = w"
  by (simp add: pool_defs)

lemma poolPut_Get_add: "poolPut n (poolGet (m + n) w) = poolGet m w"
  by (simp add: pool_defs)

text \<open>The reads of one batch as single reads.\<close>

fun single_reads :: "(bytes \<times> bool) list \<Rightarrow> readStep list" where
  "single_reads [] = []"
| "single_reads ((b, sent) # ds) = Datagram b sent # single_reads ds"

lemma read_append:
  "read (s1 @ s2) w = (case read s1 w of (w', e, True) \<Rightarrow> (w', e, True) | (w', e, False) \<Rightarrow> read s2 w')"
proof (induction s1 w rule: read.induct)
  case (4 b sent steps w)
  then show ?case by (cases "classifyAndDeliver sent b (poolGet 1 w)") simp
qed (simp_all add: Let_def)

lemma deliverAll_read:
  "length ds \<le> n \<Longrightarrow> deliverAll ds n (poolGet n w)
     = (case read (single_reads ds) w of (w', e, stopped) \<Rightarrow> (w', \<not> stopped))"
proof (induction ds arbitrary: n w)
  case (Cons d ds)
  obtain b sent where d: "d = (b, sent)" by (cases d)
  obtain m where n: "n = Suc m" "length ds \<le> m" using Cons.prems by (cases n) auto
  obtain w' ok where c: "classifyAndDeliver sent b (poolGet 1 w) = (w', ok)" by fastforce
  have "poolGet n w = poolGet 1 (poolGet m w)" by (simp add: pool_defs n)
  then have "classifyAndDeliver sent b (poolGet n w) = (poolGet m w', ok)"
    using classifyAndDeliver_poolGet [of sent b m w] c by simp
  then show ?case using Cons.IH [OF n(2), of w'] c by (simp add: d n Let_def)
qed simp

text \<open>A round of the batch reader as single reads: its datagrams, then its error.\<close>

fun unbatch :: "batchStep \<Rightarrow> readStep list" where
  "unbatch BatchClosing = [Closing]"
| "unbatch (Batch ds None) = single_reads ds"
| "unbatch (Batch ds (Some (e, closing, sent))) = single_reads ds @ [ReadFail e closing sent]"

lemma single_reads_no_err: "read (single_reads ds) w = (w', e, st) \<Longrightarrow> e = None"
  by (induction ds arbitrary: w) (auto simp: Let_def split: prod.splits if_splits)

lemma readBatched_unbatch:
  "\<forall>ds err. Batch ds err \<in> set steps \<longrightarrow> length ds \<le> rxBatch \<Longrightarrow>
     readBatched steps w = read (concat (map unbatch steps)) w"
proof (induction steps w rule: readBatched.induct)
  case (3 ds err steps w)
  obtain w' e st where r: "read (single_reads ds) w = (w', e, st)" by (metis prod_cases3)
  note e = single_reads_no_err [OF r]
  have d: "deliverAll ds rxBatch (poolGet rxBatch w) = (w', \<not> st)"
    using deliverAll_read [of ds rxBatch w] 3(2) r by auto
  show ?case
  proof (cases err)
    case None
    have "readBatched steps w' = read (concat (map unbatch steps)) w'" if "\<not> st"
      using 3(1) [of "(w', \<not> st)" w' "\<not> st"] d that None 3(2) by auto
    then show ?thesis using None d r e by (auto simp: read_append)
  next
    case (Some x)
    then show ?thesis using d r e by (cases x) (auto simp: read_append Let_def)
  qed
qed simp_all

subsection \<open>The batching loop\<close>

text \<open>The packets a sequence of select outcomes brings.\<close>

fun arrivals :: "rxEvent list \<Rightarrow> Packet list" where
  "arrivals [] = []"
| "arrivals (RxPacket (Some p) sent # evs) = p # arrivals evs"
| "arrivals (ev # evs) = arrivals evs"

definition rx_inv :: "RxRun \<Rightarrow> bool" where
  "rx_inv r \<longleftrightarrow> length (batch r) < rxBatch \<and> (\<forall>b \<in> set (delivered r). b \<noteq> [] \<and> length b \<le> rxBatch)"

definition rx_all :: "RxRun \<Rightarrow> Packet list" where
  "rx_all r = concat (delivered r) @ dropped r @ batch r"

lemma rx_fastOK [simp]:
  "rx_inv (r\<lparr> fastOK := b \<rparr>) = rx_inv r" "rx_all (r\<lparr> fastOK := b \<rparr>) = rx_all r"
  by (simp_all add: rx_inv_def rx_all_def)

lemma releaseBatch_inv:
  "rx_inv r \<Longrightarrow> rx_inv (releaseBatch r) \<and> rx_all (releaseBatch r) = rx_all r \<and> batch (releaseBatch r) = []"
  by (simp add: releaseBatch_def rx_inv_def rx_all_def)

lemma rxStep_Packet:
  "rxStep (RxPacket (Some p) sent) r =
    (if 31 \<le> length (batch r) \<or> fastOK r then
       if sent then (r\<lparr> batch := [], delivered := delivered r @ [batch r @ [p]],
                        fastOK := 31 \<le> length (batch r) \<rparr>, None)
       else (releaseBatch (r\<lparr> batch := batch r @ [p] \<rparr>), Some None)
     else (r\<lparr> batch := batch r @ [p] \<rparr>, None))"
  by (cases "31 \<le> length (batch r)"; cases "fastOK r"; cases sent)
     (simp_all add: rxStep_def Let_def deliverBatch_def)

lemma rxStep_Tick:
  "rxStep (RxTick sent) r =
    (if batch r = [] then (r, None)
     else if sent then (r\<lparr> batch := [], delivered := delivered r @ [batch r], fastOK := True \<rparr>, None)
     else (releaseBatch r, Some None))"
  by (simp add: rxStep_def deliverBatch_def)

lemma rxStep_other:
  "rxStep RxClosed r = (releaseBatch r, Some None)"
  "rxStep (RxReadErr e c) r = (releaseBatch r, Some (if e = EOF \<and> c then None else Some e))"
  "rxStep (RxPacket None sent) r = (r, None)"
  by (simp_all add: rxStep_def)

lemmas rxStep_simps = rxStep_Packet rxStep_Tick rxStep_other

text \<open>One round keeps the invariant and accounts for every packet.\<close>

definition rx_good :: "RxRun \<Rightarrow> rxEvent \<Rightarrow> RxRun \<times> error option option \<Rightarrow> bool" where
  "rx_good r ev out \<longleftrightarrow> rx_inv (fst out) \<and> rx_all (fst out) = rx_all r @ arrivals [ev]
     \<and> (if snd out = None then dropped (fst out) = [] else batch (fst out) = [])"

lemma rxStep_good:
  assumes "rx_inv r" "dropped r = []"
  shows "rx_good r ev (rxStep ev r)"
proof (cases ev)
  case (RxPacket x sent)
  show ?thesis
  proof (cases x)
    case (Some p)
    have "length (batch r) < 32" "\<forall>b \<in> set (delivered r). b \<noteq> [] \<and> length b \<le> 32"
      using assms(1) by (simp_all add: rx_inv_def)
    then show ?thesis using assms(2)
      by (auto simp: RxPacket Some rx_good_def rxStep_simps releaseBatch_def rx_inv_def rx_all_def)
  qed (use assms in \<open>simp add: RxPacket rx_good_def rxStep_simps\<close>)
qed (use assms in \<open>auto simp: rx_good_def rxStep_simps releaseBatch_def rx_inv_def rx_all_def\<close>)

lemma arrivals_Cons: "arrivals (ev # evs) = arrivals [ev] @ arrivals evs"
  by (cases "ev # evs" rule: arrivals.cases) simp_all

lemma rxRun_good:
  assumes "rx_inv r" "dropped r = []" "rxRun evs r = (r', res)"
  shows "rx_inv r' \<and> prefix (rx_all r') (rx_all r @ arrivals evs)
    \<and> (if res = None then rx_all r' = rx_all r @ arrivals evs \<and> dropped r' = [] else batch r' = [])"
  using assms
proof (induction evs arbitrary: r)
  case (Cons ev evs)
  obtain r1 res1 where s: "rxStep ev r = (r1, res1)" by fastforce
  have g: "rx_inv r1" "rx_all r1 = rx_all r @ arrivals [ev]"
    "if res1 = None then dropped r1 = [] else batch r1 = []"
    using rxStep_good [OF Cons.prems(1,2), of ev] s by (auto simp: rx_good_def)
  show ?case
  proof (cases res1)
    case None
    then have "rxRun evs r1 = (r', res)" using Cons.prems(3) s by simp
    then show ?thesis using Cons.IH [of r1] g None arrivals_Cons [of ev evs] by simp
  next
    case (Some x)
    then show ?thesis using Cons.prems(3) s g arrivals_Cons [of ev evs] by auto
  qed
qed simp

section \<open>Lemmas: transmitting\<close>

text \<open>A wire that accepts what it is given: one datagram per \<^verbatim>\<open>Write\<close>, and some non-empty
  prefix per \<^verbatim>\<open>WriteBatch\<close>. \<open>sent\<close> is the sequence of datagrams on it.\<close>

definition reliable_write :: "'w wireWrite \<Rightarrow> ('w \<Rightarrow> bytes list) \<Rightarrow> bool" where
  "reliable_write write sent \<longleftrightarrow>
     (\<forall>w b. b \<noteq> [] \<longrightarrow> (\<exists>w'. write w b = (w', int (length b), None) \<and> sent w' = sent w @ [b]))"

definition reliable_batch :: "'w wireWriteBatch \<Rightarrow> ('w \<Rightarrow> bytes list) \<Rightarrow> bool" where
  "reliable_batch writeB sent \<longleftrightarrow>
     (\<forall>w bs. bs \<noteq> [] \<longrightarrow> (\<exists>w' n. 0 < n \<and> n \<le> length bs \<and> writeB w bs = (w', int n, None)
        \<and> sent w' = sent w @ take n bs))"

lemma writeAll_reliable:
  assumes "reliable_write write sent" "b \<noteq> []"
  obtains w' where "writeAll write w b = (w', None)" "sent w' = sent w @ [b]"
proof -
  obtain w' where w': "write w b = (w', int (length b), None)" "sent w' = sent w @ [b]"
    using assms by (auto simp: reliable_write_def)
  have "writeAll write w b = writeAll write w' []"
    using assms(2) w'(1) by (subst writeAll.simps) simp
  then show thesis using that w'(2) by (simp add: writeAll.simps)
qed

lemma writeBodies_reliable:
  assumes "reliable_batch writeB sent"
  shows "\<exists>w'. writeBodies writeB w bs = (w', None) \<and> sent w' = sent w @ bs"
proof (induction "length bs" arbitrary: w bs rule: less_induct)
  case less
  show ?case
  proof (cases "bs = []")
    case True
    then show ?thesis by (simp add: writeBodies.simps)
  next
    case False
    then obtain w' n where n: "0 < n" "n \<le> length bs" "writeB w bs = (w', int n, None)"
      "sent w' = sent w @ take n bs"
      using assms unfolding reliable_batch_def by blast
    then have "writeBodies writeB w bs = writeBodies writeB w' (drop n bs)"
      using False by (subst writeBodies.simps) simp
    then show ?thesis using less [of "drop n bs" w'] n False by auto
  qed
qed

text \<open>A frame the worker can write: it fits, and its body is not empty.\<close>

definition writable :: "Frame \<Rightarrow> bool" where
  "writable f \<longleftrightarrow> (\<exists>b. shapedPayload f = Inr b \<and> b \<noteq> [])"

definition body_of :: "Frame \<Rightarrow> bytes" where
  "body_of f = projr (shapedPayload f)"

lemma writable_body: "writable f \<Longrightarrow> shapedPayload f = Inr (body_of f) \<and> body_of f \<noteq> []"
  by (auto simp: writable_def body_of_def)

lemma shapeAll_ok: "\<forall>f \<in> set fs. writable f \<Longrightarrow> shapeAll fs = Inr (map body_of fs)"
  by (induction fs) (auto dest: writable_body)

lemma writeFrames_reliable:
  assumes "reliable_write write sent" "\<forall>f \<in> set fs. writable f"
  shows "\<exists>w'. writeFrames write w fs = (w', map FrameRelease fs, None) \<and> sent w' = sent w @ map body_of fs"
  using assms(2)
proof (induction fs arbitrary: w)
  case (Cons f fs)
  obtain w1 where w1: "writeAll write w (body_of f) = (w1, None)" "sent w1 = sent w @ [body_of f]"
    using writeAll_reliable [OF assms(1)] writable_body Cons.prems by (metis list.set_intros(1))
  obtain w2 where w2: "writeFrames write w1 fs = (w2, map FrameRelease fs, None)"
    "sent w2 = sent w1 @ map body_of fs"
    using Cons.IH [of w1] Cons.prems by auto
  show ?case using w1 w2 writable_body [of f] Cons.prems by (simp add: writeFrame_def)
qed simp

lemma writeBatch_reliable:
  assumes "reliable_batch writeB sent" "\<forall>f \<in> set fs. writable f"
  shows "\<exists>w'. writeBatch writeB w fs = (w', map FrameRelease fs, None) \<and> sent w' = sent w @ map body_of fs"
  using writeBodies_reliable [OF assms(1), of w "map body_of fs"] shapeAll_ok [OF assms(2)]
  by (auto simp: writeBatch_def)

definition queued :: "'a option list \<Rightarrow> 'a list" where
  "queued q = map the (filter (\<lambda>x. x \<noteq> None) q)"

lemma queued_simps [simp]:
  "queued [] = []" "queued (None # q) = queued q" "queued (Some f # q) = f # queued q"
  by (simp_all add: queued_def)

lemma burst_queued: "burst n q = (fs, q') \<Longrightarrow> queued q = fs @ queued q'"
  by (induction n q arbitrary: fs q' rule: burst.induct) (auto simp: Let_def split: prod.splits)

lemma txStep_reliable:
  assumes "reliable_write write sent" "\<forall>wb \<in> set_option bw. reliable_batch wb sent"
    and "\<forall>f \<in> set (queued (txqueue s)). writable f" "txqueue s \<noteq> []"
  obtains s' fs where "txStep write bw s = (s', None)" "txqclosed s' = txqclosed s"
    "queued (txqueue s) = fs @ queued (txqueue s')"
    "sent (txwire s') = sent (txwire s) @ map body_of fs"
    "txdone s' = txdone s @ map FrameRelease fs"
proof (cases "txqueue s")
  case (Cons x q)
  show thesis
  proof (cases x)
    case None
    then show thesis using that [of "s\<lparr> txqueue := q \<rparr>" "[]"] Cons by (simp add: txStep_def)
  next
    case (Some f)
    obtain fs q' where b: "burst writeBatchLen q = (fs, q')" by fastforce
    have w: "\<forall>g \<in> set (f # fs). writable g"
      using assms(3) Cons Some burst_queued [OF b] by auto
    obtain w' where "(case bw of Some writeB \<Rightarrow> writeBatch writeB (txwire s) (f # fs)
          | None \<Rightarrow> writeFrames write (txwire s) (f # fs)) = (w', map FrameRelease (f # fs), None)"
      "sent w' = sent (txwire s) @ map body_of (f # fs)"
      using writeFrames_reliable [OF assms(1) w, of "txwire s"]
        writeBatch_reliable [OF _ w, of _ sent "txwire s"] assms(2)
      by (cases bw) (auto simp del: writeFrames.simps)
    then show thesis
      using that [of "s\<lparr> txwire := w', txqueue := q', txdone := txdone s @ map FrameRelease (f # fs) \<rparr>" "f # fs"]
        Cons Some b burst_queued [OF b]
      by (simp add: txStep_def Let_def)
  qed
qed (use assms in simp)

lemma txLoop_reliable:
  assumes "reliable_write write sent" "\<forall>wb \<in> set_option bw. reliable_batch wb sent"
    and "\<forall>f \<in> set (queued (txqueue s)). writable f"
  shows "\<exists>s'. txLoop write bw s = (s', if txqclosed s then Some None else None) \<and> txqueue s' = []
    \<and> sent (txwire s') = sent (txwire s) @ map body_of (queued (txqueue s))
    \<and> txdone s' = txdone s @ map FrameRelease (queued (txqueue s))"
  using assms(3)
proof (induction "length (txqueue s)" arbitrary: s rule: less_induct)
  case less
  show ?case
  proof (cases "txqueue s = []")
    case True
    then show ?thesis by (simp add: txLoop.simps)
  next
    case False
    obtain s1 fs where s1: "txStep write bw s = (s1, None)" "txqclosed s1 = txqclosed s"
      "queued (txqueue s) = fs @ queued (txqueue s1)"
      "sent (txwire s1) = sent (txwire s) @ map body_of fs"
      "txdone s1 = txdone s @ map FrameRelease fs"
      by (rule txStep_reliable [OF assms(1,2) less.prems False])
    have "length (txqueue s1) < length (txqueue s)"
      using txStep_shorter [OF False, of s1 None] s1(1) by metis
    moreover have "txLoop write bw s = txLoop write bw s1"
      using False s1(1) by (subst txLoop.simps) simp
    ultimately show ?thesis using less.hyps [of s1] less.prems s1 by auto
  qed
qed

section \<open>Properties\<close>

text \<open>Classification undoes framing: a frame the transmit worker shapes is classified on
  the wire as its own kind (an ESP payload being one with the octets of a non-zero
  SPI), and an IKE frame is delivered with its payload, without the marker.\<close>

theorem Classify_shapedPayload:
  assumes "shapedPayload f = Inr b" "FKind f = KindESP \<longrightarrow> 8 \<le> length (FPayload f) \<and> take 4 (FPayload f) \<noteq> [0, 0, 0, 0]"
  shows "Classify b = FKind f
    \<and> (FKind f \<noteq> KindKeepalive \<longrightarrow> drop (if FKind f = KindIKE then NonESPMarkerLen else 0) b = FPayload f)"
proof (cases "FKind f")
  case KindESP
  then have "b = FPayload f" using assms(1) by (auto simp: shapedPayload_def split: if_splits)
  then show ?thesis using KindESP assms(2) esp_shaped_SPI [of b] by (simp add: esp_shaped_def)
next
  case KindIKE
  then show ?thesis using assms(1)
    by (auto simp: shapedPayload_def Let_def Classify_def split: if_splits)
qed (use assms in \<open>auto simp: shapedPayload_def Classify_def\<close>)

theorem Classify_shapedPayload_witness:
  "Classify [0, 0, 0, 0, 1, 2] = KindIKE \<and> drop 4 [0, 0, 0, 0, 1, 2] = [1, 2 :: byte]"
proof -
  have "replicate 4 (0 :: byte) = [0, 0, 0, 0]" by (simp add: numeral_eq_Suc)
  then have "shapedPayload \<lparr> FKind = KindIKE, FPayload = [1, 2], Frelease = False \<rparr> = Inr [0, 0, 0, 0, 1, 2]"
    by (simp add: shapedPayload_def)
  from Classify_shapedPayload [OF this] show ?thesis by simp
qed

text \<open>C33: reading in batches (\<^verbatim>\<open>readBatched\<close>) is observably the same as reading one datagram
  at a time (\<^verbatim>\<open>read\<close>): the same packets on both channels in the same order, the same
  keepalive count, the same error, and the same number of pooled buffers still out.\<close>

theorem readBatched_read:
  assumes "\<forall>ds err. Batch ds err \<in> set steps \<longrightarrow> length ds \<le> rxBatch"
  shows "readBatched steps w = read (concat (map unbatch steps)) w"
  using readBatched_unbatch [OF assms] .

theorem readBatched_read_witness:
  "readBatched [Batch [([255], True), ([1, 2, 3, 4, 5], True)] None, Batch [] (Some (EOF, False, True))] NewRxWorker
     = read [Datagram [255] True, Datagram [1, 2, 3, 4, 5] True, ReadFail EOF False True] NewRxWorker"
  using readBatched_read [of "[Batch [([255], True), ([1, 2, 3, 4, 5], True)] None, Batch [] (Some (EOF, False, True))]" NewRxWorker]
  by simp

text \<open>C34: the receive loop neither loses, duplicates nor reorders ESP packets: what it has
  delivered, released and still holds is the sequence of packets that arrived, up
  to the point where it returned; every batch it delivers has between 1 and 32
  packets, and when it returns no packet is left in a partial batch.\<close>

theorem rxRun_accounts:
  "\<exists>r res. rxRun evs NewRxRun = (r, res)
     \<and> prefix (concat (delivered r) @ dropped r @ batch r) (arrivals evs)
     \<and> (\<forall>b \<in> set (delivered r). b \<noteq> [] \<and> length b \<le> rxBatch) \<and> length (batch r) < rxBatch
     \<and> (if res = None then concat (delivered r) @ batch r = arrivals evs \<and> dropped r = []
        else batch r = [])"
proof -
  obtain r res where r: "rxRun evs NewRxRun = (r, res)" by fastforce
  have "rx_inv NewRxRun" "dropped NewRxRun = []" "rx_all NewRxRun = []"
    by (simp_all add: rx_inv_def rx_all_def NewRxRun_def)
  with rxRun_good [OF this(1,2) r] have g: "rx_inv r" "prefix (rx_all r) (arrivals evs)"
    "if res = None then rx_all r = arrivals evs \<and> dropped r = [] else batch r = []" by simp_all
  have "if res = None then concat (delivered r) @ batch r = arrivals evs \<and> dropped r = [] else batch r = []"
    using g(3) by (cases res) (auto simp: rx_all_def)
  moreover have "\<forall>b \<in> set (delivered r). b \<noteq> [] \<and> length b \<le> rxBatch" "length (batch r) < rxBatch"
    using g(1) unfolding rx_inv_def by blast+
  ultimately show ?thesis using r g(2) [unfolded rx_all_def] by blast
qed

theorem rxRun_accounts_witness:
  "\<exists>r. rxRun [RxPacket (Some \<lparr> PKind = KindESP, PPayload = [7], Prelease = True \<rparr>) True, RxClosed] NewRxRun = (r, Some None)
     \<and> delivered r = [[\<lparr> PKind = KindESP, PPayload = [7], Prelease = True \<rparr>]] \<and> length (batch r) < 32"
  using rxRun_accounts [of "[RxPacket (Some \<lparr> PKind = KindESP, PPayload = [7], Prelease = True \<rparr>) True, RxClosed]"]
  by (auto simp: NewRxRun_def rxStep_simps releaseBatch_def)

text \<open>C35: on a wire that accepts what it is given, with or without batch writes, the
  transmit worker empties its queue, puts exactly the shaped datagrams of the queued
  frames on the wire in queue order, and releases every frame.\<close>

theorem txLoop_fifo:
  assumes "reliable_write write sent" "\<forall>wb \<in> set_option bw. reliable_batch wb sent"
    and "\<forall>f \<in> set (queued (txqueue s)). \<exists>b. shapedPayload f = Inr b \<and> b \<noteq> []"
  shows "\<exists>s'. txLoop write bw s = (s', if txqclosed s then Some None else None) \<and> txqueue s' = []
    \<and> map Inr (sent (txwire s')) = map Inr (sent (txwire s)) @ map shapedPayload (queued (txqueue s))
    \<and> txdone s' = txdone s @ map FrameRelease (queued (txqueue s))"
proof -
  have w: "\<forall>f \<in> set (queued (txqueue s)). writable f" using assms(3) by (simp add: writable_def)
  then have "map shapedPayload (queued (txqueue s)) = map Inr (map body_of (queued (txqueue s)))"
    using writable_body by auto
  then show ?thesis using txLoop_reliable [OF assms(1,2) w] by auto
qed

theorem txLoop_fifo_witness:
  "\<exists>s'. txLoop (\<lambda>w b. (w @ [b], int (length b), None)) (Some (\<lambda>w bs. (w @ take 1 bs, 1, None)))
       \<lparr> txwire = [], txqueue = [Some \<lparr> FKind = KindKeepalive, FPayload = [], Frelease = False \<rparr>, None,
           Some \<lparr> FKind = KindESP, FPayload = [9], Frelease = False \<rparr>], txqclosed = True, txdone = [] \<rparr>
     = (s', Some None) \<and> txwire s' = [[255], [9]]"
proof -
  have w: "reliable_write (\<lambda>w b. (w @ [b], int (length b), None)) (\<lambda>w. w)"
    "reliable_batch (\<lambda>w bs. (w @ take 1 bs, 1, None)) (\<lambda>w. w)"
    by (auto simp: reliable_write_def reliable_batch_def neq_Nil_conv intro!: exI [of _ 1])
  show ?thesis
    using txLoop_fifo [OF w(1), of "Some (\<lambda>w bs. (w @ take 1 bs, 1, None))"
        "\<lparr> txwire = [], txqueue = [Some \<lparr> FKind = KindKeepalive, FPayload = [], Frelease = False \<rparr>, None,
           Some \<lparr> FKind = KindESP, FPayload = [9], Frelease = False \<rparr>], txqclosed = True, txdone = [] \<rparr>"] w(2)
    by (auto simp: shapedPayload_def map_eq_Cons_conv)
qed

end
