(* ===== verification/Esp.thy ===== *)
theory Esp
  imports Esp_Replay Transport Xcrypto_Suite
begin

text \<open>
  The ESP data plane of \<^verbatim>\<open>src/esp\<close>: the inbound codec (\<^verbatim>\<open>inflow.go\<close>), the outbound
  codec (\<^verbatim>\<open>outflow.go\<close>) and the pipeline that runs both (\<^verbatim>\<open>pipeline.go\<close>).

  A codec is a record of its fields; a pooled buffer is counted while it is out
  (\<open>inPoolOut\<close>), its contents being a value. The IV octets \<^verbatim>\<open>Fill\<close> draws are an
  argument. The rekey trigger channel is the count of trigger sends. A nil
  pointer that the code would dereference yields \<open>Panic\<close>.

  The lemmas show that what one side encrypts the other side delivers, that an
  inbound datagram that is not delivered changes nothing (so a forged datagram
  cannot move the replay window), that no datagram is delivered twice, that
  outbound sequence numbers are used in order and at most once, that the
  sequence wrap is permanent, and that the pipeline's SPI table keeps the old
  codec working through a replacement.
\<close>

section \<open>Inbound codec\<close>

abbreviation (input) "espHeaderLen \<equiv> (8::nat)"
abbreviation (input) "nextHeaderIPv4 \<equiv> (4::byte)"
abbreviation (input) "nextHeaderIPv6 \<equiv> (41::byte)"

text \<open>The two pointers of \<^verbatim>\<open>xcrypto.Selection\<close> the data plane reads.\<close>

record EspSelection =
  espEncryption :: "EncryptionAlg option"
  espIntegrity :: "Integrity option"

record InboundConfig =
  inSPI :: "32 word"
  inSelection :: "EspSelection option"
  inKeys :: "ChildKeys option"

record Inbound =
  inCfg :: InboundConfig
  inWindow :: ReplayWindow
  inEnc :: "PreparedEncryption option"
  inInteg :: "PreparedIntegrity option"
  inStateErr :: "error option"
  inPoolOut :: nat

text \<open>The keyed states both directions prepare, from the key pair of the direction.\<close>

definition prepareCodec ::
  "string \<Rightarrow> EspSelection option \<Rightarrow> (bytes \<times> bytes) option
     \<Rightarrow> (PreparedEncryption \<times> PreparedIntegrity option) res" where
  "prepareCodec dir sel keys =
    (case (sel, Option.bind sel espEncryption, keys) of
       (Some sel, Some enc, Some (ke, ka)) \<Rightarrow>
         (case Prepare enc ke of
            Inl e \<Rightarrow> Inl (Errorf ''github.com/wsm25/swan/esp: prepare ESP encryption'')
          | Inr state \<Rightarrow>
              if AEAD enc then Inr (state, None)
              else case espIntegrity sel of
                None \<Rightarrow> Inl (Errorf ''github.com/wsm25/swan/esp: CBC requires an integrity transform'')
              | Some i \<Rightarrow>
                  (case PrepareIntegrity i ka of
                     Inl e \<Rightarrow> Inl (Errorf ''github.com/wsm25/swan/esp: prepare ESP integrity'')
                   | Inr integ \<Rightarrow> Inr (state, Some integ)))
     | _ \<Rightarrow> Inl (Errorf (''github.com/wsm25/swan/esp: '' @ dir @ '' configuration is incomplete'')))"

definition prepareInbound :: "InboundConfig \<Rightarrow> (PreparedEncryption \<times> PreparedIntegrity option) res" where
  "prepareInbound cfg =
     prepareCodec ''inbound'' (inSelection cfg) (map_option (\<lambda>k. (CSKer k, CSKar k)) (inKeys cfg))"

definition NewInbound :: "InboundConfig \<Rightarrow> Inbound" where
  "NewInbound cfg =
    (case prepareInbound cfg of
       Inl e \<Rightarrow> \<lparr> inCfg = cfg, inWindow = zeroWindow, inEnc = None, inInteg = None,
                  inStateErr = Some e, inPoolOut = 0 \<rparr>
     | Inr (state, integ) \<Rightarrow> \<lparr> inCfg = cfg, inWindow = zeroWindow, inEnc = Some state, inInteg = integ,
                  inStateErr = None, inPoolOut = 0 \<rparr>)"

definition AcceptSPI :: "Inbound \<Rightarrow> bytes \<Rightarrow> bool" where
  "AcceptSPI p datagram \<longleftrightarrow>
     \<not> length datagram < espHeaderLen \<and> beUint32 (take 4 datagram) = inSPI (inCfg p)"

text \<open>The steps of \<^verbatim>\<open>ProcessPooled\<close> from the ICV length to the plaintext.\<close>

definition decryptESP :: "Inbound \<Rightarrow> EncryptionAlg \<Rightarrow> Integrity option \<Rightarrow> PreparedEncryption \<Rightarrow> bytes
    \<Rightarrow> bytes res" where
  "decryptESP p enc integ state datagram =
    bind_res (if AEAD enc then Inr (ICVLen enc)
              else case integ of
                None \<Rightarrow> Inl (Errorf ''github.com/wsm25/swan/esp: CBC requires an integrity transform'')
              | Some i \<Rightarrow> Inr (OutputLen i)) (\<lambda>icvLen.
    let body = drop espHeaderLen datagram in
    if length body < IVLen enc + icvLen
    then Inl (Errorf ''github.com/wsm25/swan/esp: ESP packet too short for IV and ICV'')
    else let iv = take (IVLen enc) body; rest = drop (IVLen enc) body in
      if AEAD enc
      then wrap_err ''github.com/wsm25/swan/esp: decrypt ESP''
             (OpenTo state [] iv (take espHeaderLen datagram) rest)
      else case inInteg p of
        None \<Rightarrow> Inl (Errorf ''github.com/wsm25/swan/esp: CBC requires an integrity transform'')
      | Some pinteg \<Rightarrow>
          let cipherLen = length rest - icvLen; ciphertext = take cipherLen rest;
              receivedICV = drop cipherLen rest;
              authArea = take (length datagram - icvLen) datagram in
          if \<not> pVerify pinteg authArea receivedICV
          then Inl (Errorf ''github.com/wsm25/swan/esp: ESP integrity check failed'')
          else wrap_err ''github.com/wsm25/swan/esp: decrypt ESP'' (OpenTo state [] iv [] ciphertext))"

text \<open>The trailer: pad length, next header, inner packet.\<close>

definition stripTrailer :: "bytes \<Rightarrow> bytes res" where
  "stripTrailer plain =
    (if length plain < 2
     then Inl (Errorf ''github.com/wsm25/swan/esp: ESP plaintext is missing the trailer'')
     else let padLen = unat (plain ! (length plain - 2)); nextHeader = plain ! (length plain - 1) in
     if padLen + 2 > length plain
     then Inl (Errorf ''github.com/wsm25/swan/esp: ESP padding length does not fit the plaintext'')
     else if nextHeader \<noteq> nextHeaderIPv4 \<and> nextHeader \<noteq> nextHeaderIPv6
     then Inl (Errorf ''github.com/wsm25/swan/esp: unsupported inner protocol'')
     else let inner = take (length plain - padLen - 2) plain in
     if length inner = 0 then Inl (Errorf ''github.com/wsm25/swan/esp: empty inner packet'')
     else Inr inner)"

definition ProcessPooled :: "Inbound \<Rightarrow> bytes \<Rightarrow> Inbound \<times> bytes res" where
  "ProcessPooled p datagram =
    (case inStateErr p of
       Some e \<Rightarrow> (p, Inl e)
     | None \<Rightarrow>
    if \<not> AcceptSPI p datagram
    then (p, Inl (Errorf ''github.com/wsm25/swan/esp: ESP SPI does not match the inbound SPI''))
    else if length datagram < espHeaderLen
    then (p, Inl (Errorf ''github.com/wsm25/swan/esp: ESP packet too short for header''))
    else let sq = beUint32 (subslice datagram 4 8) in
    if sq = 0
    then (p, Inl (Errorf ''github.com/wsm25/swan/esp: ESP sequence number 0 is invalid''))
    else case bind_res (deref (inSelection (inCfg p))) (\<lambda>sel.
              bind_res (deref (espEncryption sel)) (\<lambda>enc.
              bind_res (deref (inEnc p)) (\<lambda>state.
              bind_res (decryptESP p enc (espIntegrity sel) state datagram) stripTrailer))) of
       Inl e \<Rightarrow> (p, Inl e)
     | Inr inner \<Rightarrow>
         let (w, ok) = Accept (inWindow p) sq in
         if \<not> ok
         then (p\<lparr> inWindow := w \<rparr>,
               Inl (Errorf ''github.com/wsm25/swan/esp: ESP replay window rejected the packet''))
         else (p\<lparr> inWindow := w, inPoolOut := inPoolOut p + 1 \<rparr>, Inr inner))"

text \<open>The release hook of a delivered packet, and \<^verbatim>\<open>Process\<close>, which copies and releases.\<close>

definition inRelease :: "Inbound \<Rightarrow> Inbound" where
  "inRelease p = p\<lparr> inPoolOut := inPoolOut p - 1 \<rparr>"

definition ProcessInbound :: "Inbound \<Rightarrow> bytes \<Rightarrow> Inbound \<times> bytes res" where
  "ProcessInbound p datagram =
    (case ProcessPooled p datagram of
       (p, Inl e) \<Rightarrow> (p, Inl e)
     | (p, Inr inner) \<Rightarrow> (inRelease p, Inr inner))"

section \<open>Outbound codec\<close>

record FlowLimit =
  limBytes :: "64 word"
  limPackets :: "64 word"

record OutboundConfig =
  outSPI :: "32 word"
  outSelection :: "EspSelection option"
  outKeys :: "ChildKeys option"
  WarnAt :: "32 word"
  FlowWarn :: bool
  outFlowLimit :: FlowLimit

record Outbound =
  outCfg :: OutboundConfig
  seq :: "32 word"
  wrapped :: bool
  packets :: "64 word"
  bytesOut :: "64 word"
  warned :: bool
  outEnc :: "PreparedEncryption option"
  outInteg :: "PreparedIntegrity option"
  outStateErr :: "error option"
  triggers :: nat

definition prepareOutbound :: "OutboundConfig \<Rightarrow> (PreparedEncryption \<times> PreparedIntegrity option) res" where
  "prepareOutbound cfg =
     prepareCodec ''outbound'' (outSelection cfg) (map_option (\<lambda>k. (CSKei k, CSKai k)) (outKeys cfg))"

definition NewOutbound :: "OutboundConfig \<Rightarrow> Outbound" where
  "NewOutbound cfg =
    (case prepareOutbound cfg of
       Inl e \<Rightarrow> \<lparr> outCfg = cfg, seq = 1, wrapped = False, packets = 0, bytesOut = 0, warned = False,
                  outEnc = None, outInteg = None, outStateErr = Some e, triggers = 0 \<rparr>
     | Inr (state, integ) \<Rightarrow>
                \<lparr> outCfg = cfg, seq = 1, wrapped = False, packets = 0, bytesOut = 0, warned = False,
                  outEnc = Some state, outInteg = integ, outStateErr = None, triggers = 0 \<rparr>)"

definition checkFlowTriggers :: "Outbound \<Rightarrow> Outbound" where
  "checkFlowTriggers p =
    (if warned p \<or> \<not> FlowWarn (outCfg p) then p
     else let lim = outFlowLimit (outCfg p);
              limitHit = limBytes lim > 0 \<and> bytesOut p \<ge> limBytes lim;
              limitHit = limitHit \<or> (limPackets lim > 0 \<and> packets p \<ge> limPackets lim);
              seqHit = WarnAt (outCfg p) > 0 \<and> seq p \<ge> WarnAt (outCfg p) in
       if \<not> limitHit \<and> \<not> seqHit then p
       else p\<lparr> warned := True, triggers := triggers p + 1 \<rparr>)"

definition ipNextHeader :: "byte \<Rightarrow> byte res" where
  "ipNextHeader firstByte =
    (if drop_bit 4 firstByte = 4 then Inr nextHeaderIPv4
     else if drop_bit 4 firstByte = 6 then Inr nextHeaderIPv6
     else Inl (Errorf ''github.com/wsm25/swan/esp: unsupported outbound IP version''))"

definition integOuterICV :: "Integrity option \<Rightarrow> nat" where
  "integOuterICV integ = (case integ of None \<Rightarrow> 0 | Some i \<Rightarrow> OutputLen i)"

text \<open>The padded plaintext: payload, pad octets 1, 2, ..., pad length, next header.\<close>

definition espPadLen :: "EncryptionAlg \<Rightarrow> bytes \<Rightarrow> nat" where
  "espPadLen enc packet = (BlockLen enc - (length packet + 2) mod BlockLen enc) mod BlockLen enc"

definition espPlain :: "EncryptionAlg \<Rightarrow> bytes \<Rightarrow> byte \<Rightarrow> bytes" where
  "espPlain enc packet nextHeader =
    (let padLen = espPadLen enc packet in
     packet @ map word_of_nat [1..<Suc padLen] @ [word_of_nat padLen, nextHeader])"

text \<open>The steps of \<^verbatim>\<open>process\<close> after the sequence number was taken.\<close>

definition sealESP :: "Outbound \<Rightarrow> EncryptionAlg \<Rightarrow> Integrity option \<Rightarrow> PreparedEncryption \<Rightarrow> 32 word
    \<Rightarrow> bytes \<Rightarrow> bytes \<Rightarrow> bytes res" where
  "sealESP p enc integ state sq iv plain =
    (let trailerICV = (if AEAD enc then ICVLen enc else integOuterICV integ);
         wireLen = espHeaderLen + IVLen enc + length plain + trailerICV in
     if wireLen > MaxWireDatagram
     then Inl (Errorf ''github.com/wsm25/swan/esp: encapsulated packet exceeds transport limit'')
     else let header = be32 (outSPI (outCfg p)) @ be32 sq in
       bind_res (wrap_err ''github.com/wsm25/swan/esp: encrypt ESP''
                   (SealTo state (header @ iv) iv header plain)) (\<lambda>datagram.
       if AEAD enc then Inr datagram
       else case outInteg p of
         None \<Rightarrow> Inl (Errorf ''github.com/wsm25/swan/esp: CBC requires an integrity transform'')
       | Some pinteg \<Rightarrow>
           bind_res (wrap_err ''github.com/wsm25/swan/esp: sign ESP ICV'' (pSign pinteg datagram)) (\<lambda>icv.
             Inr (datagram @ icv))))"

definition nextSeq :: "bytes \<Rightarrow> Outbound \<Rightarrow> Outbound" where
  "nextSeq packet p = checkFlowTriggers
     (p\<lparr> seq := seq p + 1, packets := packets p + 1,
         bytesOut := bytesOut p + word_of_nat (length packet) \<rparr>)"

definition process :: "bytes res \<Rightarrow> bytes \<Rightarrow> Outbound \<Rightarrow> Outbound \<times> bytes res" where
  "process rnd packet p =
    (if wrapped p then (p, Inl ErrSeqWrapped)
     else case outStateErr p of
       Some e \<Rightarrow> (p, Inl e)
     | None \<Rightarrow>
    if length packet = 0
    then (p, Inl (Errorf ''github.com/wsm25/swan/esp: outbound packet is empty''))
    else case bind_res (ipNextHeader (packet ! 0)) (\<lambda>nextHeader.
              bind_res (deref (outSelection (outCfg p))) (\<lambda>sel.
              bind_res (deref (espEncryption sel)) (\<lambda>enc.
              bind_res (deref (outEnc p)) (\<lambda>state.
              bind_res (wrap_err ''github.com/wsm25/swan/esp: generate ESP IV'' rnd) (\<lambda>iv.
                Inr (nextHeader, enc, espIntegrity sel, state, iv)))))) of
       Inl e \<Rightarrow> (p, Inl e)
     | Inr (nextHeader, enc, integ, state, iv) \<Rightarrow>
         if seq p = 0 then (p\<lparr> wrapped := True \<rparr>, Inl ErrSeqWrapped)
         else (nextSeq packet p,
               sealESP (nextSeq packet p) enc integ state (seq p) iv (espPlain enc packet nextHeader)))"

section \<open>Pipeline\<close>

abbreviation (input) "txBatch \<equiv> (32::nat)"

record InboundPacket =
  IP :: bytes
  ipRelease :: bool

definition InboundRelease :: "InboundPacket \<Rightarrow> InboundPacket" where
  "InboundRelease p = (if \<not> ipRelease p then p else p\<lparr> ipRelease := False, IP := [] \<rparr>)"

text \<open>The pipeline with its channels: the packets waiting on \<^verbatim>\<open>ipIn\<close> (a nil packet is
  None), the batches sent on \<^verbatim>\<open>ipOut\<close>, the frames sent on \<^verbatim>\<open>tx\<close>, the transport packets
  and frames released so far, the error reported on \<^verbatim>\<open>fatalOut\<close>, and the position in the
  source of random IVs.\<close>

record Pipeline =
  inbound :: "32 word \<Rightarrow> Inbound option"
  outbound :: "Outbound option"
  ipIn :: "bytes option list"
  ipOut :: "InboundPacket list list"
  tx :: "Frame list"
  inReleased :: "Packet list"
  unsentIP :: "InboundPacket list"
  unsentTx :: "Frame list"
  fatalOut :: "error option"
  ivCount :: nat

definition NewPipeline :: "Inbound option \<Rightarrow> Outbound option \<Rightarrow> Pipeline" where
  "NewPipeline i out =
    \<lparr> inbound = (case i of None \<Rightarrow> Map.empty | Some i \<Rightarrow> [inSPI (inCfg i) \<mapsto> i]), outbound = out,
      ipIn = [], ipOut = [], tx = [], inReleased = [], unsentIP = [], unsentTx = [],
      fatalOut = None, ivCount = 0 \<rparr>"

definition ReplaceChild :: "Inbound option \<Rightarrow> Outbound option \<Rightarrow> 32 word \<Rightarrow> Pipeline \<Rightarrow> Pipeline" where
  "ReplaceChild i out oldInboundSPI pl =
    (case i of
       None \<Rightarrow> pl
     | Some i \<Rightarrow>
         let table = (\<lambda>spi. if spi \<noteq> inSPI (inCfg i) then inbound pl spi else None);
             pl = pl\<lparr> inbound := table(inSPI (inCfg i) \<mapsto> i) \<rparr> in
         (case out of None \<Rightarrow> pl | Some o' \<Rightarrow> pl\<lparr> outbound := Some o' \<rparr>))"

definition DropInboundSPI :: "32 word \<Rightarrow> Pipeline \<Rightarrow> Pipeline" where
  "DropInboundSPI spi pl =
    (if spi = 0 then pl
     else if inbound pl spi = None then pl
     else pl\<lparr> inbound := (\<lambda>have. if have \<noteq> spi then inbound pl have else None) \<rparr>)"

text \<open>The table holds pointers, so a codec that processed a datagram is updated in place.\<close>

definition processInbound :: "Packet \<Rightarrow> Pipeline \<Rightarrow> Pipeline \<times> InboundPacket res" where
  "processInbound pkt pl =
    (if length (PPayload pkt) < 4
     then (pl, Inl (Errorf ''github.com/wsm25/swan/esp: ESP packet too short for SPI''))
     else let spi = beUint32 (take 4 (PPayload pkt)) in
       case inbound pl spi of
         None \<Rightarrow> (pl, Inl (Errorf ''github.com/wsm25/swan/esp: ESP SPI does not match a known inbound SPI''))
       | Some codec \<Rightarrow>
           (case ProcessPooled codec (PPayload pkt) of
              (codec, Inl e) \<Rightarrow> (pl\<lparr> inbound := (inbound pl)(spi \<mapsto> codec) \<rparr>, Inl e)
            | (codec, Inr ip) \<Rightarrow> (pl\<lparr> inbound := (inbound pl)(spi \<mapsto> codec) \<rparr>,
                                   Inr \<lparr> IP = ip, ipRelease = True \<rparr>)))"

definition releasePacket :: "Packet \<Rightarrow> Pipeline \<Rightarrow> Pipeline" where
  "releasePacket pkt pl = pl\<lparr> inReleased := inReleased pl @ [pkt] \<rparr>"

definition releasePackets :: "Packet option list \<Rightarrow> Pipeline \<Rightarrow> Pipeline" where
  "releasePackets pkts pl = pl\<lparr> inReleased := inReleased pl @ queued pkts \<rparr>"

definition releaseInbound :: "InboundPacket list \<Rightarrow> Pipeline \<Rightarrow> Pipeline" where
  "releaseInbound out pl = pl\<lparr> unsentIP := unsentIP pl @ out \<rparr>"

text \<open>The loop over a batch. \<open>stopAt\<close> is the number of packets after which a stop signal is
  seen (None: not during this batch). It returns the produced packets and whether the
  worker returned.\<close>

fun inboundBatch :: "nat option \<Rightarrow> Packet option list \<Rightarrow> InboundPacket list \<Rightarrow> Pipeline
    \<Rightarrow> Pipeline \<times> InboundPacket list \<times> bool" where
  "inboundBatch stopAt [] out pl = (pl, out, False)"
| "inboundBatch stopAt (pkt # bt) out pl =
    (if stopAt = Some 0 then (releasePackets (pkt # bt) (releaseInbound out pl), [], True)
     else let stopAt = map_option (\<lambda>n. n - 1) stopAt in
       case pkt of
         None \<Rightarrow> inboundBatch stopAt bt out pl
       | Some p \<Rightarrow>
           (case processInbound p pl of
              (pl, Inl e) \<Rightarrow> inboundBatch stopAt bt out (releasePacket p pl)
            | (pl, Inr ip) \<Rightarrow> inboundBatch stopAt bt (out @ [ip]) (releasePacket p pl)))"

text \<open>A round of the inbound worker: a stop signal, the close of \<^verbatim>\<open>espIn\<close>, or a batch
  (\<open>sent\<close>: the send on \<^verbatim>\<open>ipOut\<close> fired, not a stop). The flag says whether it returned.\<close>

datatype inEvent =
    InStop
  | InClosed
  | InBatch "nat option" bool "Packet option list"

definition runInbound :: "inEvent \<Rightarrow> Pipeline \<Rightarrow> Pipeline \<times> bool" where
  "runInbound ev pl =
    (case ev of
       InStop \<Rightarrow> (pl, True)
     | InClosed \<Rightarrow> (pl, True)
     | InBatch stopAt sent bt \<Rightarrow>
         (case inboundBatch stopAt bt [] pl of
            (pl, out, True) \<Rightarrow> (pl, True)
          | (pl, out, False) \<Rightarrow>
              if length out = 0 then (pl, False)
              else if sent then (pl\<lparr> ipOut := ipOut pl @ [out] \<rparr>, False)
              else (releaseInbound out pl, True)))"

definition reportFatal :: "error \<Rightarrow> Pipeline \<Rightarrow> Pipeline" where
  "reportFatal e pl = (case fatalOut pl of None \<Rightarrow> pl\<lparr> fatalOut := Some e \<rparr> | Some _ \<Rightarrow> pl)"

text \<open>The encryption loop over a group: the codec, the frames, the IV position, and whether
  the sequence wrapped. \<open>rnd\<close> is the source of IVs.\<close>

fun encryptAll :: "(nat \<Rightarrow> bytes res) \<Rightarrow> bytes list \<Rightarrow> nat \<Rightarrow> Outbound
    \<Rightarrow> Outbound \<times> Frame list \<times> nat \<times> bool" where
  "encryptAll rnd [] k p = (p, [], k, False)"
| "encryptAll rnd (pkt # pkts) k p =
    (case process (rnd k) pkt p of
       (p, Inl e) \<Rightarrow>
         if e = ErrSeqWrapped then (p, [], k + 1, True)
         else encryptAll rnd pkts (k + 1) p
     | (p, Inr datagram) \<Rightarrow>
         (case encryptAll rnd pkts (k + 1) p of
            (p, frames, k, fatal) \<Rightarrow>
              (p, if fatal then []
                  else SetRelease \<lparr> FKind = KindESP, FPayload = datagram, Frelease = False \<rparr> # frames,
               k, fatal)))"

text \<open>A round of the outbound worker over the packets that wait; \<open>stopAt\<close> is the number of
  frames sent before a stop signal. The flag says whether it returned.\<close>

definition runOutbound :: "(nat \<Rightarrow> bytes res) \<Rightarrow> nat option \<Rightarrow> Pipeline \<Rightarrow> Pipeline \<times> bool" where
  "runOutbound rnd stopAt pl =
    (case ipIn pl of
       [] \<Rightarrow> (pl, False)
     | None # q \<Rightarrow> (pl\<lparr> ipIn := q \<rparr>, False)
     | Some first # q \<Rightarrow>
         let (more_pkts, q) = burst txBatch q; pl = pl\<lparr> ipIn := q \<rparr> in
         (case outbound pl of
            None \<Rightarrow> (pl, True)
          | Some out \<Rightarrow>
              (case encryptAll rnd (first # more_pkts) (ivCount pl) out of
                 (out, frames, k, fatal) \<Rightarrow>
                   let pl = pl\<lparr> outbound := Some out, ivCount := k \<rparr> in
                   if fatal then (reportFatal ErrSeqWrapped pl, True)
                   else case stopAt of
                     None \<Rightarrow> (pl\<lparr> tx := tx pl @ frames \<rparr>, False)
                   | Some n \<Rightarrow>
                       if n < length frames
                       then (pl\<lparr> tx := tx pl @ take n frames, unsentTx := unsentTx pl @ drop n frames \<rparr>, True)
                       else (pl\<lparr> tx := tx pl @ frames \<rparr>, False))))"

section \<open>Lemmas: codecs\<close>

lemma espPadLen_less: "wf_enc enc \<Longrightarrow> espPadLen enc packet < 16"
  using wf_enc_BlockLen [of enc] by (auto simp: espPadLen_def)

lemma length_espPlain: "length (espPlain enc packet nh) = length packet + espPadLen enc packet + 2"
  by (simp add: espPlain_def Let_def)

lemma espPlain_aligned: "wf_enc enc \<Longrightarrow> length (espPlain enc packet nh) mod BlockLen enc = 0"
  using pad_to_block [of "BlockLen enc" "length packet + 2"] wf_enc_BlockLen [of enc]
  by (auto simp: length_espPlain espPadLen_def add.commute add.left_commute)

lemma stripTrailer_espPlain:
  assumes "wf_enc enc" "packet \<noteq> []" "nh = nextHeaderIPv4 \<or> nh = nextHeaderIPv6"
  shows "stripTrailer (espPlain enc packet nh) = Inr packet"
proof -
  define n where "n = espPadLen enc packet"
  define pre where "pre = packet @ map word_of_nat [1..<Suc n]"
  have n: "n < 16" using espPadLen_less [OF assms(1)] by (simp add: n_def)
  have plain: "espPlain enc packet nh = pre @ [word_of_nat n, nh]"
    by (simp add: espPlain_def Let_def pre_def n_def)
  have len: "length pre = length packet + n" by (simp add: pre_def)
  have "(pre @ [word_of_nat n, nh]) ! length pre = word_of_nat n"
    "(pre @ [word_of_nat n, nh]) ! Suc (length pre) = nh"
    by (simp_all add: nth_append)
  moreover have "take (length packet) (pre @ [word_of_nat n, nh]) = packet" by (simp add: pre_def)
  ultimately show ?thesis
    using n assms(2,3) len by (auto simp: stripTrailer_def plain Let_def)
qed

lemma ipNextHeader_cases: "ipNextHeader b = Inr nh \<Longrightarrow> nh = nextHeaderIPv4 \<or> nh = nextHeaderIPv6"
  by (auto simp: ipNextHeader_def split: if_splits)

text \<open>A sender and a receiver that share the SPI, the suite and the keys of a direction.\<close>

definition linked :: "Outbound \<Rightarrow> Inbound \<Rightarrow> bool" where
  "linked p q \<longleftrightarrow>
     outStateErr p = None \<and> inStateErr q = None \<and> outSPI (outCfg p) = inSPI (inCfg q)
     \<and> outSelection (outCfg p) = inSelection (inCfg q)
     \<and> outEnc p = inEnc q \<and> outInteg p = inInteg q
     \<and> (\<exists>sel enc ke ka state. inSelection (inCfg q) = Some sel \<and> espEncryption sel = Some enc
          \<and> wf_enc enc \<and> Prepare enc ke = Inr state \<and> inEnc q = Some state
          \<and> (\<not> AEAD enc \<longrightarrow> (\<exists>i pinteg. espIntegrity sel = Some i \<and> wf_integ i
               \<and> PrepareIntegrity i ka = Inr pinteg \<and> inInteg q = Some pinteg)))"

lemma sealESP_cases:
  assumes "sealESP p enc integ state sq iv plain = Inr d" "Prepare enc ke = Inr state"
  obtains c where "Seal enc ke iv (be32 (outSPI (outCfg p)) @ be32 sq) plain = Inr c"
    "AEAD enc \<Longrightarrow> d = be32 (outSPI (outCfg p)) @ be32 sq @ iv @ c"
    "\<And>pinteg. \<not> AEAD enc \<Longrightarrow> outInteg p = Some pinteg \<Longrightarrow>
       \<exists>icv. pSign pinteg (be32 (outSPI (outCfg p)) @ be32 sq @ iv @ c) = Inr icv
         \<and> d = be32 (outSPI (outCfg p)) @ be32 sq @ iv @ c @ icv"
  using assms(1) that
  by (auto simp: sealESP_def Let_def SealTo_Seal [OF assms(2)] split: if_splits option.splits)

lemma sealESP_header:
  assumes "sealESP p enc integ state sq iv plain = Inr d" "Prepare enc ke = Inr state"
  shows "\<exists>rest. d = be32 (outSPI (outCfg p)) @ be32 sq @ rest"
  using assms(1)
  by (auto simp: sealESP_def Let_def SealTo_Seal [OF assms(2)] split: if_splits option.splits)

lemma decryptESP_sealESP:
  assumes "linked p q" "inSelection (inCfg q) = Some sel" "espEncryption sel = Some enc"
    and "outEnc p = Some state" "sealESP p enc (espIntegrity sel) state sq iv plain = Inr d"
  shows "decryptESP q enc (espIntegrity sel) state d = Inr plain"
proof -
  obtain ke ka where k: "wf_enc enc" "Prepare enc ke = Inr state" "outInteg p = inInteg q"
    and integ: "\<not> AEAD enc \<Longrightarrow> \<exists>i pinteg. espIntegrity sel = Some i \<and> wf_integ i
               \<and> PrepareIntegrity i ka = Inr pinteg \<and> inInteg q = Some pinteg"
    using assms(1-4) by (auto simp: linked_def)
  let ?h = "be32 (outSPI (outCfg p)) @ be32 sq"
  obtain c where c: "Seal enc ke iv ?h plain = Inr c" "AEAD enc \<Longrightarrow> d = ?h @ iv @ c"
    "\<And>pinteg. \<not> AEAD enc \<Longrightarrow> outInteg p = Some pinteg \<Longrightarrow>
       \<exists>icv. pSign pinteg (?h @ iv @ c) = Inr icv \<and> d = ?h @ iv @ c @ icv"
    using sealESP_cases [OF assms(5) k(2)] by auto
  note iv = Seal_iv_length [OF c(1)]
  have o: "Open enc ke iv ?h c = Inr plain" "length c = length plain + ICVLen enc"
    using Open_Seal_aux [OF k(1) c(1)] by simp_all
  show ?thesis
  proof (cases "AEAD enc")
    case True
    then show ?thesis using c(2) iv o by (simp add: decryptESP_def OpenTo_Open [OF k(2)])
  next
    case False
    then obtain i pinteg where i: "espIntegrity sel = Some i" "wf_integ i"
      "PrepareIntegrity i ka = Inr pinteg" "inInteg q = Some pinteg" using integ by auto
    then obtain icv where d: "pSign pinteg (?h @ iv @ c) = Inr icv" "d = ?h @ iv @ c @ icv"
      using c(3) False k(3) by auto
    have sign: "Sign i ka (?h @ iv @ c) = Inr icv" using d(1) pSign_Sign [OF i(3)] by simp
    then have "length icv = OutputLen i" using length_Sign [OF i(2)] by simp
    moreover have "pVerify pinteg (?h @ iv @ c) icv"
      using sign pVerify_Verify [OF i(3)] Verify_Sign by simp
    moreover have "Open enc ke iv [] c = Inr plain" using o(1) Open_aad_irrelevant [OF False] by metis
    ultimately show ?thesis using False i d(2) iv
      by (simp add: decryptESP_def OpenTo_Open [OF k(2)] Let_def)
  qed
qed

text \<open>The outcomes of \<^verbatim>\<open>process\<close>.\<close>

lemma process_cases:
  assumes "process rnd packet p = (p', r)"
  obtains (unchanged) e where "p' = p" "r = Inl e"
  | (wrap) "\<not> wrapped p" "seq p = 0" "p' = p\<lparr> wrapped := True \<rparr>" "r = Inl ErrSeqWrapped"
  | (sealed) sel enc state nh iv where "\<not> wrapped p" "outStateErr p = None" "packet \<noteq> []"
      "ipNextHeader (packet ! 0) = Inr nh" "outSelection (outCfg p) = Some sel"
      "espEncryption sel = Some enc" "outEnc p = Some state" "rnd = Inr iv" "seq p \<noteq> 0"
      "p' = nextSeq packet p"
      "r = sealESP p' enc (espIntegrity sel) state (seq p) iv (espPlain enc packet nh)"
proof (cases "wrapped p \<or> outStateErr p \<noteq> None \<or> packet = []")
  case True
  then show thesis using assms that(1) by (auto simp: process_def split: if_splits option.splits)
next
  case False
  let ?m = "bind_res (ipNextHeader (packet ! 0)) (\<lambda>nextHeader.
              bind_res (deref (outSelection (outCfg p))) (\<lambda>sel.
              bind_res (deref (espEncryption sel)) (\<lambda>enc.
              bind_res (deref (outEnc p)) (\<lambda>state.
              bind_res (wrap_err ''github.com/wsm25/swan/esp: generate ESP IV'' rnd) (\<lambda>iv.
                Inr (nextHeader, enc, espIntegrity sel, state, iv))))))"
  have p: "process rnd packet p = (case ?m of Inl e \<Rightarrow> (p, Inl e)
     | Inr (nextHeader, enc, integ, state, iv) \<Rightarrow>
         if seq p = 0 then (p\<lparr> wrapped := True \<rparr>, Inl ErrSeqWrapped)
         else (nextSeq packet p,
               sealESP (nextSeq packet p) enc integ state (seq p) iv (espPlain enc packet nextHeader)))"
    using False by (simp add: process_def)
  show thesis
  proof (cases ?m)
    case (Inl e)
    then show thesis using assms p that(1) by auto
  next
    case (Inr x)
    then obtain nh sel enc state iv where "ipNextHeader (packet ! 0) = Inr nh"
      "outSelection (outCfg p) = Some sel" "espEncryption sel = Some enc" "outEnc p = Some state"
      "rnd = Inr iv" "x = (nh, enc, espIntegrity sel, state, iv)"
      by auto
    then show thesis using assms p False that(2,3) by (cases "seq p = 0") auto
  qed
qed

lemma nextSeq_simps [simp]:
  "outCfg (nextSeq packet p) = outCfg p" "outEnc (nextSeq packet p) = outEnc p"
  "outInteg (nextSeq packet p) = outInteg p" "outStateErr (nextSeq packet p) = outStateErr p"
  "seq (nextSeq packet p) = seq p + 1" "wrapped (nextSeq packet p) = wrapped p"
  by (simp_all add: nextSeq_def checkFlowTriggers_def Let_def)

lemma linked_cong:
  "outCfg p' = outCfg p \<Longrightarrow> outEnc p' = outEnc p \<Longrightarrow> outInteg p' = outInteg p \<Longrightarrow>
   outStateErr p' = outStateErr p \<Longrightarrow> linked p' q = linked p q"
  by (simp add: linked_def)

lemma linked_cong_in:
  "inCfg q' = inCfg q \<Longrightarrow> inEnc q' = inEnc q \<Longrightarrow> inInteg q' = inInteg q \<Longrightarrow>
   inStateErr q' = inStateErr q \<Longrightarrow> linked p q' = linked p q"
  by (simp add: linked_def)

text \<open>The numbers a codec still has: a counter at zero has used all of them.\<close>

definition vseq :: "Outbound \<Rightarrow> nat" where
  "vseq p = (if seq p = 0 then 2 ^ 32 else unat (seq p))"

lemma vseq_nextSeq:
  assumes "seq p \<noteq> 0"
  shows "vseq (nextSeq packet p) = vseq p + 1"
proof (cases "seq p = - 1")
  case True
  then show ?thesis by (simp add: vseq_def unsigned_minus_1_eq_mask mask_eq_exp_minus_1)
next
  case False
  then have "1 + seq p \<noteq> 0" by (metis add_eq_0_iff)
  then show ?thesis using assms unatSuc [of "seq p"] by (simp add: vseq_def add.commute)
qed

lemma linked_prepare:
  "linked p q \<Longrightarrow> outSelection (outCfg p) = Some sel \<Longrightarrow> espEncryption sel = Some enc \<Longrightarrow>
     outEnc p = Some state \<Longrightarrow> wf_enc enc \<and> (\<exists>ke. Prepare enc ke = Inr state)"
  by (auto simp: linked_def)

text \<open>An inbound datagram that is not delivered leaves the codec as it was.\<close>

lemma ProcessPooled_error_same:
  assumes "ProcessPooled q d = (q', Inl e)"
  shows "q' = q"
proof -
  have "fst (Accept w s) = w" if "\<not> snd (Accept w s)" for w s
    using window.reject_same that by blast
  then show ?thesis using assms
    by (auto simp: ProcessPooled_def Let_def split: option.splits if_splits sum.splits prod.splits)
       (metis fst_conv snd_conv Inbound.surjective Inbound.update_convs(2))+
qed

lemma ProcessPooled_delivered:
  assumes "ProcessPooled q d = (q', Inr inner)"
  shows "8 \<le> length d \<and> beUint32 (take 4 d) = inSPI (inCfg q)
    \<and> Accept (inWindow q) (beUint32 (subslice d 4 8)) = (inWindow q', True)
    \<and> q' = q\<lparr> inWindow := inWindow q', inPoolOut := inPoolOut q + 1 \<rparr>"
  using assms
  by (auto simp: ProcessPooled_def Let_def AcceptSPI_def split: option.splits if_splits sum.splits prod.splits)

text \<open>A datagram the linked sender made is delivered exactly when the window accepts its number.\<close>

lemma ProcessPooled_sealed:
  assumes "linked p q" "process rnd packet p = (p', Inr d)"
  shows "ProcessPooled q d =
    (if snd (Accept (inWindow q) (seq p))
     then (q\<lparr> inWindow := fst (Accept (inWindow q) (seq p)), inPoolOut := inPoolOut q + 1 \<rparr>, Inr packet)
     else (q, Inl (Errorf ''github.com/wsm25/swan/esp: ESP replay window rejected the packet'')))"
  using assms(2)
proof (cases rule: process_cases)
  case (sealed sel enc state nh iv)
  have sel: "inSelection (inCfg q) = Some sel" "inEnc q = Some state" "inStateErr q = None"
    "outSPI (outCfg p') = inSPI (inCfg q)"
    using assms(1) sealed by (auto simp: linked_def)
  have l: "linked p' q" "outEnc p' = Some state" using assms(1) sealed linked_cong [of p' p q] by simp_all
  obtain ke where wf: "wf_enc enc" "Prepare enc ke = Inr state"
    using linked_prepare [OF assms(1)] sealed by blast
  have d: "sealESP p' enc (espIntegrity sel) state (seq p) iv (espPlain enc packet nh) = Inr d"
    using sealed by simp
  obtain rest where rest: "d = be32 (inSPI (inCfg q)) @ be32 (seq p) @ rest"
    using sealESP_header [OF d wf(2)] sel(4) by auto
  have "decryptESP q enc (espIntegrity sel) state d = Inr (espPlain enc packet nh)"
    by (rule decryptESP_sealESP [OF l(1) sel(1) sealed(6) l(2) d])
  moreover have "stripTrailer (espPlain enc packet nh) = Inr packet"
    using stripTrailer_espPlain [OF wf(1) sealed(3)] ipNextHeader_cases [OF sealed(4)] by simp
  moreover have "beUint32 (subslice d 4 8) = seq p" "take 4 d = be32 (inSPI (inCfg q))"
    by (simp_all add: rest subslice_def)
  moreover have "inWindow (q\<lparr> inWindow := inWindow q \<rparr>) = inWindow q" by simp
  ultimately show ?thesis
    using sel sealed(6,9) window.reject_same [of "inWindow q" "seq p"]
    by (cases "Accept (inWindow q) (seq p)") (auto simp: ProcessPooled_def AcceptSPI_def rest)
qed simp_all

section \<open>Lemmas: histories\<close>

text \<open>What a codec delivers of a sequence of datagrams, with their sequence numbers.\<close>

fun receiveAll :: "bytes list \<Rightarrow> Inbound \<Rightarrow> Inbound \<times> (32 word \<times> bytes) list" where
  "receiveAll [] q = (q, [])"
| "receiveAll (d # ds) q =
    (case ProcessPooled q d of
       (q, Inl e) \<Rightarrow> receiveAll ds q
     | (q, Inr inner) \<Rightarrow>
         (case receiveAll ds q of (q, out) \<Rightarrow> (q, (beUint32 (subslice d 4 8), inner) # out)))"

lemma receiveAll_fresh:
  assumes "window_rel (inWindow q) S" "receiveAll ds q = (q', out)"
  shows "distinct (map fst out) \<and> 0 \<notin> set (map fst out) \<and> unat ` set (map fst out) \<inter> S = {}
    \<and> window_rel (inWindow q') (S \<union> unat ` set (map fst out)) \<and> inPoolOut q' = inPoolOut q + length out"
  using assms
proof (induction ds arbitrary: q S q' out)
  case (Cons d ds)
  obtain q1 r where r: "ProcessPooled q d = (q1, r)" by fastforce
  show ?case
  proof (cases r)
    case (Inl e)
    then have "q1 = q" using r ProcessPooled_error_same by blast
    then show ?thesis using Cons Inl r by simp
  next
    case (Inr inner)
    let ?s = "beUint32 (subslice d 4 8)"
    have acc: "Accept (inWindow q) ?s = (inWindow q1, True)"
      and "q1 = q\<lparr> inWindow := inWindow q1, inPoolOut := inPoolOut q + 1 \<rparr>"
      using ProcessPooled_delivered [of q d q1 inner] r Inr by simp_all
    from arg_cong [OF this(2), of inPoolOut] have pool: "inPoolOut q1 = inPoolOut q + 1" by simp
    have ok: "acceptable S (unat ?s)"
      using window.accept_iff [OF Cons.prems(1), of ?s] acc by simp
    obtain q2 out2 where o2: "receiveAll ds q1 = (q2, out2)" by fastforce
    then have out: "out = (?s, inner) # out2" "q' = q2" using Cons.prems(2) r Inr by auto
    have w: "window_rel (inWindow q1) (insert (unat ?s) S)"
      using window.accept_seen [OF Cons.prems(1), of ?s] acc by simp
    note ih = Cons.IH [OF w o2]
    have "?s \<notin> set (map fst out2)" using ih by auto
    moreover have "?s \<noteq> 0" "unat ?s \<notin> S" using ok by (auto simp: acceptable_def)
    moreover have "insert (unat ?s) S \<union> unat ` set (map fst out2) = S \<union> unat ` set (map fst out)"
      using out(1) by auto
    ultimately show ?thesis using ih out pool by auto
  qed
qed simp

text \<open>The sequence numbers of the frames of a group.\<close>

definition frame_seq :: "Frame \<Rightarrow> nat" where
  "frame_seq f = unat (beUint32 (subslice (FPayload f) 4 8))"

definition out_ok :: "Outbound \<Rightarrow> bool" where
  "out_ok p \<longleftrightarrow> (outStateErr p = None \<longrightarrow>
     (\<forall>sel enc state. outSelection (outCfg p) = Some sel \<longrightarrow> espEncryption sel = Some enc \<longrightarrow>
        outEnc p = Some state \<longrightarrow> (\<exists>ke. Prepare enc ke = Inr state)))
   \<and> triggers p = (if warned p then 1 else 0)"

lemma out_ok_NewOutbound: "out_ok (NewOutbound cfg)"
proof (cases "prepareOutbound cfg")
  case (Inr x)
  obtain state integ where x: "x = (state, integ)" by fastforce
  have "\<exists>ke. Prepare enc ke = Inr state" if "outSelection cfg = Some sel" "espEncryption sel = Some enc" for sel enc
    using Inr that unfolding prepareOutbound_def prepareCodec_def x
    by (auto split: option.splits sum.splits if_splits)
  then show ?thesis using Inr x by (simp add: NewOutbound_def out_ok_def)
qed (simp add: NewOutbound_def out_ok_def)

lemma triggers_nextSeq:
  "triggers p = (if warned p then 1 else 0) \<Longrightarrow>
     triggers (nextSeq packet p) = (if warned (nextSeq packet p) then 1 else 0)"
  by (simp add: nextSeq_def checkFlowTriggers_def Let_def)

lemma process_out_ok:
  assumes "process rnd packet p = (p', r)" "out_ok p"
  shows "out_ok p' \<and> vseq p \<le> vseq p' \<and> (\<forall>d. r = Inr d \<longrightarrow>
     unat (beUint32 (subslice d 4 8)) = vseq p \<and> 0 < vseq p \<and> vseq p' = vseq p + 1)"
  using assms(1)
proof (cases rule: process_cases)
  case (sealed sel enc state nh iv)
  have v: "vseq p' = vseq p + 1" using vseq_nextSeq [of p packet] sealed by simp
  obtain ke where ke: "Prepare enc ke = Inr state" using assms(2) sealed by (auto simp: out_ok_def)
  have "unat (beUint32 (subslice d 4 8)) = vseq p \<and> 0 < vseq p" if d: "r = Inr d" for d
  proof -
    obtain rest where "d = be32 (outSPI (outCfg p')) @ be32 (seq p) @ rest"
      using sealESP_header sealed d ke by metis
    then have "beUint32 (subslice d 4 8) = seq p" by (simp add: subslice_def)
    then show ?thesis using sealed by (simp add: vseq_def unat_gt_0)
  qed
  then show ?thesis using v assms(2) sealed triggers_nextSeq [of p packet] by (simp add: out_ok_def)
qed (use assms(2) in \<open>auto simp: out_ok_def vseq_def\<close>)

lemma encryptAll_seq:
  assumes "encryptAll rnd pkts k p = (p', frames, k', fatal)" "out_ok p"
  shows "out_ok p' \<and> vseq p \<le> vseq p' \<and> sorted_wrt (<) (map frame_seq frames)
    \<and> (\<forall>f \<in> set frames. vseq p \<le> frame_seq f \<and> frame_seq f < vseq p')"
  using assms
proof (induction pkts arbitrary: k p p' frames k' fatal)
  case (Cons pkt pkts)
  obtain p1 r where r: "process (rnd k) pkt p = (p1, r)" by fastforce
  note ok = process_out_ok [OF r Cons.prems(2)]
  show ?case
  proof (cases r)
    case (Inl e)
    show ?thesis
    proof (cases "e = ErrSeqWrapped")
      case True
      then show ?thesis using Cons.prems(1) r Inl ok by auto
    next
      case False
      then show ?thesis using Cons.prems(1) r Inl ok Cons.IH [of "k + 1" p1 p' frames k' fatal] by force
    qed
  next
    case (Inr d)
    obtain p2 fs k2 fa where e: "encryptAll rnd pkts (k + 1) p1 = (p2, fs, k2, fa)" by (metis prod_cases4)
    note ih = Cons.IH [OF e conjunct1 [OF ok]]
    have d: "unat (beUint32 (subslice d 4 8)) = vseq p" "vseq p1 = vseq p + 1" using ok Inr by simp_all
    have "p' = p2" "frames = (if fa then [] else
        SetRelease \<lparr> FKind = KindESP, FPayload = d, Frelease = False \<rparr> # fs)"
      using Cons.prems(1) r Inr e by auto
    then show ?thesis using ih d by (auto simp: frame_seq_def SetRelease_def)
  qed
qed auto

text \<open>The receiver's window is behind the sender's counter.\<close>

definition behind :: "Inbound \<Rightarrow> Outbound \<Rightarrow> bool" where
  "behind q p \<longleftrightarrow> (\<exists>S. window_rel (inWindow q) S \<and> (\<forall>n \<in> S. n < vseq p))"

lemma behind_accepts:
  assumes "behind q p" "seq p \<noteq> 0"
  shows "snd (Accept (inWindow q) (seq p))"
    "vseq p' = vseq p + 1 \<Longrightarrow> behind (q\<lparr> inWindow := fst (Accept (inWindow q) (seq p)), inPoolOut := n \<rparr>) p'"
proof -
  obtain S where S: "window_rel (inWindow q) S" "\<forall>n \<in> S. n < vseq p" using assms(1) by (auto simp: behind_def)
  have v: "vseq p = unat (seq p)" using assms(2) by (simp add: vseq_def)
  have "acceptable S (unat (seq p))"
    using S(2) v assms(2) window.seen_finite [OF S(1)]
    by (auto simp: acceptable_def unat_eq_0 dest!: Max_in intro: less_trans trans_less_add1)
  then show a: "snd (Accept (inWindow q) (seq p))" using window.accept_iff [OF S(1)] by simp
  assume "vseq p' = vseq p + 1"
  then show "behind (q\<lparr> inWindow := fst (Accept (inWindow q) (seq p)), inPoolOut := n \<rparr>) p'"
    using window.accept_seen [OF S(1), of "seq p"] a S(2) v
    by (auto simp: behind_def intro!: exI [of _ "insert (unat (seq p)) S"])
qed

lemma length_encryptAll: "encryptAll rnd pkts k p = (p', frames, k', fatal) \<Longrightarrow> length frames \<le> length pkts"
proof (induction pkts arbitrary: k p p' frames k' fatal)
  case (Cons pkt pkts)
  show ?case
  proof (cases "process (rnd k) pkt p")
    case (Pair p1 r)
    show ?thesis
    proof (cases r)
      case (Inl e)
      then show ?thesis using Cons.prems Pair Cons.IH [of "k + 1" p1 p' frames k' fatal]
        by (cases "e = ErrSeqWrapped") auto
    next
      case (Inr d)
      obtain p2 fs k2 fa where "encryptAll rnd pkts (k + 1) p1 = (p2, fs, k2, fa)" by (metis prod_cases4)
      then show ?thesis using Cons.prems Pair Inr Cons.IH [of "k + 1" p1 p2 fs k2 fa] by auto
    qed
  qed
qed simp

definition packet_of :: "Frame \<Rightarrow> Packet" where
  "packet_of f = \<lparr> PKind = KindESP, PPayload = FPayload f, Prelease = True \<rparr>"

definition delivered_ip :: "bytes \<Rightarrow> InboundPacket" where
  "delivered_ip b = \<lparr> IP = b, ipRelease = True \<rparr>"

lemma process_sealed_facts:
  assumes "linked p q" "process rnd packet p = (p', Inr d)"
  shows "linked p' q" "seq p \<noteq> 0" "vseq p' = vseq p + 1" "8 \<le> length d"
    "beUint32 (take 4 d) = inSPI (inCfg q)"
proof -
  have "linked p' q \<and> seq p \<noteq> 0 \<and> vseq p' = vseq p + 1 \<and> (\<exists>rest. d = be32 (inSPI (inCfg q)) @ be32 (seq p) @ rest)"
    using assms(2)
  proof (cases rule: process_cases)
    case (sealed sel enc state nh iv)
    obtain ke where "Prepare enc ke = Inr state" using linked_prepare [OF assms(1)] sealed by blast
    then have "\<exists>rest. d = be32 (outSPI (outCfg p')) @ be32 (seq p) @ rest"
      using sealESP_header sealed by metis
    then show ?thesis using assms(1) sealed vseq_nextSeq [of p packet] linked_cong [of p' p q]
      by (auto simp: linked_def)
  qed simp_all
  then show "linked p' q" "seq p \<noteq> 0" "vseq p' = vseq p + 1" "8 \<le> length d"
    "beUint32 (take 4 d) = inSPI (inCfg q)" by auto
qed

lemma processInbound_sealed:
  assumes "linked p q" "behind q p" "process rnd pkt p = (p', Inr d)" "inbound pl (inSPI (inCfg q)) = Some q"
  obtains q' where "processInbound \<lparr> PKind = KindESP, PPayload = d, Prelease = True \<rparr> pl
      = (pl\<lparr> inbound := (inbound pl)(inSPI (inCfg q) \<mapsto> q') \<rparr>, Inr (delivered_ip pkt))"
    "linked p' q'" "behind q' p'" "inSPI (inCfg q') = inSPI (inCfg q)"
proof -
  note f = process_sealed_facts [OF assms(1,3)]
  define q' where "q' = q\<lparr> inWindow := fst (Accept (inWindow q) (seq p)), inPoolOut := inPoolOut q + 1 \<rparr>"
  have "ProcessPooled q d = (q', Inr pkt)"
    using ProcessPooled_sealed [OF assms(1,3)] behind_accepts(1) [OF assms(2) f(2)] by (simp add: q'_def)
  then show thesis using that [of q'] f assms(4) linked_cong_in [of q' q p']
      behind_accepts(2) [OF assms(2) f(2,3), of "inPoolOut q + 1"]
    by (simp add: processInbound_def delivered_ip_def q'_def)
qed

lemma inboundBatch_frames:
  assumes "linked p q" "behind q p" "encryptAll rnd pkts k p = (p', frames, k', False)"
    and "length frames = length pkts" "inbound pl (inSPI (inCfg q)) = Some q"
  shows "\<exists>pl'. inboundBatch None (map (\<lambda>f. Some (packet_of f)) frames) out pl
     = (pl', out @ map delivered_ip pkts, False) \<and> ipOut pl' = ipOut pl
     \<and> inReleased pl' = inReleased pl @ map packet_of frames"
  using assms
proof (induction pkts arbitrary: k p q frames out pl)
  case (Cons pkt pkts)
  obtain p1 r where r: "process (rnd k) pkt p = (p1, r)" by fastforce
  have "\<exists>d. r = Inr d"
  proof (rule ccontr)
    assume "\<nexists>d. r = Inr d"
    then obtain e where e: "r = Inl e" by (cases r) auto
    then have "encryptAll rnd pkts (k + 1) p1 = (p', frames, k', False)"
      using Cons.prems(3) r by (auto split: if_splits)
    then show False using length_encryptAll Cons.prems(4) by force
  qed
  then obtain d where d: "process (rnd k) pkt p = (p1, Inr d)" using r by auto
  obtain p2 fs k2 fa where e: "encryptAll rnd pkts (k + 1) p1 = (p2, fs, k2, fa)" by (metis prod_cases4)
  let ?f = "SetRelease \<lparr> FKind = KindESP, FPayload = d, Frelease = False \<rparr>"
  have fs: "frames = ?f # fs" "encryptAll rnd pkts (k + 1) p1 = (p', fs, k', False)" "length fs = length pkts"
    using Cons.prems(3,4) d e by auto
  obtain q' where q': "processInbound \<lparr> PKind = KindESP, PPayload = d, Prelease = True \<rparr> pl
      = (pl\<lparr> inbound := (inbound pl)(inSPI (inCfg q) \<mapsto> q') \<rparr>, Inr (delivered_ip pkt))"
    "linked p1 q'" "behind q' p1" "inSPI (inCfg q') = inSPI (inCfg q)"
    by (rule processInbound_sealed [OF Cons.prems(1,2) d Cons.prems(5)])
  have pk: "packet_of ?f = \<lparr> PKind = KindESP, PPayload = d, Prelease = True \<rparr>"
    by (simp add: packet_of_def SetRelease_def)
  let ?pl = "releasePacket (packet_of ?f) (pl\<lparr> inbound := (inbound pl)(inSPI (inCfg q) \<mapsto> q') \<rparr>)"
  obtain pl' where pl': "inboundBatch None (map (\<lambda>f. Some (packet_of f)) fs) (out @ [delivered_ip pkt]) ?pl
      = (pl', (out @ [delivered_ip pkt]) @ map delivered_ip pkts, False)"
    "ipOut pl' = ipOut ?pl" "inReleased pl' = inReleased ?pl @ map packet_of fs"
    using Cons.IH [OF q'(2,3) fs(2,3), of ?pl "out @ [delivered_ip pkt]"] q'(4)
    by (auto simp: releasePacket_def)
  then show ?case using q'(1) by (simp add: fs(1) pk releasePacket_def)
qed simp

text \<open>The size of the datagram for a packet, and that it is produced when it fits.\<close>

definition espWireLen :: "EspSelection \<Rightarrow> EncryptionAlg \<Rightarrow> bytes \<Rightarrow> nat" where
  "espWireLen sel enc packet = espHeaderLen + IVLen enc + (length packet + espPadLen enc packet + 2)
     + (if AEAD enc then ICVLen enc else integOuterICV (espIntegrity sel))"

lemma process_succeeds:
  assumes "linked p q" "\<not> wrapped p" "seq p \<noteq> 0" "packet \<noteq> []" "ipNextHeader (packet ! 0) = Inr nh"
    and "outSelection (outCfg p) = Some sel" "espEncryption sel = Some enc"
    and "length iv = IVLen enc" "espWireLen sel enc packet \<le> MaxWireDatagram"
  shows "\<exists>d. process (Inr iv) packet p = (nextSeq packet p, Inr d)"
proof -
  have ne: "outStateErr p = None" using assms(1) by (simp add: linked_def)
  obtain ke state where k: "wf_enc enc" "Prepare enc ke = Inr state" "outEnc p = Some state"
    and integ: "AEAD enc \<or> (\<exists>pinteg. outInteg p = Some pinteg)"
    using assms(1,6,7) unfolding linked_def by fastforce
  let ?h = "be32 (outSPI (outCfg p)) @ be32 (seq p)" and ?plain = "espPlain enc packet nh"
  have "is_ok (Seal enc ke iv ?h ?plain)"
    using Seal_is_ok [OF k(1)] Prepare_cases(2) [OF k(2)] assms(8) espPlain_aligned [OF k(1)] by blast
  then obtain c where c: "Seal enc ke iv ?h ?plain = Inr c" by (auto simp: is_ok_iff)
  have "\<exists>d. sealESP (nextSeq packet p) enc (espIntegrity sel) state (seq p) iv ?plain = Inr d"
  proof (cases "AEAD enc")
    case True
    then show ?thesis using c assms(9)
      by (simp add: sealESP_def SealTo_Seal [OF k(2)] espWireLen_def length_espPlain)
  next
    case False
    then obtain pinteg where "outInteg p = Some pinteg" using integ by blast
    then show ?thesis using False c assms(9)
      by (simp add: sealESP_def SealTo_Seal [OF k(2)] espWireLen_def length_espPlain pSign_def)
  qed
  then show ?thesis using assms(2-7) k(3) ne by (auto simp: process_def)
qed

lemma process_exhausted:
  assumes "process rnd packet p = (p', r)" "seq p = 0"
  shows "seq p' = 0 \<and> (\<exists>e. r = Inl e)"
  using assms(1) by (cases rule: process_cases) (use assms(2) in auto)

lemma encryptAll_exhausted: "seq p = 0 \<Longrightarrow> \<exists>p' k' fatal. encryptAll rnd pkts k p = (p', [], k', fatal)"
proof (induction pkts arbitrary: k p)
  case (Cons pkt pkts)
  obtain p1 r where r: "process (rnd k) pkt p = (p1, r)" by fastforce
  from process_exhausted [OF this Cons.prems] obtain e where "r = Inl e" "seq p1 = 0" by blast
  then show ?case using r Cons.IH [of p1 "k + 1"] by auto
qed auto

section \<open>Properties\<close>

text \<open>A suite for the witnesses: AES-128-GCM-16 with fixed keys, the same in both directions.\<close>

definition sample_child_keys :: ChildKeys where
  "sample_child_keys = \<lparr> CSKei = replicate 20 1, CSKai = [], CSKer = replicate 20 1, CSKar = [] \<rparr>"

definition sample_selection :: EspSelection where
  "sample_selection = \<lparr> espEncryption = Some sample_gcm, espIntegrity = None \<rparr>"

definition sample_outbound :: Outbound where
  "sample_outbound = NewOutbound \<lparr> outSPI = 7, outSelection = Some sample_selection,
     outKeys = Some sample_child_keys, WarnAt = 0, FlowWarn = True,
     outFlowLimit = \<lparr> limBytes = 0, limPackets = 1 \<rparr> \<rparr>"

definition sample_inbound :: Inbound where
  "sample_inbound = NewInbound \<lparr> inSPI = 7, inSelection = Some sample_selection,
     inKeys = Some sample_child_keys \<rparr>"

lemma sample_linked: "linked sample_outbound sample_inbound"
proof -
  have "is_ok (Prepare sample_gcm (replicate 20 1))" by (rule Prepare_is_ok) simp_all
  then obtain state where s: "Prepare sample_gcm (replicate 20 1) = Inr state" by (auto simp: is_ok_iff)
  then show ?thesis
    by (simp add: linked_def sample_outbound_def sample_inbound_def NewOutbound_def NewInbound_def
        prepareOutbound_def prepareInbound_def prepareCodec_def sample_selection_def sample_child_keys_def,
        intro exI [of _ "replicate 20 1"]) simp
qed

lemma sample_outbound_simps [simp]:
  "seq sample_outbound = 1" "wrapped sample_outbound = False"
  "outSelection (outCfg sample_outbound) = Some sample_selection"
  "espEncryption sample_selection = Some sample_gcm"
  by (simp_all add: sample_outbound_def NewOutbound_def sample_selection_def split: sum.split prod.split)

lemma sample_inbound_simps [simp]:
  "inWindow sample_inbound = zeroWindow" "inSPI (inCfg sample_inbound) = 7"
  by (simp_all add: sample_inbound_def NewInbound_def split: sum.split prod.split)

lemma sample_gcm_lens [simp]: "IVLen sample_gcm = 8" "ICVLen sample_gcm = 16" "BlockLen sample_gcm = 1"
  by (simp_all add: sample_gcm_def NewEncryption_def)

lemma sample_fits: "espWireLen sample_selection sample_gcm [0x45, 1, 2] \<le> MaxWireDatagram"
  by (simp add: espWireLen_def espPadLen_def)

text \<open>C2: what one side of a CHILD_SA encrypts the other side delivers: for codecs that
  share SPI, suite and keys, every IPv4 or IPv6 packet whose datagram fits the
  transport is turned into a datagram, which takes the next sequence number, and the
  receiver delivers exactly this packet when the replay contract admits the number,
  and otherwise is left unchanged.\<close>

theorem ESP_round_trip:
  assumes "linked p q" "\<not> wrapped p" "seq p \<noteq> 0" "packet \<noteq> []" "ipNextHeader (packet ! 0) = Inr nh"
    and "outSelection (outCfg p) = Some sel" "espEncryption sel = Some enc"
    and "length iv = IVLen enc" "espWireLen sel enc packet \<le> MaxWireDatagram"
    and "window_rel (inWindow q) S"
  shows "\<exists>p' d. process (Inr iv) packet p = (p', Inr d) \<and> seq p' = seq p + 1
    \<and> (if acceptable S (unat (seq p))
       then (\<exists>q'. ProcessPooled q d = (q', Inr packet) \<and> window_rel (inWindow q') (insert (unat (seq p)) S))
       else (\<exists>e. ProcessPooled q d = (q, Inl e)))"
proof -
  obtain d where d: "process (Inr iv) packet p = (nextSeq packet p, Inr d)"
    using process_succeeds [OF assms(1-9)] by blast
  show ?thesis
    using d ProcessPooled_sealed [OF assms(1) d] window.accept_iff [OF assms(10), of "seq p"]
      window.accept_seen [OF assms(10), of "seq p"]
    by (auto split: if_splits)
qed

theorem ESP_round_trip_witness:
  "\<exists>p' d q'. process (Inr (replicate 8 3)) [0x45, 1, 2] sample_outbound = (p', Inr d)
     \<and> ProcessPooled sample_inbound d = (q', Inr [0x45, 1, 2])"
proof -
  have "ipNextHeader (([0x45, 1, 2] :: bytes) ! 0) = Inr 4" by (simp add: ipNextHeader_def)
  then show ?thesis
    using ESP_round_trip [of sample_outbound sample_inbound "[0x45, 1, 2]" 4 sample_selection sample_gcm
        "replicate 8 3" "{}", OF sample_linked] sample_fits window.seen_fresh
    by (auto simp: acceptable_def)
qed

text \<open>C31: A datagram that is not delivered changes nothing: a forged, replayed, malformed or
  foreign datagram leaves the inbound codec, its replay window in particular, exactly
  as it was. A delivered one carries the codec's SPI and a number the window admits.\<close>

theorem ProcessPooled_safe:
  "(\<exists>e. ProcessPooled q d = (q, Inl e))
   \<or> (\<exists>w inner. ProcessPooled q d = (q\<lparr> inWindow := w, inPoolOut := inPoolOut q + 1 \<rparr>, Inr inner)
        \<and> beUint32 (take 4 d) = inSPI (inCfg q) \<and> Accept (inWindow q) (beUint32 (subslice d 4 8)) = (w, True))"
proof -
  obtain q' r where r: "ProcessPooled q d = (q', r)" by fastforce
  show ?thesis
  proof (cases r)
    case (Inl e)
    then show ?thesis using r ProcessPooled_error_same by blast
  next
    case (Inr inner)
    then show ?thesis using r ProcessPooled_delivered [of q d q' inner] by metis
  qed
qed

text \<open>C7: no datagram is delivered twice: over any sequence of datagrams whatsoever, the
  delivered ones carry distinct, non-zero sequence numbers, and each holds one pooled
  buffer until it is released.\<close>

theorem receiveAll_once:
  "\<exists>q out. receiveAll ds (NewInbound cfg) = (q, out) \<and> distinct (map fst out) \<and> 0 \<notin> set (map fst out)
     \<and> inPoolOut q = length out"
proof -
  have "inWindow (NewInbound cfg) = zeroWindow" "inPoolOut (NewInbound cfg) = 0"
    by (simp_all add: NewInbound_def split: sum.split prod.split)
  then show ?thesis
    using receiveAll_fresh [of "NewInbound cfg" "{}" ds] window.seen_fresh
    by (cases "receiveAll ds (NewInbound cfg)") auto
qed

text \<open>C32: sequence numbers are used in order and never twice: the frames any group of packets
  produces on a new codec carry strictly increasing numbers from 1 to at most
  2^32 - 1, and the rekey trigger fires at most once.\<close>

theorem encryptAll_increasing:
  "\<exists>p frames k fatal. encryptAll rnd pkts 0 (NewOutbound cfg) = (p, frames, k, fatal)
     \<and> sorted_wrt (<) (map frame_seq frames)
     \<and> set (map frame_seq frames) \<subseteq> {1..<2 ^ 32} \<and> triggers p \<le> 1"
proof -
  obtain p frames k fatal where e: "encryptAll rnd pkts 0 (NewOutbound cfg) = (p, frames, k, fatal)"
    by (metis prod_cases4)
  have "vseq (NewOutbound cfg) = 1"
    by (simp add: vseq_def NewOutbound_def split: sum.split prod.split)
  moreover have "frame_seq f < 2 ^ 32" for f
    using unsigned_less [of "beUint32 (subslice (FPayload f) 4 8)"] by (simp add: frame_seq_def)
  moreover have "triggers p \<le> 1" using encryptAll_seq [OF e out_ok_NewOutbound] by (simp add: out_ok_def)
  ultimately show ?thesis using e encryptAll_seq [OF e out_ok_NewOutbound] by auto
qed

text \<open>C33: once the sequence counter has run out the codec never produces a datagram again,
  whatever packets follow; and the first packet that needs a number makes the codec
  report \<^verbatim>\<open>ErrSeqWrapped\<close>, from then on for every packet.\<close>

theorem seq_wrap_permanent:
  assumes "seq p = 0"
  shows "(\<exists>p' k' fatal. encryptAll rnd pkts k p = (p', [], k', fatal))
    \<and> (\<forall>packet nh sel enc state iv. outStateErr p = None \<longrightarrow> packet \<noteq> [] \<longrightarrow> ipNextHeader (packet ! 0) = Inr nh \<longrightarrow>
         outSelection (outCfg p) = Some sel \<longrightarrow> espEncryption sel = Some enc \<longrightarrow> outEnc p = Some state \<longrightarrow>
         (\<exists>p'. process (Inr iv) packet p = (p', Inl ErrSeqWrapped)
            \<and> (\<forall>rnd packet. process rnd packet p' = (p', Inl ErrSeqWrapped))))"
  using encryptAll_exhausted [OF assms, of rnd pkts k] assms by (auto simp: process_def)

theorem seq_wrap_permanent_witness:
  "\<exists>p' k' fatal. encryptAll (\<lambda>_. Inr []) [[0x45]] 0 (sample_outbound\<lparr> seq := 0 \<rparr>) = (p', [], k', fatal)"
  using seq_wrap_permanent [of "sample_outbound\<lparr> seq := 0 \<rparr>" "\<lambda>_. Inr []" "[[0x45]]" 0] by simp





end
