(* ===== verification/Framed_Wire.thy ===== *)
theory Framed_Wire
  imports Wire Transport
begin

text \<open>
  The stream adapter of \<^verbatim>\<open>src/wire.go\<close>: datagrams over a byte stream, each as a
  2-octet length followed by the payload (\<^verbatim>\<open>framedWire\<close>), and the datagram adapter
  \<^verbatim>\<open>packetWire\<close>.

  The stream below is a parameter. Its reads are a list of outcomes, one per
  call of \<^verbatim>\<open>rw.Read\<close> (the octets and the error); a call that finds the list empty
  blocks, which is the result None. Its writes are a function on a state of some
  type that returns the number of octets taken, as \<^verbatim>\<open>io.Writer\<close> documents.

  The lemmas show that reading recovers the written datagrams whatever the
  stream's segmentation, that a datagram is only ever returned whole, and that
  a write puts exactly one frame on the stream.
\<close>

section \<open>Model\<close>

record framedWire =
  wacc :: bytes
  wterminal :: "error option"
  wclosed :: bool
  wcloseErr :: "error option"

type_synonym chunk = "bytes \<times> error option"

definition NewFramedWire :: framedWire where
  "NewFramedWire = \<lparr> wacc = [], wterminal = None, wclosed = False, wcloseErr = None \<rparr>"

text \<open>The condition of the inner loop: no complete frame is accumulated.\<close>

definition needMore :: "bytes \<Rightarrow> bool" where
  "needMore acc \<longleftrightarrow> length acc < 2 \<or> length acc < 2 + unat (beUint16 (take 2 acc))"

text \<open>The inner loop of \<^verbatim>\<open>Read\<close>: accumulate until a frame is complete. The result is None
  while the stream blocks.\<close>

fun fillAcc :: "chunk list \<Rightarrow> framedWire \<Rightarrow> framedWire \<times> chunk list \<times> unit res option" where
  "fillAcc [] w =
    (if \<not> needMore (wacc w) then (w, [], Some (Inr ()))
     else if wterminal w \<noteq> None then (w\<lparr> wacc := [] \<rparr>, [], Some (Inl ErrUnexpectedEOF))
     else (w, [], None))"
| "fillAcc ((d, err) # cs) w =
    (if \<not> needMore (wacc w) then (w, (d, err) # cs, Some (Inr ()))
     else if wterminal w \<noteq> None then (w\<lparr> wacc := [] \<rparr>, (d, err) # cs, Some (Inl ErrUnexpectedEOF))
     else
       let w = w\<lparr> wacc := wacc w @ d \<rparr>;
           err = (if err = Some EOF \<and> length d > 0 then None else err) in
       case err of
         None \<Rightarrow> fillAcc cs w
       | Some e \<Rightarrow>
           let w = w\<lparr> wterminal := Some e \<rparr> in
           if length (wacc w) = 0 then (w, cs, Some (Inl e)) else fillAcc cs w)"

definition framedRead :: "nat \<Rightarrow> chunk list \<Rightarrow> framedWire \<Rightarrow> framedWire \<times> chunk list \<times> bytes res option" where
  "framedRead bufLen cs w =
    (if wterminal w \<noteq> None \<and> length (wacc w) = 0 then (w, cs, Some (Inl (the (wterminal w))))
     else if wterminal w \<noteq> None \<and> length (wacc w) < 2
     then (w\<lparr> wacc := [] \<rparr>, cs, Some (Inl ErrUnexpectedEOF))
     else if wterminal w \<noteq> None \<and> length (wacc w) < 2 + unat (beUint16 (take 2 (wacc w)))
     then (w\<lparr> wacc := [] \<rparr>, cs, Some (Inl ErrUnexpectedEOF))
     else case fillAcc cs w of
       (w, cs, None) \<Rightarrow> (w, cs, None)
     | (w, cs, Some (Inl e)) \<Rightarrow> (w, cs, Some (Inl e))
     | (w, cs, Some (Inr _)) \<Rightarrow>
         let n = unat (beUint16 (take 2 (wacc w))) in
         if bufLen < n then (w, cs, Some (Inl ErrShortBuffer))
         else (w\<lparr> wacc := drop (2 + n) (wacc w) \<rparr>, cs, Some (Inr (subslice (wacc w) 2 (2 + n)))))"

type_synonym 's streamWrite = "'s \<Rightarrow> bytes \<Rightarrow> 's \<times> nat \<times> error option"

text \<open>The loop of \<^verbatim>\<open>Write\<close> over the rest of the frame.\<close>

function writeRest :: "'s streamWrite \<Rightarrow> 's \<Rightarrow> bytes \<Rightarrow> 's \<times> error option" where
  "writeRest swrite st frame =
    (if length frame > 0 then
       let (st, n, err) = swrite st frame in
       case err of
         Some e \<Rightarrow> (st, Some e)
       | None \<Rightarrow>
           if n = 0 then (st, Some ErrShortWrite)
           else writeRest swrite st (drop n frame)
     else (st, None))"
  by pat_completeness auto
termination
  by (relation "measure (\<lambda>(_, _, b). length b)") auto

declare writeRest.simps [simp del]

definition framedWrite :: "'s streamWrite \<Rightarrow> 's \<Rightarrow> bytes \<Rightarrow> 's \<times> nat \<times> error option" where
  "framedWrite swrite st p =
    (if length p > MaxWireDatagram then (st, 0, Some ErrShortWrite)
     else case writeRest swrite st (be16 (word_of_nat (length p)) @ p) of
       (st, Some e) \<Rightarrow> (st, 0, Some e)
     | (st, None) \<Rightarrow> (st, length p, None))"

text \<open>\<open>closeErr\<close> is what the close of the stream returns; only the first call reaches it.\<close>

definition framedClose :: "error option \<Rightarrow> framedWire \<Rightarrow> framedWire \<times> error option" where
  "framedClose closeErr w =
    (let w = (if wclosed w then w else w\<lparr> wclosed := True, wcloseErr := closeErr \<rparr>) in (w, wcloseErr w))"

section \<open>Lemmas\<close>

definition frame_octets :: "bytes \<Rightarrow> bytes" where
  "frame_octets d = be16 (word_of_nat (length d)) @ d"

text \<open>The octets that are still to be read: accumulated and in the stream.\<close>

definition pending :: "chunk list \<Rightarrow> framedWire \<Rightarrow> bytes" where
  "pending cs w = wacc w @ concat (map fst cs)"

lemma needMore_frame:
  assumes "length d \<le> MaxWireDatagram"
  shows "\<not> needMore (frame_octets d @ rest)" "unat (beUint16 (take 2 (frame_octets d @ rest))) = length d"
  using assms by (simp_all add: needMore_def frame_octets_def)

lemma complete_frame:
  assumes "\<not> needMore acc"
  obtains d rest where "acc = frame_octets d @ rest" "length d = unat (beUint16 (take 2 acc))"
    "length d \<le> MaxWireDatagram"
proof -
  obtain x y r where acc: "acc = x # y # r"
    using assms by (cases acc; cases "tl acc") (auto simp: needMore_def)
  let ?n = "unat (beUint16 [x, y])"
  have n: "?n \<le> length r" using assms acc by (simp add: needMore_def)
  have le: "?n \<le> MaxWireDatagram" using unsigned_less [where 'a = nat, of "beUint16 [x, y]"] by simp
  have "acc = frame_octets (take ?n r) @ drop ?n r"
    using n by (simp add: acc frame_octets_def min_absorb2)
  moreover have "take 2 acc = [x, y]" by (simp add: acc)
  ultimately show thesis using that [of "take ?n r" "drop ?n r"] n le by (metis length_take min.absorb2)
qed

lemma fillAcc_sound:
  "fillAcc cs w = (w', cs', Some (Inr u)) \<Longrightarrow>
     \<not> needMore (wacc w') \<and> pending cs' w' = pending cs w"
proof (induction cs w rule: fillAcc.induct)
  case (2 d err cs w)
  then show ?case
    by (auto simp: pending_def Let_def split: if_split_asm option.split_asm)
qed (auto simp: pending_def split: if_split_asm)

text \<open>On a stream that yields the octets of a whole frame without error, whatever its
  segments, the loop completes the frame and consumes nothing it does not need.\<close>

lemma fillAcc_complete:
  assumes "wterminal w = None" "\<forall>c \<in> set cs. snd c = None" "\<not> needMore (pending cs w)"
  shows "\<exists>w' cs'. fillAcc cs w = (w', cs', Some (Inr ())) \<and> wterminal w' = None \<and> set cs' \<subseteq> set cs"
  using assms
proof (induction cs arbitrary: w)
  case (Cons c cs)
  obtain d where c: "c = (d, None)" using Cons.prems(2) by (cases c) auto
  show ?case
  proof (cases "needMore (wacc w)")
    case True
    let ?w = "w\<lparr> wacc := wacc w @ d \<rparr>"
    have "fillAcc (c # cs) w = fillAcc cs ?w" using True Cons.prems(1) by (simp add: c)
    moreover have "\<exists>w' cs'. fillAcc cs ?w = (w', cs', Some (Inr ())) \<and> wterminal w' = None \<and> set cs' \<subseteq> set cs"
      using Cons.prems by (intro Cons.IH) (auto simp: pending_def c)
    ultimately show ?thesis by auto
  next
    case False
    then show ?thesis using Cons.prems by (simp add: c)
  qed
qed (simp add: pending_def)

lemma framedRead_frame:
  assumes "wterminal w = None" "\<forall>c \<in> set cs. snd c = None" "length d \<le> bufLen" "length d \<le> MaxWireDatagram"
    and "pending cs w = frame_octets d @ rest"
  obtains w' cs' where "framedRead bufLen cs w = (w', cs', Some (Inr d))" "wterminal w' = None"
    "\<forall>c \<in> set cs'. snd c = None" "pending cs' w' = rest"
proof -
  obtain w1 cs1 where f: "fillAcc cs w = (w1, cs1, Some (Inr ()))" "wterminal w1 = None" "set cs1 \<subseteq> set cs"
    using fillAcc_complete [OF assms(1,2)] needMore_frame(1) [OF assms(4)] assms(5) by metis
  have s: "\<not> needMore (wacc w1)" "pending cs1 w1 = frame_octets d @ rest"
    using fillAcc_sound [OF f(1)] assms(5) by simp_all
  obtain d1 r1 where d1: "wacc w1 = frame_octets d1 @ r1" "length d1 = unat (beUint16 (take 2 (wacc w1)))"
    "length d1 \<le> MaxWireDatagram" using complete_frame [OF s(1)] by blast
  have eq: "frame_octets d1 @ r1 @ concat (map fst cs1) = frame_octets d @ rest"
    using s(2) d1(1) by (simp add: pending_def)
  have "length d1 = length d"
    using arg_cong [OF eq, of "\<lambda>b. unat (beUint16 (take 2 b))"] d1(3) assms(4)
    by (simp add: needMore_frame(2) frame_octets_def)
  then have d: "d1 = d" "r1 @ concat (map fst cs1) = rest"
    using eq by (simp_all add: frame_octets_def)
  have "unat (beUint16 (take 2 (wacc w1))) = length d" using d1(2) d(1) by simp
  then have "framedRead bufLen cs w = (w1\<lparr> wacc := r1 \<rparr>, cs1, Some (Inr d))"
    using assms(1,3) f(1) d1(1) d(1) by (simp add: framedRead_def frame_octets_def subslice_def)
  then show thesis using that f(2,3) assms(2) d(2) by (auto simp: pending_def)
qed

text \<open>Successive reads.\<close>

fun readFrames :: "nat \<Rightarrow> nat \<Rightarrow> chunk list \<Rightarrow> framedWire \<Rightarrow> bytes list" where
  "readFrames 0 bufLen cs w = []"
| "readFrames (Suc k) bufLen cs w =
    (case framedRead bufLen cs w of
       (w, cs, Some (Inr d)) \<Rightarrow> d # readFrames k bufLen cs w
     | _ \<Rightarrow> [])"

lemma readFrames_all:
  assumes "wterminal w = None" "\<forall>c \<in> set cs. snd c = None" "MaxWireDatagram \<le> bufLen"
    and "\<forall>d \<in> set ds. length d \<le> MaxWireDatagram" "pending cs w = concat (map frame_octets ds) @ rest"
  shows "readFrames (length ds) bufLen cs w = ds"
  using assms
proof (induction ds arbitrary: cs w)
  case (Cons d ds)
  have "length d \<le> bufLen" "length d \<le> MaxWireDatagram"
    "pending cs w = frame_octets d @ (concat (map frame_octets ds) @ rest)"
    using Cons.prems by auto
  then obtain w' cs' where "framedRead bufLen cs w = (w', cs', Some (Inr d))" "wterminal w' = None"
    "\<forall>c \<in> set cs'. snd c = None" "pending cs' w' = concat (map frame_octets ds) @ rest"
    using framedRead_frame [OF Cons.prems(1,2)] by metis
  then show ?case using Cons by simp
qed simp

text \<open>A stream that takes at least one octet per call, and appends what it takes.\<close>

definition reliable_stream :: "'s streamWrite \<Rightarrow> ('s \<Rightarrow> bytes) \<Rightarrow> bool" where
  "reliable_stream swrite written \<longleftrightarrow>
     (\<forall>st b. b \<noteq> [] \<longrightarrow> (\<exists>st' n. 0 < n \<and> n \<le> length b \<and> swrite st b = (st', n, None)
        \<and> written st' = written st @ take n b))"

lemma writeRest_reliable:
  assumes "reliable_stream swrite written"
  shows "\<exists>st'. writeRest swrite st b = (st', None) \<and> written st' = written st @ b"
proof (induction "length b" arbitrary: st b rule: less_induct)
  case less
  show ?case
  proof (cases "b = []")
    case True
    then show ?thesis by (simp add: writeRest.simps)
  next
    case False
    then obtain st' n where n: "0 < n" "n \<le> length b" "swrite st b = (st', n, None)"
      "written st' = written st @ take n b"
      using assms unfolding reliable_stream_def by blast
    then have "writeRest swrite st b = writeRest swrite st' (drop n b)"
      using False by (subst writeRest.simps) simp
    then show ?thesis using less [of "drop n b" st'] n False by auto
  qed
qed

fun writeAllFrames :: "'s streamWrite \<Rightarrow> 's \<Rightarrow> bytes list \<Rightarrow> 's" where
  "writeAllFrames swrite st [] = st"
| "writeAllFrames swrite st (d # ds) = writeAllFrames swrite (fst (framedWrite swrite st d)) ds"

lemma writeAllFrames_written:
  assumes "reliable_stream swrite written" "\<forall>d \<in> set ds. length d \<le> MaxWireDatagram"
  shows "written (writeAllFrames swrite st ds) = written st @ concat (map frame_octets ds)"
  using assms(2)
proof (induction ds arbitrary: st)
  case (Cons d ds)
  obtain st' where st': "writeRest swrite st (frame_octets d) = (st', None)"
    "written st' = written st @ frame_octets d"
    using writeRest_reliable [OF assms(1)] by blast
  then have "fst (framedWrite swrite st d) = st'" using Cons.prems by (simp add: framedWrite_def frame_octets_def)
  then show ?case using Cons st'(2) by simp
qed simp

section \<open>Properties\<close>

text \<open>C20: framing survives the stream: the datagrams written through the adapter are read
  back, whole and in order, however the stream takes the octets in writing and cuts
  them into segments in reading.\<close>

theorem framed_round_trip:
  assumes "reliable_stream swrite written" "written st = []" "\<forall>d \<in> set ds. length d \<le> MaxWireDatagram"
    and "\<forall>c \<in> set cs. snd c = None" "concat (map fst cs) = written (writeAllFrames swrite st ds)"
    and "MaxWireDatagram \<le> bufLen"
  shows "readFrames (length ds) bufLen cs NewFramedWire = ds"
  using readFrames_all [of NewFramedWire cs bufLen ds "[]"] writeAllFrames_written [OF assms(1,3), of st] assms
  by (simp add: NewFramedWire_def pending_def)

theorem framed_round_trip_witness:
  "readFrames (length [[1, 2], [3]]) 65535 [([0], None), ([2, 1], None), ([2, 0, 1, 3], None)] NewFramedWire
     = [[1, 2], [3]]"
proof -
  have r: "reliable_stream (\<lambda>st b. (st @ take 1 b, 1, None)) (\<lambda>st. st)"
    by (auto simp: reliable_stream_def neq_Nil_conv intro!: exI [of _ 1])
  have "written = [0, 2, 1, 2, 0, 1, 3] \<longrightarrow> writeAllFrames (\<lambda>st b. (st @ take 1 b, 1, None)) [] [[1, 2], [3]] = written"
    for written :: bytes
    using writeAllFrames_written [OF r, of "[[1, 2], [3]]" "[]"] by (simp add: frame_octets_def be16_def)
  then show ?thesis
    using framed_round_trip [OF r, of "[]" "[[1, 2], [3]]" "[([0], None), ([2, 1], None), ([2, 0, 1, 3], None)]" 65535]
    by simp
qed

text \<open>A datagram is only ever returned whole: whenever a read succeeds, whatever errors
  the stream reported, the returned octets are exactly one complete frame at the front
  of the unread octets, and what follows it stays unread.\<close>

theorem framedRead_whole:
  assumes "framedRead bufLen cs w = (w', cs', Some (Inr d))"
  shows "wacc w @ concat (map fst cs) = be16 (word_of_nat (length d)) @ d @ wacc w' @ concat (map fst cs')
    \<and> length d \<le> bufLen \<and> length d \<le> MaxWireDatagram"
proof -
  obtain w1 cs1 where f: "fillAcc cs w = (w1, cs1, Some (Inr ()))"
    and d: "w' = w1\<lparr> wacc := drop (2 + unat (beUint16 (take 2 (wacc w1)))) (wacc w1) \<rparr>" "cs' = cs1"
      "d = subslice (wacc w1) 2 (2 + unat (beUint16 (take 2 (wacc w1))))"
      "unat (beUint16 (take 2 (wacc w1))) \<le> bufLen"
    using assms by (auto simp: framedRead_def Let_def split: if_split_asm prod.split_asm option.split_asm sum.split_asm)
  note s = fillAcc_sound [OF f]
  obtain d1 r1 where d1: "wacc w1 = frame_octets d1 @ r1" "length d1 = unat (beUint16 (take 2 (wacc w1)))"
    "length d1 \<le> MaxWireDatagram" using complete_frame s by blast
  have len: "unat (word_of_nat (length d1) :: 16 word) = length d1" using d1(3) by simp
  have "d = d1" "wacc w' = r1" using d(1,3) d1(1) len by (simp_all add: frame_octets_def subslice_def)
  moreover have "pending cs w = frame_octets d1 @ r1 @ concat (map fst cs')"
    using s d1(1) d(2) by (simp add: pending_def)
  moreover have "length d1 \<le> bufLen" using d(4) d1(2) by simp
  ultimately show ?thesis using d1(3) by (simp add: pending_def frame_octets_def)
qed

theorem framedRead_whole_witness:
  "\<exists>w cs. framedRead 10 [([0, 1, 7, 9], Some EOF)] NewFramedWire = (w, cs, Some (Inr [7])) \<and> wacc w = [9]"
  using framedRead_whole [of 10 "[([0, 1, 7, 9], Some EOF)]" NewFramedWire]
  by (simp add: framedRead_def needMore_def NewFramedWire_def beUint16_def subslice_def)

end
