(* ===== verification/Events_Hub.thy ===== *)
theory Events_Hub
  imports Swan_Prelude "HOL-Library.Sublist"
begin

text \<open>
  The events of the control plane and the hub that hands them to subscribers
  (\<^verbatim>\<open>src/events/hub.go\<close>).

  The hub goroutine, its emitters and its subscribers interleave; a run is the
  sequence of the operations that take effect, one per send, receive or worker
  turn. A stream is a number, its channel a buffer in the store of streams; a
  reply or done channel is a number too.

  The lemmas show that events reach a subscriber in the order they were emitted
  and at most once, that a new subscriber first sees the retained history, and
  that nothing is lost while the channels have room.
\<close>

section \<open>Events\<close>

datatype EventKind =
    EventStarting
  | EventHandshakeStarted
  | EventStageChanged
  | EventNegotiatedAlgorithm
  | EventEapProcess
  | EventHandshakeCompleted
  | EventConfigAssigned
  | EventStarted
  | EventStopping
  | EventStopped
  | EventBroken
  | EventAssignedUpdated

datatype Stage = StageIKEInit | StageIKEAuth | StageEAP | StageChildSA | StageRunning

record NegotiatedAlgorithm =
  AlgProtocol :: string
  AlgEncryption :: string
  AlgIntegrity :: string
  AlgPRF :: string
  AlgDH :: string

record EapProcess =
  EpMethod :: string
  EpState :: string
  EpRound :: "16 word"

record EventAssigned =
  EaInternalIPv4 :: bytes
  EaInternalIPv6 :: bytes
  EaInternalIPv6Prefix :: "8 word"
  EaDNS4 :: "bytes list"
  EaDNS6 :: "bytes list"
  EaAddressExpirySeconds :: "32 word"

record Event =
  EvKind :: EventKind
  EvStage :: Stage
  EvAlg :: NegotiatedAlgorithm
  EvEAP :: EapProcess
  EvAssigned :: EventAssigned
  EvReason :: string

definition plainEvent :: "EventKind \<Rightarrow> Event" where
  "plainEvent k = \<lparr> EvKind = k, EvStage = StageIKEInit,
     EvAlg = \<lparr> AlgProtocol = [], AlgEncryption = [], AlgIntegrity = [], AlgPRF = [], AlgDH = [] \<rparr>,
     EvEAP = \<lparr> EpMethod = [], EpState = [], EpRound = 0 \<rparr>,
     EvAssigned = \<lparr> EaInternalIPv4 = [], EaInternalIPv6 = [], EaInternalIPv6Prefix = 0, EaDNS4 = [], EaDNS6 = [],
       EaAddressExpirySeconds = 0 \<rparr>, EvReason = [] \<rparr>"

section \<open>The hub\<close>

record Stream =
  sBuf :: "Event list"
  sClosed :: bool

datatype hubReq = EmitReq Event "nat option" | UnsubscribeReq nat | SubscribeReq nat

record Hub =
  hMailbox :: "hubReq list"
  hQueue :: nat
  hReplay :: nat
  hRetained :: "Event list"
  hSubs :: "nat list"
  hStreams :: "Stream list"
  hReplies :: "(nat \<times> nat option) list"
  hDone :: "nat list"
  hStopped :: bool
  hExited :: bool

abbreviation (input) "hubMailboxCapacity \<equiv> (256::nat)"

definition NewHub :: "int \<Rightarrow> int \<Rightarrow> Hub" where
  "NewHub queue replay =
    (let replay = (if replay < 0 then 0 else replay);
         queue = (if queue < replay then replay else queue);
         queue = (if queue \<le> 0 then 1 else queue) in
     \<lparr> hMailbox = [], hQueue = nat queue, hReplay = nat replay, hRetained = [], hSubs = [], hStreams = [], hReplies = [],
       hDone = [], hStopped = False, hExited = False \<rparr>)"

definition retain :: "Event \<Rightarrow> Hub \<Rightarrow> Hub" where
  "retain ev h =
    (if hReplay h = 0 then h
     else if length (hRetained h) = hReplay h then h\<lparr> hRetained := tl (hRetained h) @ [ev] \<rparr>
     else h\<lparr> hRetained := hRetained h @ [ev] \<rparr>)"

definition removeSub :: "nat \<Rightarrow> Hub \<Rightarrow> Hub" where
  "removeSub s h = h\<lparr> hSubs := remove1 s (hSubs h) \<rparr>"

definition deliver :: "Event \<Rightarrow> nat \<Rightarrow> Hub \<Rightarrow> Hub" where
  "deliver ev s h =
    (let st = hStreams h ! s in
     if length (sBuf st) < hQueue h then h\<lparr> hStreams := (hStreams h)[s := st\<lparr> sBuf := sBuf st @ [ev] \<rparr>] \<rparr> else h)"

fun fanOut :: "Event \<Rightarrow> nat list \<Rightarrow> Hub \<Rightarrow> Hub" where
  "fanOut ev [] h = h"
| "fanOut ev (s # ss) h =
    (if sClosed (hStreams h ! s) then fanOut ev ss (removeSub s h) else fanOut ev ss (deliver ev s h))"

definition dispatch :: "Event \<Rightarrow> Hub \<Rightarrow> Hub" where
  "dispatch ev h = (let h = retain ev h in fanOut ev (hSubs h) h)"

definition subscribe :: "nat \<Rightarrow> Hub \<Rightarrow> Hub" where
  "subscribe reply h =
    (let s = length (hStreams h) in
     h\<lparr> hStreams := hStreams h @ [\<lparr> sBuf = hRetained h, sClosed = False \<rparr>], hSubs := hSubs h @ [s],
        hReplies := hReplies h @ [(reply, Some s)] \<rparr>)"

definition hubHandle :: "hubReq \<Rightarrow> Hub \<Rightarrow> Hub" where
  "hubHandle req h =
    (case req of
       EmitReq ev done \<Rightarrow>
         let h = dispatch ev h in
         (case done of None \<Rightarrow> h | Some d \<Rightarrow> h\<lparr> hDone := hDone h @ [d] \<rparr>)
     | UnsubscribeReq s \<Rightarrow> removeSub s h
     | SubscribeReq reply \<Rightarrow> subscribe reply h)"

definition hubDrain :: "Hub \<Rightarrow> Hub" where
  "hubDrain h = h\<lparr> hMailbox := [],
     hReplies := hReplies h @ concat (map (\<lambda>r. case r of SubscribeReq reply \<Rightarrow> [(reply, None)] | _ \<Rightarrow> []) (hMailbox h)) \<rparr>"

text \<open>A send to the mailbox that does not block.\<close>

definition tryPost :: "hubReq \<Rightarrow> Hub \<Rightarrow> Hub \<times> bool" where
  "tryPost req h =
    (if length (hMailbox h) < hubMailboxCapacity then (h\<lparr> hMailbox := hMailbox h @ [req] \<rparr>, True) else (h, False))"

definition Emit :: "Event \<Rightarrow> Hub \<Rightarrow> Hub \<times> bool" where
  "Emit e h = tryPost (EmitReq e None) h"

definition StreamClose :: "nat \<Rightarrow> Hub \<Rightarrow> Hub" where
  "StreamClose s h =
    (if s < length (hStreams h) \<and> \<not> sClosed (hStreams h ! s)
     then fst (tryPost (UnsubscribeReq s) (h\<lparr> hStreams := (hStreams h)[s := (hStreams h ! s)\<lparr> sClosed := True \<rparr>] \<rparr>))
     else h)"

section \<open>Runs\<close>

text \<open>The operations that take effect. \<open>OpServe\<close> and \<open>OpDrain\<close> are the turns of the hub goroutine, the others the
  sends and receives of its users; a synchronous emit or a subscription that finds the mailbox full waits, so it does not
  occur yet.\<close>

datatype hubOp =
    OpEmit Event
  | OpEmitSync Event nat
  | OpSubscribe nat
  | OpServe
  | OpDrain
  | OpRecv nat
  | OpClose
  | OpStreamClose nat

datatype hubObs = Accepted Event | Dispatched Event | Received nat Event

definition hubServe :: "Hub \<Rightarrow> Hub \<times> hubObs list" where
  "hubServe h =
    (if hExited h then (h, [])
     else case hMailbox h of
       [] \<Rightarrow> (h, [])
     | req # reqs \<Rightarrow>
         (hubHandle req (h\<lparr> hMailbox := reqs \<rparr>), case req of EmitReq ev _ \<Rightarrow> [Dispatched ev] | _ \<Rightarrow> []))"

definition hubRecv :: "nat \<Rightarrow> Hub \<Rightarrow> Hub \<times> hubObs list" where
  "hubRecv s h =
    (if s < length (hStreams h) then
       (case sBuf (hStreams h ! s) of
          [] \<Rightarrow> (h, [])
        | ev # evs \<Rightarrow> (h\<lparr> hStreams := (hStreams h)[s := (hStreams h ! s)\<lparr> sBuf := evs \<rparr>] \<rparr>, [Received s ev]))
     else (h, []))"

definition postObs :: "Event \<Rightarrow> Hub \<times> bool \<Rightarrow> Hub \<times> hubObs list" where
  "postObs e r = (fst r, if snd r then [Accepted e] else [])"

fun hubStep :: "hubOp \<Rightarrow> Hub \<Rightarrow> Hub \<times> hubObs list" where
  "hubStep (OpEmit e) h = postObs e (Emit e h)"
| "hubStep (OpEmitSync e d) h = postObs e (tryPost (EmitReq e (Some d)) h)"
| "hubStep (OpSubscribe r) h =
    (if hStopped h then (h\<lparr> hReplies := hReplies h @ [(r, None)] \<rparr>, []) else (fst (tryPost (SubscribeReq r) h), []))"
| "hubStep OpServe h = hubServe h"
| "hubStep OpDrain h = (if hStopped h \<and> \<not> hExited h then ((hubDrain h)\<lparr> hExited := True \<rparr>, []) else (h, []))"
| "hubStep (OpRecv s) h = hubRecv s h"
| "hubStep OpClose h = (h\<lparr> hStopped := True \<rparr>, [])"
| "hubStep (OpStreamClose s) h = (StreamClose s h, [])"

fun hubRun :: "hubOp list \<Rightarrow> Hub \<Rightarrow> Hub \<times> hubObs list" where
  "hubRun [] h = (h, [])"
| "hubRun (x # xs) h = (case hubStep x h of (h, o1) \<Rightarrow> case hubRun xs h of (h, o2) \<Rightarrow> (h, o1 @ o2))"

fun accepted :: "hubObs list \<Rightarrow> Event list" where
  "accepted [] = []"
| "accepted (Accepted e # tr) = e # accepted tr"
| "accepted (_ # tr) = accepted tr"

fun dispatched :: "hubObs list \<Rightarrow> Event list" where
  "dispatched [] = []"
| "dispatched (Dispatched e # tr) = e # dispatched tr"
| "dispatched (_ # tr) = dispatched tr"

fun received :: "nat \<Rightarrow> hubObs list \<Rightarrow> Event list" where
  "received s [] = []"
| "received s (Received s' e # tr) = (if s' = s then e # received s tr else received s tr)"
| "received s (_ # tr) = received s tr"

lemma obs_append [simp]:
  "accepted (xs @ ys) = accepted xs @ accepted ys"
  "dispatched (xs @ ys) = dispatched xs @ dispatched ys"
  "received s (xs @ ys) = received s xs @ received s ys"
proof -
  show "accepted (xs @ ys) = accepted xs @ accepted ys" by (induction xs rule: accepted.induct) auto
  show "dispatched (xs @ ys) = dispatched xs @ dispatched ys" by (induction xs rule: dispatched.induct) auto
  show "received s (xs @ ys) = received s xs @ received s ys" by (induction s xs rule: received.induct) auto
qed

definition pendingEvents :: "hubReq list \<Rightarrow> Event list" where
  "pendingEvents reqs = concat (map (\<lambda>r. case r of EmitReq e _ \<Rightarrow> [e] | _ \<Rightarrow> []) reqs)"

lemma pendingEvents_simps [simp]:
  "pendingEvents [] = []"
  "pendingEvents (r # rs) = (case r of EmitReq e _ \<Rightarrow> [e] | _ \<Rightarrow> []) @ pendingEvents rs"
  "pendingEvents (rs @ ss) = pendingEvents rs @ pendingEvents ss"
  by (simp_all add: pendingEvents_def)

section \<open>Lemmas: the invariant of a run\<close>

text \<open>\<open>D\<close> is what was dispatched so far, \<open>R s\<close> what stream \<open>s\<close> handed out.\<close>

definition stream_log :: "(nat \<Rightarrow> Event list) \<Rightarrow> Hub \<Rightarrow> nat \<Rightarrow> Event list" where
  "stream_log R h s = R s @ sBuf (hStreams h ! s)"

definition streams_ok :: "Event list \<Rightarrow> (nat \<Rightarrow> Event list) \<Rightarrow> Hub \<Rightarrow> bool" where
  "streams_ok D R h \<longleftrightarrow>
     (\<forall>s < length (hStreams h). subseq (stream_log R h s) D \<and> length (sBuf (hStreams h ! s)) \<le> hQueue h)
     \<and> (\<forall>s \<in> set (hSubs h). s < length (hStreams h)) \<and> distinct (hSubs h)
     \<and> (\<forall>s \<ge> length (hStreams h). R s = [])
     \<and> (length D \<le> hQueue h \<longrightarrow> (\<forall>s \<in> set (hSubs h). \<not> sClosed (hStreams h ! s) \<longrightarrow> suffix (stream_log R h s) D))"

definition retained_ok :: "Event list \<Rightarrow> Hub \<Rightarrow> bool" where
  "retained_ok D h \<longleftrightarrow> hRetained h = drop (length D - hReplay h) D \<and> hReplay h \<le> hQueue h"

lemma retain_ok:
  assumes "retained_ok D h"
  shows "retained_ok (D @ [ev]) (retain ev h)"
proof (cases "length D < hReplay h")
  case True
  then show ?thesis using assms by (auto simp: retained_ok_def retain_def)
next
  case False
  then have "drop (length D - hReplay h) D = [] \<longleftrightarrow> hReplay h = 0" by auto
  moreover have "length (drop (length D - hReplay h) D) = hReplay h" using False by simp
  moreover have "tl (drop (length D - hReplay h) D) = drop (Suc (length D) - hReplay h) D" if "hReplay h \<noteq> 0"
    using False by (simp add: Suc_diff_le drop_Suc tl_drop)
  ultimately show ?thesis using assms False by (auto simp: retained_ok_def retain_def)
qed

lemma fanOut_same [simp]:
  "hQueue (fanOut ev ss h) = hQueue h" "hReplay (fanOut ev ss h) = hReplay h" "hRetained (fanOut ev ss h) = hRetained h"
  "hMailbox (fanOut ev ss h) = hMailbox h" "hExited (fanOut ev ss h) = hExited h"
  "length (hStreams (fanOut ev ss h)) = length (hStreams h)"
  by (induction ss arbitrary: h) (simp_all add: removeSub_def deliver_def Let_def)

lemma fanOut_subs:
  assumes "distinct (hSubs h)" "distinct ss" "\<forall>s \<in> set ss. s < length (hStreams h)"
  shows "hSubs (fanOut ev ss h) = filter (\<lambda>s. s \<notin> set ss \<or> \<not> sClosed (hStreams h ! s)) (hSubs h)"
  using assms
proof (induction ss arbitrary: h)
  case (Cons s ss)
  show ?case
  proof (cases "sClosed (hStreams h ! s)")
    case True
    then have "hSubs (fanOut ev (s # ss) h) = filter (\<lambda>s. s \<notin> set ss \<or> \<not> sClosed (hStreams h ! s)) (remove1 s (hSubs h))"
      using Cons by (simp add: removeSub_def)
    also have "\<dots> = filter (\<lambda>x. x \<notin> set (s # ss) \<or> \<not> sClosed (hStreams h ! x)) (hSubs h)"
      using Cons.prems(1,2) True by (auto simp: distinct_remove1_removeAll removeAll_filter_not_eq intro: filter_cong)
    finally show ?thesis .
  next
    case False
    have closed: "sClosed (hStreams (deliver ev s h) ! x) = sClosed (hStreams h ! x)" for x
      using Cons.prems(3) by (cases "x = s") (auto simp: deliver_def Let_def nth_list_update split: if_splits)
    have same: "hSubs (deliver ev s h) = hSubs h" "length (hStreams (deliver ev s h)) = length (hStreams h)"
      by (simp_all add: deliver_def Let_def)
    have "hSubs (fanOut ev (s # ss) h) = filter (\<lambda>x. x \<notin> set ss \<or> \<not> sClosed (hStreams h ! x)) (hSubs h)"
      using Cons.IH [of "deliver ev s h"] Cons.prems False same by (simp add: closed)
    also have "\<dots> = filter (\<lambda>x. x \<notin> set (s # ss) \<or> \<not> sClosed (hStreams h ! x)) (hSubs h)"
      using False by (auto intro: filter_cong)
    finally show ?thesis .
  qed
qed simp

lemma fanOut_stream:
  assumes "distinct ss" "\<forall>s \<in> set ss. s < length (hStreams h)"
  shows "hStreams (fanOut ev ss h) ! x =
    (let st = hStreams h ! x in
     if x \<in> set ss \<and> \<not> sClosed st \<and> length (sBuf st) < hQueue h then st\<lparr> sBuf := sBuf st @ [ev] \<rparr> else st)"
  using assms
proof (induction ss arbitrary: h)
  case (Cons s ss)
  show ?case
  proof (cases "sClosed (hStreams h ! s)")
    case True
    then show ?thesis using Cons by (auto simp: removeSub_def Let_def)
  next
    case False
    have "length (hStreams (deliver ev s h)) = length (hStreams h)" "hQueue (deliver ev s h) = hQueue h"
      by (simp_all add: deliver_def Let_def)
    then have "hStreams (fanOut ev (s # ss) h) ! x =
      (let st = hStreams (deliver ev s h) ! x in
       if x \<in> set ss \<and> \<not> sClosed st \<and> length (sBuf st) < hQueue h then st\<lparr> sBuf := sBuf st @ [ev] \<rparr> else st)"
      using Cons.IH [of "deliver ev s h"] Cons.prems False by simp
    then show ?thesis using Cons.prems False
      by (cases "x = s") (auto simp: deliver_def Let_def nth_list_update)
  qed
qed simp

lemma dispatch_ok:
  assumes "streams_ok D R h"
  shows "streams_ok (D @ [ev]) R (dispatch ev h)"
proof -
  let ?h = "retain ev h"
  have same: "hStreams ?h = hStreams h" "hSubs ?h = hSubs h" "hQueue ?h = hQueue h" by (simp_all add: retain_def)
  have subs: "distinct (hSubs h)" "\<forall>s \<in> set (hSubs h). s < length (hStreams h)" using assms by (auto simp: streams_ok_def)
  note stream = fanOut_stream [of "hSubs h" ?h ev, unfolded same, OF subs]
  have subs': "hSubs (dispatch ev h) = filter (\<lambda>s. \<not> sClosed (hStreams h ! s)) (hSubs h)"
    using fanOut_subs [of ?h "hSubs h" ev] subs by (auto simp: dispatch_def Let_def same intro: filter_cong)
  have at: "hStreams (dispatch ev h) ! x = (let st = hStreams h ! x in
      if x \<in> set (hSubs h) \<and> \<not> sClosed st \<and> length (sBuf st) < hQueue h then st\<lparr> sBuf := sBuf st @ [ev] \<rparr> else st)" for x
    using stream [of x] by (simp add: dispatch_def Let_def same)
  have len: "length (hStreams (dispatch ev h)) = length (hStreams h)" "hQueue (dispatch ev h) = hQueue h"
    by (simp_all add: dispatch_def Let_def same)
  have "subseq (stream_log R (dispatch ev h) s) (D @ [ev])" if "s < length (hStreams h)" for s
  proof -
    have "subseq (stream_log R h s) D" using assms that by (simp add: streams_ok_def)
    then have "subseq (stream_log R h s @ [ev]) (D @ [ev])" "subseq (stream_log R h s) (D @ [ev])"
      using list_emb_append_mono [of "(=)" "stream_log R h s" D "[]" "[ev]"] by (auto intro: list_emb_append_mono)
    then show ?thesis by (auto simp: stream_log_def at Let_def)
  qed
  moreover have "suffix (stream_log R (dispatch ev h) s) (D @ [ev])"
    if "length (D @ [ev]) \<le> hQueue h" "s \<in> set (hSubs h)" "\<not> sClosed (hStreams h ! s)" for s
  proof -
    have suf: "suffix (stream_log R h s) D" using assms that by (simp add: streams_ok_def)
    then have "length (sBuf (hStreams h ! s)) \<le> length D" using suffix_length_le by (fastforce simp: stream_log_def)
    then have "length (sBuf (hStreams h ! s)) < hQueue h" using that(1) by simp
    then have "stream_log R (dispatch ev h) s = stream_log R h s @ [ev]" using that(2,3) by (simp add: stream_log_def at Let_def)
    then show ?thesis using suf by (auto simp: suffix_def)
  qed
  ultimately show ?thesis using assms unfolding streams_ok_def subs' len
    by (auto simp: at Let_def split: if_splits)
qed

text \<open>The steps keep the invariant.\<close>

definition hub_inv :: "hubObs list \<Rightarrow> Hub \<Rightarrow> bool" where
  "hub_inv tr h \<longleftrightarrow> streams_ok (dispatched tr) (\<lambda>s. received s tr) h \<and> retained_ok (dispatched tr) h
     \<and> prefix (dispatched tr) (accepted tr)
     \<and> (\<not> hExited h \<longrightarrow> dispatched tr @ pendingEvents (hMailbox h) = accepted tr)"

lemma streams_ok_updates [simp]:
  "streams_ok D R (h\<lparr> hMailbox := b \<rparr>) = streams_ok D R h" "streams_ok D R (h\<lparr> hReplies := r \<rparr>) = streams_ok D R h"
  "streams_ok D R (h\<lparr> hDone := d \<rparr>) = streams_ok D R h" "streams_ok D R (h\<lparr> hStopped := x \<rparr>) = streams_ok D R h"
  "streams_ok D R (h\<lparr> hExited := x \<rparr>) = streams_ok D R h"
  by (simp_all add: streams_ok_def stream_log_def)

lemma retained_ok_updates [simp]:
  "retained_ok D (h\<lparr> hMailbox := b \<rparr>) = retained_ok D h" "retained_ok D (h\<lparr> hReplies := r \<rparr>) = retained_ok D h"
  "retained_ok D (h\<lparr> hDone := d \<rparr>) = retained_ok D h" "retained_ok D (h\<lparr> hStopped := x \<rparr>) = retained_ok D h"
  "retained_ok D (h\<lparr> hExited := x \<rparr>) = retained_ok D h" "retained_ok D (h\<lparr> hStreams := st \<rparr>) = retained_ok D h"
  "retained_ok D (h\<lparr> hSubs := ss \<rparr>) = retained_ok D h"
  by (simp_all add: retained_ok_def)

lemma retained_ok_fanOut [simp]: "retained_ok D (fanOut ev ss h) = retained_ok D h"
  by (simp add: retained_ok_def)

lemma removeSub_ok: "streams_ok D R h \<Longrightarrow> streams_ok D R (removeSub s h)"
  by (auto simp: streams_ok_def removeSub_def stream_log_def dest: notin_set_remove1 in_set_remove1 [THEN iffD1, rotated])

lemma subscribe_ok:
  assumes "streams_ok D R h" "retained_ok D h"
  shows "streams_ok D R (subscribe r h)"
proof -
  have new: "subseq (hRetained h) D" "suffix (hRetained h) D" "length (hRetained h) \<le> hQueue h"
    using assms(2) by (auto simp: retained_ok_def suffix_drop)
  then show ?thesis using assms(1)
    by (auto simp: streams_ok_def subscribe_def Let_def stream_log_def nth_append less_Suc_eq)
qed

lemma tryPost_inv:
  assumes "hub_inv tr h" "tryPost req h = (h', ok)"
  shows "hub_inv (tr @ (case req of EmitReq e _ \<Rightarrow> if ok then [Accepted e] else [] | _ \<Rightarrow> [])) h'"
proof -
  have "h' = (if ok then h\<lparr> hMailbox := hMailbox h @ [req] \<rparr> else h)" using assms(2) by (auto simp: tryPost_def split: if_splits)
  moreover have "streams_ok D R (h\<lparr> hMailbox := b \<rparr>) = streams_ok D R h" "retained_ok D (h\<lparr> hMailbox := b \<rparr>) = retained_ok D h" for D R b
    by simp_all
  ultimately show ?thesis using assms(1)
    by (auto simp: hub_inv_def prefix_def split: hubReq.splits)
qed

lemma hubServe_inv:
  assumes "hub_inv tr h" "hubServe h = (h', obs)"
  shows "hub_inv (tr @ obs) h'"
proof (cases "hExited h \<or> hMailbox h = []")
  case True
  then show ?thesis using assms by (auto simp: hubServe_def split: if_splits)
next
  case False
  then obtain req reqs where box: "hMailbox h = req # reqs" by (cases "hMailbox h") auto
  let ?h = "h\<lparr> hMailbox := reqs \<rparr>" and ?D = "dispatched tr" and ?R = "\<lambda>s. received s tr"
  have inv: "streams_ok ?D ?R ?h" "retained_ok ?D ?h" "?D @ pendingEvents (req # reqs) = accepted tr"
    using assms(1) False box by (simp_all add: hub_inv_def)
  have res: "h' = hubHandle req ?h" "obs = (case req of EmitReq ev _ \<Rightarrow> [Dispatched ev] | _ \<Rightarrow> [])"
    using assms(2) False box by (auto simp: hubServe_def)
  have pre: "prefix ?D (accepted tr)" using assms(1) by (simp add: hub_inv_def)
  show ?thesis
  proof (cases req)
    case (EmitReq ev d)
    have ok: "streams_ok (?D @ [ev]) ?R (dispatch ev ?h)" "retained_ok (?D @ [ev]) (dispatch ev ?h)"
      using dispatch_ok [OF inv(1)] retain_ok [OF inv(2), of ev] by (auto simp: dispatch_def Let_def)
    have "hMailbox (dispatch ev ?h) = reqs" "hExited (dispatch ev ?h) = hExited h" by (simp_all add: dispatch_def Let_def retain_def)
    moreover have "prefix (?D @ [ev]) (accepted tr)" using inv(3) EmitReq
      by (intro prefixI [of _ _ "pendingEvents reqs"]) simp
    ultimately show ?thesis using ok inv(3) EmitReq res
      by (auto simp: hub_inv_def hubHandle_def Let_def split: option.splits)
  next
    case (UnsubscribeReq s)
    then show ?thesis using removeSub_ok [OF inv(1)] inv res pre
      by (auto simp: hub_inv_def hubHandle_def removeSub_def)
  next
    case (SubscribeReq r)
    then show ?thesis using subscribe_ok [OF inv(1,2)] inv res pre
      by (auto simp: hub_inv_def hubHandle_def subscribe_def Let_def)
  qed
qed

lemma hubRecv_inv:
  assumes "hub_inv tr h" "hubRecv s h = (h', obs)"
  shows "hub_inv (tr @ obs) h'"
proof (cases "s < length (hStreams h) \<and> sBuf (hStreams h ! s) \<noteq> []")
  case False
  then show ?thesis using assms by (auto simp: hubRecv_def split: if_splits list.splits)
next
  case True
  then obtain ev evs where buf: "sBuf (hStreams h ! s) = ev # evs" by (cases "sBuf (hStreams h ! s)") auto
  let ?h = "h\<lparr> hStreams := (hStreams h)[s := (hStreams h ! s)\<lparr> sBuf := evs \<rparr>] \<rparr>" and ?R = "\<lambda>x. received x (tr @ [Received s ev])"
  have res: "h' = ?h" "obs = [Received s ev]" using assms(2) True buf by (auto simp: hubRecv_def)
  have log: "stream_log ?R ?h x = stream_log (\<lambda>x. received x tr) h x" for x
    using True buf by (cases "x = s") (auto simp: stream_log_def)
  have shrink: "length (sBuf (hStreams ?h ! x)) \<le> length (sBuf (hStreams h ! x))" for x
    using True buf by (cases "x = s") simp_all
  have closed: "sClosed (hStreams ?h ! x) = sClosed (hStreams h ! x)" for x
    using True by (cases "x = s") simp_all
  have old: "streams_ok (dispatched tr) (\<lambda>s. received s tr) h" using assms(1) by (simp add: hub_inv_def)
  then have "length (sBuf (hStreams ?h ! x)) \<le> hQueue h" if "x < length (hStreams h)" for x
    using order_trans [OF shrink] that by (simp add: streams_ok_def)
  moreover have "\<forall>x \<ge> length (hStreams h). ?R x = []" using old True by (auto simp: streams_ok_def)
  ultimately have "streams_ok (dispatched tr) ?R ?h"
    using old closed unfolding streams_ok_def log by simp
  then show ?thesis using assms(1) unfolding hub_inv_def res by simp
qed

lemma StreamClose_inv:
  assumes "hub_inv tr h"
  shows "hub_inv tr (StreamClose s h)"
proof (cases "s < length (hStreams h) \<and> \<not> sClosed (hStreams h ! s)")
  case True
  let ?h = "h\<lparr> hStreams := (hStreams h)[s := (hStreams h ! s)\<lparr> sClosed := True \<rparr>] \<rparr>"
  have log: "stream_log R ?h x = stream_log R h x" "length (sBuf (hStreams ?h ! x)) = length (sBuf (hStreams h ! x))"
    "sClosed (hStreams h ! x) \<Longrightarrow> sClosed (hStreams ?h ! x)" for x R
    using True by (cases "x = s"; simp add: stream_log_def)+
  have "streams_ok (dispatched tr) (\<lambda>s. received s tr) ?h"
    using assms log(3) unfolding hub_inv_def streams_ok_def log(1,2) by auto
  then have "hub_inv tr ?h" using assms unfolding hub_inv_def by simp
  then show ?thesis using tryPost_inv [of tr ?h "UnsubscribeReq s"] True
    by (cases "tryPost (UnsubscribeReq s) ?h") (simp add: StreamClose_def)
qed (use assms in \<open>auto simp: StreamClose_def\<close>)

lemma hubStep_inv:
  assumes "hub_inv tr h" "hubStep x h = (h', obs)"
  shows "hub_inv (tr @ obs) h'"
proof (cases x)
  case (OpEmit e)
  then show ?thesis using assms tryPost_inv [OF assms(1), of "EmitReq e None"]
    by (cases "tryPost (EmitReq e None) h") (auto simp: postObs_def Emit_def split: if_splits)
next
  case (OpEmitSync e d)
  then show ?thesis using assms tryPost_inv [OF assms(1), of "EmitReq e (Some d)"]
    by (cases "tryPost (EmitReq e (Some d)) h") (auto simp: postObs_def split: if_splits)
next
  case (OpSubscribe r)
  then show ?thesis using assms tryPost_inv [OF assms(1), of "SubscribeReq r"]
    by (cases "tryPost (SubscribeReq r) h") (auto simp: hub_inv_def split: if_splits)
next
  case OpServe
  then show ?thesis using assms hubServe_inv by simp
next
  case OpDrain
  then show ?thesis using assms by (auto simp: hub_inv_def hubDrain_def split: if_splits)
next
  case (OpRecv s)
  then show ?thesis using assms hubRecv_inv by simp
next
  case OpClose
  then show ?thesis using assms by (auto simp: hub_inv_def)
next
  case (OpStreamClose s)
  then show ?thesis using assms StreamClose_inv by auto
qed

lemma hubRun_inv:
  assumes "hub_inv tr h" "hubRun xs h = (h', obs)"
  shows "hub_inv (tr @ obs) h'"
  using assms
proof (induction xs arbitrary: tr h obs)
  case (Cons x xs)
  obtain h1 o1 where 1: "hubStep x h = (h1, o1)" by fastforce
  obtain o2 where 2: "hubRun xs h1 = (h', o2)" "obs = o1 @ o2" using Cons.prems(2) 1 by (auto split: prod.splits)
  show ?case using Cons.IH [OF hubStep_inv [OF Cons.prems(1) 1] 2(1)] 2(2) by simp
qed simp

lemma hubHandle_replay: "hReplay (hubHandle req h) = hReplay h"
  by (auto simp: hubHandle_def dispatch_def retain_def removeSub_def subscribe_def Let_def split: hubReq.splits option.splits)

lemma hubStep_replay: "hReplay (fst (hubStep x h)) = hReplay h"
  by (cases x)
    (auto simp: postObs_def Emit_def tryPost_def hubServe_def hubHandle_replay hubDrain_def hubRecv_def StreamClose_def split: list.splits)

lemma hubRun_replay: "hReplay (fst (hubRun xs h)) = hReplay h"
  by (induction xs arbitrary: h) (auto split: prod.splits simp: hubStep_replay [symmetric], metis fst_conv hubStep_replay)

lemma NewHub_inv: "hub_inv [] (NewHub queue replay)"
  by (auto simp: hub_inv_def NewHub_def Let_def streams_ok_def retained_ok_def)

section \<open>Properties\<close>

text \<open>C0: events are dispatched in the order the mailbox accepted them; what a subscriber was given and what waits in its
  channel is a subsequence of the dispatched events (so in order and without duplicates); the retained history is the
  last events dispatched; and a live subscriber missed nothing since its subscription while no more
  events were dispatched than its channel holds.\<close>

theorem hub_order:
  assumes "hubRun ops (NewHub queue replay) = (h, tr)" "s < length (hStreams h)"
  shows "prefix (dispatched tr) (accepted tr)
    \<and> hRetained h = drop (length (dispatched tr) - nat replay) (dispatched tr)
    \<and> subseq (received s tr @ sBuf (hStreams h ! s)) (dispatched tr)
    \<and> (s \<in> set (hSubs h) \<and> \<not> sClosed (hStreams h ! s) \<and> length (dispatched tr) \<le> hQueue h
         \<longrightarrow> suffix (received s tr @ sBuf (hStreams h ! s)) (dispatched tr))"
proof -
  have inv: "hub_inv tr h" using hubRun_inv [OF NewHub_inv assms(1)] by simp
  have "hReplay (NewHub queue replay) = nat replay" by (auto simp: NewHub_def Let_def)
  then have "hReplay h = nat replay" using hubRun_replay [of ops "NewHub queue replay"] assms(1) by simp
  then show ?thesis using inv assms(2) by (auto simp: hub_inv_def streams_ok_def retained_ok_def stream_log_def)
qed

definition sample_hub_ops :: "hubOp list" where
  "sample_hub_ops = [OpEmit (plainEvent EventStarting), OpServe, OpSubscribe 7, OpServe, OpEmit (plainEvent EventStarted), OpServe, OpRecv 0]"

theorem hub_order_witness:
  "\<exists>h tr. hubRun sample_hub_ops (NewHub 4 2) = (h, tr) \<and> 0 \<in> set (hSubs h) \<and> hReplies h = [(7, Some 0)]
     \<and> received 0 tr @ sBuf (hStreams h ! 0) = [plainEvent EventStarting, plainEvent EventStarted]
     \<and> subseq (received 0 tr @ sBuf (hStreams h ! 0)) (dispatched tr)"
proof -
  obtain h tr where run: "hubRun sample_hub_ops (NewHub 4 2) = (h, tr)" by fastforce
  then have h: "0 < length (hStreams h)" "0 \<in> set (hSubs h)" "hReplies h = [(7, Some 0)]"
    "received 0 tr @ sBuf (hStreams h ! 0) = [plainEvent EventStarting, plainEvent EventStarted]"
    by (auto simp: sample_hub_ops_def NewHub_def postObs_def Emit_def tryPost_def hubServe_def hubHandle_def dispatch_def
        retain_def deliver_def subscribe_def hubRecv_def)
  then show ?thesis using hub_order [OF run h(1)] run by blast
qed

end
