(* ===== verification/Eap.thy ===== *)
theory Eap
  imports Wire
begin

text \<open>
  The EAP layer (\<^verbatim>\<open>src/eap/eap.go\<close>, \<^verbatim>\<open>src/eap/worker.go\<close>): packets, the results of a method, the
  configuration, and the worker that serves the rounds of one method.

  A method is a value of a type \<open>'m\<close> with its operations; the octets a method draws from
  \<^verbatim>\<open>crypto/rand\<close> while it handles a packet are an argument of the handler. The Go
  interface \<^verbatim>\<open>eap.Method\<close> is the record \<open>Method\<close>, and the contract the
  worker relies on (a method that failed never completes before it is initialized again)
  is the locale \<open>eap_method\<close>. The lemmas of the locale show what a session sees of a
  worker: at most one completion, and none after an error.
\<close>

section \<open>Packets\<close>

abbreviation (input) "CodeRequest \<equiv> (1::8 word)"
abbreviation (input) "CodeResponse \<equiv> (2::8 word)"
abbreviation (input) "CodeSuccess \<equiv> (3::8 word)"
abbreviation (input) "CodeFailure \<equiv> (4::8 word)"

abbreviation (input) "TypeIdentity \<equiv> (1::8 word)"
abbreviation (input) "TypeNAK \<equiv> (3::8 word)"
abbreviation (input) "TypePEAP \<equiv> (25::8 word)"
abbreviation (input) "TypeMSCHAPV2 \<equiv> (26::8 word)"
abbreviation (input) "TypeMSTLV \<equiv> (33::8 word)"

record EapPacket =
  EapCode :: "8 word"
  Identifier :: "8 word"
  EapType :: "8 word"
  EapData :: bytes

definition EapParse :: "bytes \<Rightarrow> EapPacket res" where
  "EapParse b =
    (if length b < 4 then Inl (Errorf ''github.com/wsm25/swan/eap: packet too short'')
     else let declared = unat (beUint16 (subslice b 2 4)) in
     if declared \<noteq> length b
     then Inl (Errorf ''github.com/wsm25/swan/eap: declared length does not match buffer length'')
     else let p = \<lparr> EapCode = b ! 0, Identifier = b ! 1, EapType = 0, EapData = [] \<rparr> in
     if EapCode p = CodeRequest then
       if declared < 5 then Inl (Errorf ''github.com/wsm25/swan/eap: packet missing type byte'')
       else Inr (p\<lparr> EapType := b ! 4, EapData := drop 5 b \<rparr>)
     else if EapCode p = CodeSuccess \<or> EapCode p = CodeFailure then Inr (p\<lparr> EapData := drop 4 b \<rparr>)
     else Inl (Errorf ''github.com/wsm25/swan/eap: unsupported code''))"

definition BuildRequest :: "8 word \<Rightarrow> 8 word \<Rightarrow> 8 word \<Rightarrow> bytes \<Rightarrow> bytes res" where
  "BuildRequest code i typ data =
    (let hasType = (code = CodeRequest \<or> code = CodeResponse);
         packetLen = 4 + length data + (if hasType then 1 else 0) in
     if packetLen > 0xFFFF then Inl (Panic ''github.com/wsm25/swan/eap: packet too large'')
     else Inr ([code, i] @ be16 (word_of_nat packetLen) @ (if hasType then [typ] else []) @ data))"

section \<open>Methods\<close>

abbreviation (input) "ActionSend \<equiv> (0::8 word)"
abbreviation (input) "ActionComplete \<equiv> (1::8 word)"

record EapResult =
  RAction :: "8 word"
  RResponse :: bytes
  ExportedMSK :: bytes

definition zeroResult :: EapResult where
  "zeroResult = \<lparr> RAction = 0, RResponse = [], ExportedMSK = [] \<rparr>"

definition sendResult :: "bytes \<Rightarrow> EapResult" where
  "sendResult response = zeroResult\<lparr> RAction := ActionSend, RResponse := response \<rparr>"

definition completeResult :: "bytes \<Rightarrow> EapResult" where
  "completeResult msk = zeroResult\<lparr> RAction := ActionComplete, ExportedMSK := msk \<rparr>"

record EapConfig =
  EapMethod :: string
  EapIdentity :: bytes
  EapPassword :: bytes
  ServerName :: bytes
  FragmentSize :: int
  MaxMessageCount :: int
  IncludeLength :: bool
  EapStrongswanCompatible :: bool
  InsecureSkipVerify :: bool

text \<open>The operations of a method. \<open>Handle rnd packet round m\<close> may draw the octets \<open>rnd\<close>.\<close>

record 'm Method =
  MName :: "'m \<Rightarrow> string"
  Initialize :: "'m \<Rightarrow> 'm \<times> unit res"
  Handle :: "bytes res \<Rightarrow> bytes \<Rightarrow> 16 word \<Rightarrow> 'm \<Rightarrow> 'm \<times> EapResult res"
  MClose :: "'m \<Rightarrow> 'm"

section \<open>The worker\<close>

text \<open>A round carries a packet (None: the signal to initialize), its id, and whether it has a
  reply channel. The worker state is the method and whether it completed.\<close>

record Round =
  RPacket :: "bytes option"
  RID :: "16 word"
  RHasReply :: bool

record 'm Worker =
  WMethod :: 'm
  WCompleted :: bool

definition workerRound :: "'m Method \<Rightarrow> bool \<Rightarrow> bytes res \<Rightarrow> Round \<Rightarrow> 'm Worker \<Rightarrow> 'm Worker \<times> EapResult res option" where
  "workerRound ops closeOnComplete rnd rd w =
    (if \<not> RHasReply rd then (w, None)
     else case RPacket rd of
       None \<Rightarrow>
         (case Initialize ops (WMethod w) of
            (m, Inl e) \<Rightarrow> (w\<lparr> WMethod := m \<rparr>, Some (Inl e))
          | (m, Inr _) \<Rightarrow> (w\<lparr> WMethod := m \<rparr>, Some (Inr zeroResult)))
     | Some packet \<Rightarrow>
         if WCompleted w then (w, Some (Inl (Errorf ''eap method already completed'')))
         else
           (case Handle ops rnd packet (RID rd) (WMethod w) of
              (m, Inl e) \<Rightarrow> (w\<lparr> WMethod := m \<rparr>, Some (Inl e))
            | (m, Inr r) \<Rightarrow>
                if RAction r = ActionComplete
                then (w\<lparr> WMethod := if closeOnComplete then MClose ops m else m, WCompleted := True \<rparr>, Some (Inr r))
                else (w\<lparr> WMethod := m \<rparr>, Some (Inr r))))"

text \<open>The loop of \<^verbatim>\<open>Worker.Run\<close> over the rounds that arrive before the mailbox closes or the
  context is done; each comes with the octets the method may draw.\<close>

fun serveRounds :: "'m Method \<Rightarrow> bool \<Rightarrow> (bytes res \<times> Round) list \<Rightarrow> 'm Worker \<Rightarrow> 'm Worker \<times> EapResult res list" where
  "serveRounds ops closeOnComplete [] w = (w, [])"
| "serveRounds ops closeOnComplete ((rnd, rd) # rds) w =
    (case workerRound ops closeOnComplete rnd rd w of (w, reply) \<Rightarrow>
     case serveRounds ops closeOnComplete rds w of (w, replies) \<Rightarrow>
       (w, (case reply of None \<Rightarrow> [] | Some r \<Rightarrow> [r]) @ replies))"

definition WorkerRun :: "'m Method \<Rightarrow> (bytes res \<times> Round) list \<Rightarrow> 'm \<Rightarrow> 'm \<times> EapResult res list res" where
  "WorkerRun ops rds m =
    (case Initialize ops m of
       (m, Inl e) \<Rightarrow> (m, Inl (Errorf ''github.com/wsm25/swan/eap: initialize''))
     | (m, Inr _) \<Rightarrow>
         (case serveRounds ops True rds \<lparr> WMethod = m, WCompleted = False \<rparr> of
            (w, replies) \<Rightarrow> (WMethod w, Inr replies)))"

section \<open>Lemmas: packets\<close>

lemma EapParse_Build:
  assumes "BuildRequest code i typ data = Inr b" "code \<in> {CodeRequest, CodeSuccess, CodeFailure}"
  shows "EapParse b = Inr \<lparr> EapCode = code, Identifier = i, EapType = (if code = CodeRequest then typ else 0), EapData = data \<rparr>"
proof -
  define t where "t = (if code = CodeRequest then [typ] else [])"
  define n where "n = 4 + length t + length data"
  have n: "n \<le> 0xFFFF" and b: "b = [code, i] @ be16 (word_of_nat n) @ t @ data"
    using assms by (auto simp: BuildRequest_def Let_def t_def n_def split: if_splits)
  have len: "length b = n" by (simp add: b n_def)
  have sub: "unat (beUint16 (subslice b 2 4)) = n" using n by (simp add: b subslice_def)
  have "b ! 0 = code" "b ! 1 = i" "drop 4 b = t @ data" by (simp_all add: b be16_def)
  moreover from this have "code = CodeRequest \<Longrightarrow> b ! 4 = typ \<and> drop 5 b = data"
    using len by (simp add: b t_def be16_def)
  moreover have "code = CodeRequest \<Longrightarrow> 5 \<le> n" "4 \<le> n" by (simp_all add: n_def t_def)
  ultimately show ?thesis using assms(2) sub len unfolding EapParse_def Let_def
    by (elim insertE emptyE) (simp_all add: t_def)
qed

lemma length_BuildRequest:
  "BuildRequest code i typ data = Inr b \<Longrightarrow> 4 \<le> length b"
  by (auto simp: BuildRequest_def Let_def split: if_splits)

lemma result_simps [simp]:
  "RAction (sendResult r) = ActionSend" "RResponse (sendResult r) = r"
  "RAction (completeResult k) = ActionComplete" "ExportedMSK (completeResult k) = k"
  "RAction zeroResult = ActionSend"
  by (simp_all add: sendResult_def completeResult_def zeroResult_def)

section \<open>The contract of a method\<close>

definition completes :: "EapResult res \<Rightarrow> bool" where
  "completes r = (case r of Inl _ \<Rightarrow> False | Inr x \<Rightarrow> RAction x = ActionComplete)"

lemma completes_simps [simp]: "\<not> completes (Inl e)" "completes (Inr x) \<longleftrightarrow> RAction x = ActionComplete"
  by (simp_all add: completes_def)

text \<open>A reply that ends a session: a completion or an error (a panic ends the program).\<close>

definition is_panic :: "error \<Rightarrow> bool" where
  "is_panic e = (case e of Panic _ \<Rightarrow> True | _ \<Rightarrow> False)"

definition ends :: "EapResult res \<Rightarrow> bool" where
  "ends r = (case r of Inl e \<Rightarrow> \<not> is_panic e | Inr x \<Rightarrow> RAction x = ActionComplete)"

lemma is_panic_simps [simp]: "is_panic (Panic s)" "\<not> is_panic (Errorf s)"
  by (simp_all add: is_panic_def)

text \<open>\<open>dead\<close> holds of a method that failed: it never completes, and stays so while it is only
  handed packets.\<close>

locale eap_method =
  fixes ops :: "'m Method"
    and dead :: "'m \<Rightarrow> bool"
  assumes fails: "Handle ops rnd p i m = (m', Inl e) \<Longrightarrow> \<not> is_panic e \<Longrightarrow> dead m'"
    and stays: "dead m \<Longrightarrow> Handle ops rnd p i m = (m', r) \<Longrightarrow> dead m' \<and> \<not> completes r"
begin

definition silent :: "'m Worker \<Rightarrow> bool" where
  "silent w \<longleftrightarrow> WCompleted w \<or> dead (WMethod w)"

lemma silent_round:
  assumes "silent w" "RPacket rd \<noteq> None" "workerRound ops c rnd rd w = (w', r)"
  shows "silent w' \<and> (\<forall>x. r = Some x \<longrightarrow> \<not> completes x)"
  using assms stays [of "WMethod w" rnd _ "RID rd"]
  by (fastforce simp: workerRound_def silent_def ends_def split: if_splits option.splits prod.splits sum.splits)

lemma round_silences:
  assumes "RPacket rd \<noteq> None" "workerRound ops c rnd rd w = (w', Some r)" "ends r"
  shows "silent w'"
  using assms fails
  by (fastforce simp: workerRound_def silent_def ends_def split: if_splits option.splits prod.splits sum.splits)

lemma silent_rounds:
  assumes "silent w" "\<forall>(_, rd) \<in> set rds. RPacket rd \<noteq> None" "serveRounds ops c rds w = (w', rs)"
  shows "list_all (\<lambda>r. \<not> completes r) rs"
  using assms
proof (induction rds arbitrary: w w' rs)
  case (Cons a rds)
  obtain rnd rd where a: "a = (rnd, rd)" by fastforce
  obtain w1 r where 1: "workerRound ops c rnd rd w = (w1, r)" by fastforce
  obtain w2 rs' where 2: "serveRounds ops c rds w1 = (w2, rs')" by fastforce
  have "silent w1" "\<forall>x. r = Some x \<longrightarrow> \<not> completes x" using silent_round [OF Cons.prems(1) _ 1] Cons.prems(2) a by auto
  moreover have "list_all (\<lambda>r. \<not> completes r) rs'" using Cons.IH [OF \<open>silent w1\<close> _ 2] Cons.prems(2) by auto
  ultimately show ?case using Cons.prems(3) a 1 2 by (auto split: option.splits)
qed simp

text \<open>Among the replies to the packets of a session nothing follows a completion or an error
  but replies that are not completions.\<close>

lemma completes_last:
  assumes "\<forall>(_, rd) \<in> set rds. RPacket rd \<noteq> None" "serveRounds ops c rds w = (w', xs @ r # ys)"
    and "ends r"
  shows "list_all (\<lambda>r. \<not> completes r) ys"
  using assms(1,2)
proof (induction rds arbitrary: w w' xs)
  case (Cons a rds)
  obtain rnd rd where a: "a = (rnd, rd)" by fastforce
  obtain w1 q where 1: "workerRound ops c rnd rd w = (w1, q)" by fastforce
  obtain w2 rs' where 2: "serveRounds ops c rds w1 = (w2, rs')" by fastforce
  have rs: "(case q of None \<Rightarrow> [] | Some r \<Rightarrow> [r]) @ rs' = xs @ r # ys" using Cons.prems(2) a 1 2 by simp
  have pk: "RPacket rd \<noteq> None" "\<forall>(_, rd) \<in> set rds. RPacket rd \<noteq> None" using Cons.prems(1) a by auto
  show ?case
  proof (cases "q = Some r \<and> xs = []")
    case True
    then have "silent w1" using round_silences [OF pk(1), of c rnd w w1 r] 1 assms(3) by simp
    then show ?thesis using silent_rounds [OF _ pk(2) 2] rs True by simp
  next
    case False
    then have "\<exists>xs'. rs' = xs' @ r # ys" using rs by (cases q; cases xs) auto
    then show ?thesis using Cons.IH [OF pk(2)] 2 by blast
  qed
qed simp

end

end
