(* ===== verification/Control_State.thy ===== *)
theory Control_State
  imports Payload_Codecs Xcrypto_Suite Transport Events_Hub Eap Complex_Main
begin

text \<open>
  The configuration of the control plane (\<^verbatim>\<open>src/control/config.go\<close>) and the state of
  an IKE SA (\<^verbatim>\<open>src/control/state.go\<close>): phases, message-id counters,
  SPIs, keys, checkpoints of the exchanges, the fragment table, the CHILD_SAs,
  the rekey context and the retained old SA. A pointer that may be nil is an
  option; a time or duration is an integer number of
  nanoseconds, the threshold of the sequence numbers an exact fraction. The control theories pass a value
  of this record through their functions.
\<close>

section \<open>Configuration\<close>

record Lifetime =
  LtTime :: int
  LtBytes :: "64 word"
  LtPackets :: "64 word"

record RekeyConfig =
  RcIKE :: Lifetime
  RcChild :: Lifetime
  ChildPFS :: bool
  RandTime :: int
  RetryInterval :: int
  NearWrapThreshold :: rat

record Timeouts =
  InitialRTO :: int
  MaxRTO :: int
  MaxRetries :: "8 word"
  Keepalive :: int
  SkfReassemblyTimeout :: int

record Config =
  PeerIP :: bytes
  LocalIP :: bytes
  CfgIKE :: "XProposal list"
  CfgESP :: "XProposal list"
  IDI :: ID
  RightID :: ID
  AAAIdentity :: string
  CfgEAP :: EapConfig
  InsecureSkipPeerCertVerify :: bool
  StrongswanCompatible :: bool
  CfgRekey :: RekeyConfig
  CfgTimeouts :: Timeouts
  CfgFragmentLimit :: int

abbreviation (input) "time_Second \<equiv> (1000000000::int)"

definition DefaultTimeouts :: Timeouts where
  "DefaultTimeouts = \<lparr> InitialRTO = time_Second, MaxRTO = 8 * time_Second, MaxRetries = 5,
     Keepalive = 20 * time_Second, SkfReassemblyTimeout = 15 * time_Second \<rparr>"

definition Validate :: "Config \<Rightarrow> unit res" where
  "Validate c =
    (if length (CfgIKE c) = 0 then Inl (Errorf ''control: IKE proposals are required'')
     else if length (CfgESP c) = 0 then Inl (Errorf ''control: ESP proposals are required'')
     else if length (IDData (IDI c)) = 0 then Inl (Errorf ''control: IDI identity is required'')
     else if EapMethod (CfgEAP c) = ''peap'' \<and> AAAIdentity c = [] then Inl (Errorf ''control: AAAIdentity is required for peap'')
     else if InitialRTO (CfgTimeouts c) \<le> 0 then Inl (Errorf ''control: InitialRTO must be > 0'')
     else if MaxRTO (CfgTimeouts c) \<le> 0 then Inl (Errorf ''control: MaxRTO must be > 0'')
     else if MaxRetries (CfgTimeouts c) = 0 then Inl (Errorf ''control: MaxRetries must be > 0'')
     else if Keepalive (CfgTimeouts c) \<le> 0 then Inl (Errorf ''control: Keepalive must be > 0'')
     else if SkfReassemblyTimeout (CfgTimeouts c) \<le> 0
     then Inl (Errorf ''control: SkfReassemblyTimeout must be > 0'')
     else if CfgFragmentLimit c \<le> 0 then Inl (Errorf ''control: FragmentPlaintextLimit must be > 0'')
     else if LtTime (RcIKE (CfgRekey c)) \<le> 0 then Inl (Errorf ''control: Rekey.IKE.Time must be > 0'')
     else if LtTime (RcChild (CfgRekey c)) \<le> 0 then Inl (Errorf ''control: Rekey.Child.Time must be > 0'')
     else if RetryInterval (CfgRekey c) \<le> 0 then Inl (Errorf ''control: Rekey.RetryInterval must be > 0'')
     else if ChildPFS (CfgRekey c) \<and> \<not> list_ex (\<lambda>esp. length (XDH esp) > 0) (CfgESP c)
     then Inl (Errorf ''control: ChildPFS requires at least one ESP proposal with a DH group'')
     else Inr ())"

section \<open>Phases\<close>

datatype Phase =
    PhaseStopped
  | PhaseStarting
  | PhaseSAInitSent
  | PhaseSAInitEstablished
  | PhaseAuthBootstrap
  | PhaseAuthEAPInProgress
  | PhaseChildInstalling
  | PhaseRunning
  | PhaseRekeyChildRequesting
  | PhaseRekeyChildInstalling
  | PhaseRekeyChildDeletingOld
  | PhaseRekeyIkeRequesting
  | PhaseRekeyIkeInstalling
  | PhaseRekeyIkeDeletingOld
  | PhaseFailed

definition Terminal :: "Phase \<Rightarrow> bool" where
  "Terminal p \<longleftrightarrow> p = PhaseStopped \<or> p = PhaseFailed"

section \<open>Parts of the state\<close>

record NatState =
  SourceHashLocal :: bytes
  DestinationHashLocal :: bytes
  SourceHashRemote :: bytes
  DestinationHashRemote :: bytes
  Detected :: bool

record AuthState =
  FirstIDiPayload :: bytes
  PeerIDr :: bytes
  PeerAuthMethod :: "8 word"
  PeerSignatureHashAlgorithms :: "16 word list"
  PeerCerts :: "bytes list"
  LocalEAPMSK :: bytes

record NegotiatingChildSA =
  NegInboundSPI :: "32 word"

record ChildSA =
  InboundSPI :: "32 word"
  OutboundSPI :: "32 word"
  ChTSi :: bytes
  ChTSr :: bytes
  LocalChildInitiator :: bool

record AssignedConfig =
  InternalIPv4 :: "bytes option"
  InternalIPv6 :: "bytes option"
  InternalIPv6Prefix :: "8 word"
  DNS4 :: "bytes list"
  DNS6 :: "bytes list"
  AddressExpirySeconds :: "32 word"

datatype RekeyKind = RekeyChild | RekeyIke

datatype RekeyTrigger = RekeyTriggerTime | RekeyTriggerNearWrap | RekeyTriggerFlow

record PassiveRekey =
  PrMessageID :: "32 word"
  PrNi :: bytes
  PrNr :: bytes
  PrChild :: ChildSA
  PrKeys :: ChildKeys
  PrSelection :: Selection

record RekeyContext =
  RkKind :: RekeyKind
  RkTrigger :: RekeyTrigger
  RkStartedAt :: int
  RkMessageID :: "32 word"
  RkNi :: bytes
  RkLocalDH :: "DHKey option"
  RkLocalKE :: "KeyExchange option"
  RkOldChild :: "ChildSA option"
  RkNewChild :: "NegotiatingChildSA option"
  RkNewPeerSPI :: "32 word"
  RkNewInitiatorSPI :: "64 word"
  RkNewSelection :: "Selection option"
  RkNewIKEKeys :: "IKEKeys option"
  RkNewNonceN :: bytes
  RkNewResponderSPI :: "64 word"
  RkPeerPassive :: "PassiveRekey option"

record Checkpoint =
  CkMessageID :: "32 word"
  CkPackets :: "Frame list"

record CachedResponse =
  CrMessageID :: "32 word"
  ResponsePackets :: "Frame list"

record PeerCapabilities =
  SupportsEAPOnlyAuthentication :: bool
  SupportsMessageIDSync :: bool
  SupportsFragmentation :: bool

record FragmentReassembly =
  FrExchangeType :: ExchangeType
  FrMessageID :: "32 word"
  FirstInnerPayload :: PayloadType
  Fragments :: "bytes option list"
  ExpiresAt :: int

record OldIKEContext =
  OldInitiatorSPI :: "64 word"
  OldResponderSPI :: "64 word"
  OldIsOriginalInitiator :: bool
  OldSelectedIKE :: "Selection option"
  OldIKEKeys :: "IKEKeys option"
  OldNextRequestMessageID :: "32 word"
  OldExpectedResponseMessageID :: "32 word"
  OldHasExpectedResponse :: bool
  OldOutboundRequest :: "Checkpoint option"
  OldInboundHistory :: "CachedResponse list"
  OldInboundFragments :: "FragmentReassembly option"

section \<open>The state\<close>

record State =
  SPhase :: Phase
  NextRequestMessageID :: "32 word"
  ExpectedResponseMessageID :: "32 word"
  HasExpectedResponse :: bool
  LastCompletedResponseMessageID :: "32 word"
  HasLastCompletedResponse :: bool
  FirstIKEAuthSeen :: bool
  IsOriginalInitiator :: bool
  SInitiatorSPI :: "64 word"
  SResponderSPI :: "64 word"
  SAInitRequest :: bytes
  SAInitResponse :: bytes
  Cookie :: bytes
  InitiatorNonce :: bytes
  ResponderNonce :: bytes
  InitiatorKE :: KeyExchange
  ResponderKE :: KeyExchange
  LocalDH :: "DHKey option"
  SIKEKeys :: "IKEKeys option"
  SelectedIKE :: "Selection option"
  SelectedESP :: "Selection option"
  NAT :: NatState
  SAuth :: AuthState
  NegotiatingChild :: "NegotiatingChildSA option"
  ActiveChild :: "ChildSA option"
  OldChild :: "ChildSA option"
  Rekey :: "RekeyContext option"
  OldIKE :: "OldIKEContext list"
  OutboundRequest :: "Checkpoint option"
  InboundHistory :: "CachedResponse list"
  Peer :: PeerCapabilities
  InboundFragments :: "FragmentReassembly option"
  Assigned :: "AssignedConfig option"
  FailureReason :: string
  SuppressAuthFailedNotify :: bool

datatype UpdateKind = UpdateChildInstalled | UpdateChildDeleted | UpdateAssigned

record DataplaneUpdate =
  UpKind :: UpdateKind
  UpChild :: ChildSA
  UpKeys :: "ChildKeys option"
  UpSelection :: "Selection option"
  UpAssigned :: "AssignedConfig option"

definition zeroChild :: ChildSA where
  "zeroChild = \<lparr> InboundSPI = 0, OutboundSPI = 0, ChTSi = [], ChTSr = [], LocalChildInitiator = False \<rparr>"

definition zeroKE :: KeyExchange where
  "zeroKE = \<lparr> DHGroup = 0, KEData = [] \<rparr>"

definition NewState :: State where
  "NewState = \<lparr> SPhase = PhaseStopped, NextRequestMessageID = 0, ExpectedResponseMessageID = 0,
     HasExpectedResponse = False, LastCompletedResponseMessageID = 0, HasLastCompletedResponse = False,
     FirstIKEAuthSeen = False, IsOriginalInitiator = True, SInitiatorSPI = 0, SResponderSPI = 0,
     SAInitRequest = [], SAInitResponse = [], Cookie = [], InitiatorNonce = [], ResponderNonce = [],
     InitiatorKE = zeroKE, ResponderKE = zeroKE, LocalDH = None, SIKEKeys = None,
     SelectedIKE = None, SelectedESP = None,
     NAT = \<lparr> SourceHashLocal = [], DestinationHashLocal = [], SourceHashRemote = [],
             DestinationHashRemote = [], Detected = False \<rparr>,
     SAuth = \<lparr> FirstIDiPayload = [], PeerIDr = [], PeerAuthMethod = 0,
               PeerSignatureHashAlgorithms = [], PeerCerts = [], LocalEAPMSK = [] \<rparr>,
     NegotiatingChild = None, ActiveChild = None, OldChild = None, Rekey = None, OldIKE = [],
     OutboundRequest = None, InboundHistory = [],
     Peer = \<lparr> SupportsEAPOnlyAuthentication = False, SupportsMessageIDSync = False,
              SupportsFragmentation = False \<rparr>,
     InboundFragments = None, Assigned = None, FailureReason = '''', SuppressAuthFailedNotify = False \<rparr>"

definition ResetState :: "State \<Rightarrow> State" where
  "ResetState s = NewState"

definition ClearSession :: "State \<Rightarrow> State" where
  "ClearSession s = s\<lparr>
     SIKEKeys := None, InitiatorNonce := [], ResponderNonce := [], Cookie := [],
     NegotiatingChild := None, ActiveChild := None, OldChild := None, Rekey := None, OldIKE := [],
     OutboundRequest := None, InboundHistory := [], InboundFragments := None, Assigned := None,
     LocalDH := None,
     SAuth := (SAuth s)\<lparr> LocalEAPMSK := [], FirstIDiPayload := [], PeerIDr := [],
                          PeerSignatureHashAlgorithms := [], PeerCerts := [] \<rparr>,
     SAInitRequest := [], SAInitResponse := [], HasExpectedResponse := False,
     HasLastCompletedResponse := False, FirstIKEAuthSeen := False,
     SuppressAuthFailedNotify := False \<rparr>"

section \<open>Lemmas\<close>

text \<open>What a closed session still holds of the keys: nothing. The secrets of the state
  are the IKE keys, the DH private key, the MSK, nonces, the rekey context, and the keys of
  a retained old SA.\<close>

definition secrets :: "State \<Rightarrow> bytes list" where
  "secrets s =
     (case SIKEKeys s of None \<Rightarrow> [] | Some k \<Rightarrow> [SKd k, SKai k, SKar k, SKei k, SKer k, SKpi k, SKpr k])
     @ (case LocalDH s of None \<Rightarrow> [] | Some k \<Rightarrow> (case dhkey k of None \<Rightarrow> [] | Some b \<Rightarrow> [b]))
     @ (if LocalEAPMSK (SAuth s) = [] then [] else [LocalEAPMSK (SAuth s)])
     @ (case Rekey s of None \<Rightarrow> [] | Some r \<Rightarrow> [RkNi r])
     @ concat (map (\<lambda>o'. case OldIKEKeys o' of None \<Rightarrow> [] | Some k \<Rightarrow> [SKd k, SKei k, SKer k]) (OldIKE s))"

lemma secrets_ClearSession: "secrets (ClearSession s) = []"
  by (simp add: secrets_def ClearSession_def)

end
