(* ===== verification/Control_Protected.thy ===== *)
theory Control_Protected
  imports Control_State
begin

text \<open>
  Protected IKE messages (\<^verbatim>\<open>src/control/protected.go\<close>): the per-SA crypto envelope,
  sealing of SK and SKF packets with fragmentation, opening of a packet by its
  raw offsets or from the parsed message, and reassembly of inbound fragments.

  The IV octets drawn by \<^verbatim>\<open>Fill\<close> are arguments (for a fragmented message one per
  fragment), as is the current time. A function that may change the fragment
  table returns the state next to its result.

  The lemmas show that padding is undone by stripping, that what one end seals
  the other end opens, that fragments in any order of arrival reassemble to the
  plaintext that was split, and that the two ways of opening a message agree.
\<close>

section \<open>Envelope\<close>

abbreviation (input) "skfFirstPayloadUnset \<equiv> (0xff::PayloadType)"
abbreviation (input) "FragmentPlaintextLimit \<equiv> (1024::int)"
abbreviation (input) "SkfReassemblyTimeoutDefault \<equiv> (15 * time_Second)"

record ikeEnvelope =
  EnvInitiatorSPI :: "64 word"
  EnvResponderSPI :: "64 word"
  EnvIsOriginalInitiator :: bool
  EnvSelectedIKE :: "Selection option"
  EnvIKEKeys :: "IKEKeys option"
  EnvPeer :: PeerCapabilities

definition noCapabilities :: PeerCapabilities where
  "noCapabilities = \<lparr> SupportsEAPOnlyAuthentication = False, SupportsMessageIDSync = False,
     SupportsFragmentation = False \<rparr>"

definition stateIKEEnvelope :: "State \<Rightarrow> ikeEnvelope" where
  "stateIKEEnvelope s = \<lparr> EnvInitiatorSPI = SInitiatorSPI s, EnvResponderSPI = SResponderSPI s,
     EnvIsOriginalInitiator = IsOriginalInitiator s, EnvSelectedIKE = SelectedIKE s,
     EnvIKEKeys = SIKEKeys s, EnvPeer = Peer s \<rparr>"

definition oldIKEEnvelope :: "OldIKEContext \<Rightarrow> ikeEnvelope" where
  "oldIKEEnvelope c = \<lparr> EnvInitiatorSPI = OldInitiatorSPI c, EnvResponderSPI = OldResponderSPI c,
     EnvIsOriginalInitiator = OldIsOriginalInitiator c, EnvSelectedIKE = OldSelectedIKE c,
     EnvIKEKeys = OldIKEKeys c, EnvPeer = noCapabilities \<rparr>"

definition requestFlags :: "ikeEnvelope \<Rightarrow> Flags" where
  "requestFlags env = (if EnvIsOriginalInitiator env then FlagInitiator else 0)"

definition responseFlags :: "ikeEnvelope \<Rightarrow> Flags" where
  "responseFlags env = FlagResponse OR requestFlags env"

definition inboundKeyHalves :: "bool \<Rightarrow> IKEKeys \<Rightarrow> bytes \<times> bytes" where
  "inboundKeyHalves isOriginalInitiator k =
    (if isOriginalInitiator then (SKer k, SKar k) else (SKei k, SKai k))"

definition outboundKeyHalves :: "bool \<Rightarrow> IKEKeys \<Rightarrow> bytes \<times> bytes" where
  "outboundKeyHalves isOriginalInitiator k =
    (if isOriginalInitiator then (SKei k, SKai k) else (SKer k, SKar k))"

section \<open>Padding\<close>

definition padIKEPlaintext :: "EncryptionAlg \<Rightarrow> bytes \<Rightarrow> bytes" where
  "padIKEPlaintext enc plain =
    (let block = (if BlockLen enc < 1 then 1 else BlockLen enc);
         base = length plain + 1;
         padLen = (block - base mod block) mod block
     in plain @ map word_of_nat [1..<Suc padLen] @ [word_of_nat padLen])"

definition stripIKEPlaintext :: "bytes \<Rightarrow> bytes res" where
  "stripIKEPlaintext plain =
    (if length plain = 0 then Inl (Errorf ''control: empty protected plaintext'')
     else let padLen = unat (plain ! (length plain - 1)) in
       if padLen \<ge> length plain then Inl (Errorf ''control: invalid protected padding length'')
       else Inr (take (length plain - 1 - padLen) plain))"

section \<open>Sealing\<close>

definition sealProtectedEnvelope ::
  "bytes res \<Rightarrow> ikeEnvelope \<Rightarrow> ExchangeType \<Rightarrow> 32 word \<Rightarrow> PayloadType \<Rightarrow> PayloadType \<Rightarrow> SkfHeader option
     \<Rightarrow> bytes \<Rightarrow> Flags \<Rightarrow> Frame res" where
  "sealProtectedEnvelope rnd env exchange msgID innerNext encType frag plaintext flags =
    bind_res (deref (EnvSelectedIKE env)) (\<lambda>sel.
    let enc = SelEncryption sel; integ = SelIntegrity sel in
    if (case frag of None \<Rightarrow> False | Some f \<Rightarrow>
          FragmentNumber f = 0 \<or> TotalFragments f = 0 \<or> FragmentNumber f > TotalFragments f)
    then Inl (Errorf ''control: invalid SKF fragment numbers'')
    else if IVLen enc = 0 then Inl (Errorf ''control: invalid IKE cipher IV length'')
    else if \<not> AEAD enc \<and> IntegKeyLen integ = 0
    then Inl (Errorf ''control: non-AEAD IKE cipher has no integrity transform'')
    else
      let outerICVLen = (if AEAD enc then 0 else OutputLen integ);
          hdr = \<lparr> InitiatorSPI = Uint64SPI (EnvInitiatorSPI env), ResponderSPI = Uint64SPI (EnvResponderSPI env),
                  NextPayload = encType, Version = IKEDefaultVersion, ExchangeTyp = exchange,
                  HFlags = flags, MessageID = msgID, Length = 0 \<rparr>;
          pkt = MarshalTo hdr [];
          payloadHeaderOffset = length pkt;
          pkt = pkt @ [innerNext, 0, 0, 0];
          fragHeaderLen = (case frag of None \<Rightarrow> 0 | Some _ \<Rightarrow> SkfHeaderLen);
          pkt = (case frag of
                   None \<Rightarrow> pkt
                 | Some f \<Rightarrow>
                     let fragStart = length pkt; pkt = pkt @ [0, 0, 0, 0];
                         pkt = putUint16 pkt fragStart (FragmentNumber f)
                     in putUint16 pkt (fragStart + 2) (TotalFragments f));
          padded = padIKEPlaintext enc plaintext;
          sealedLen = length padded + (if AEAD enc then ICVLen enc else 0);
          payloadLen = PayloadHeaderLen + fragHeaderLen + IVLen enc + sealedLen + outerICVLen;
          packetLen = length pkt + IVLen enc + sealedLen + outerICVLen in
      if payloadLen > 0xffff then Inl (Errorf ''control: protected payload too long'')
      else if packetLen > 0xffffffff then Inl (Errorf ''control: protected packet too long'')
      else
        let pkt = putUint16 pkt (payloadHeaderOffset + 2) (word_of_nat payloadLen);
            pkt = putUint32 pkt 24 (word_of_nat packetLen);
            aad = (if AEAD enc then pkt else []) in
        bind_res (wrap_err ''control: generate IKE IV'' rnd) (\<lambda>iv.
        bind_res (deref (EnvIKEKeys env)) (\<lambda>keys.
        let (encKey, integKey) = outboundKeyHalves (EnvIsOriginalInitiator env) keys in
        bind_res (wrap_err ''control: encrypt protected payload'' (Seal enc encKey iv aad padded)) (\<lambda>sealed.
        let pkt = pkt @ iv @ sealed in
        if AEAD enc then Inr \<lparr> FKind = KindIKE, FPayload = pkt, Frelease = False \<rparr>
        else bind_res (wrap_err ''control: sign IKE packet'' (Sign integ integKey pkt)) (\<lambda>icv.
          Inr \<lparr> FKind = KindIKE, FPayload = pkt @ icv, Frelease = False \<rparr>)))))"

text \<open>The loop over the fragments; fragment \<open>i\<close> uses the \<open>i\<close>-th IV.\<close>

fun sealFragments ::
  "(nat \<Rightarrow> bytes res) \<Rightarrow> ikeEnvelope \<Rightarrow> ExchangeType \<Rightarrow> 32 word \<Rightarrow> PayloadType \<Rightarrow> bytes \<Rightarrow> Flags \<Rightarrow> nat \<Rightarrow> nat
     \<Rightarrow> nat list \<Rightarrow> Frame list res" where
  "sealFragments rnd env exchange msgID nextPayload plaintext flags chunk count [] = Inr []"
| "sealFragments rnd env exchange msgID nextPayload plaintext flags chunk count (i # is) =
    (let part = (if count > 1
                 then subslice plaintext (i * chunk) (min (i * chunk + chunk) (length plaintext))
                 else plaintext);
         encType = (if count > 1 then PayloadTypeSKF else PayloadTypeSK);
         frag = (if count > 1 then Some \<lparr> FragmentNumber = word_of_nat (i + 1), TotalFragments = word_of_nat count \<rparr>
                 else None);
         innerNext = (if i = 0 then nextPayload else PayloadTypeNone) in
     bind_res (sealProtectedEnvelope (rnd i) env exchange msgID innerNext encType frag part flags) (\<lambda>frame.
     bind_res (sealFragments rnd env exchange msgID nextPayload plaintext flags chunk count is) (\<lambda>frames.
       Inr (frame # frames))))"

definition fragmentChunk :: "Config option \<Rightarrow> nat" where
  "fragmentChunk cfg =
    nat (case cfg of
           Some c \<Rightarrow> if CfgFragmentLimit c > 0 then CfgFragmentLimit c else FragmentPlaintextLimit
         | None \<Rightarrow> FragmentPlaintextLimit)"

definition buildProtectedEnvelopeAs ::
  "(nat \<Rightarrow> bytes res) \<Rightarrow> Config option \<Rightarrow> ikeEnvelope \<Rightarrow> ExchangeType \<Rightarrow> 32 word \<Rightarrow> PayloadType \<Rightarrow> bytes
     \<Rightarrow> Flags \<Rightarrow> Frame list res" where
  "buildProtectedEnvelopeAs rnd cfg env exchange msgID nextPayload plaintext flags =
    (if EnvSelectedIKE env = None \<or> EnvIKEKeys env = None
     then Inl (Errorf ''control: IKE cipher state missing for protected build'')
     else if EnvInitiatorSPI env = 0
     then Inl (Errorf ''control: initiator SPI missing for protected build'')
     else
       let chunk = fragmentChunk cfg;
           count = (if SupportsFragmentation (EnvPeer env) \<and> length plaintext > chunk
                    then (length plaintext + chunk - 1) div chunk else 1) in
       if count > 0xffff then Inl (Errorf ''control: too many protected fragments'')
       else sealFragments rnd env exchange msgID nextPayload plaintext flags chunk count [0..<count])"

definition buildProtectedStateAs ::
  "(nat \<Rightarrow> bytes res) \<Rightarrow> Config option \<Rightarrow> State \<Rightarrow> ExchangeType \<Rightarrow> 32 word \<Rightarrow> PayloadType \<Rightarrow> bytes
     \<Rightarrow> Flags \<Rightarrow> Frame list res" where
  "buildProtectedStateAs rnd cfg state exchange msgID nextPayload plaintext flags =
     buildProtectedEnvelopeAs rnd cfg (stateIKEEnvelope state) exchange msgID nextPayload plaintext flags"

definition buildProtectedState ::
  "(nat \<Rightarrow> bytes res) \<Rightarrow> Config option \<Rightarrow> State \<Rightarrow> ExchangeType \<Rightarrow> 32 word \<Rightarrow> PayloadType \<Rightarrow> bytes
     \<Rightarrow> Frame list res" where
  "buildProtectedState rnd cfg state exchange msgID nextPayload plaintext =
     buildProtectedStateAs rnd cfg state exchange msgID nextPayload plaintext
       (requestFlags (stateIKEEnvelope state))"

section \<open>Opening\<close>

definition openEncryptedBody :: "Selection \<Rightarrow> bytes \<Rightarrow> bytes \<Rightarrow> bytes \<Rightarrow> bytes \<Rightarrow> bytes res" where
  "openEncryptedBody sel encKey icvKey aad body =
    (let enc = SelEncryption sel; integ = SelIntegrity sel in
     if length body < IVLen enc then Inl (Errorf ''control: protected body shorter than IV'')
     else
       let iv = take (IVLen enc) body; rest = drop (IVLen enc) body in
       if AEAD enc
       then bind_res (wrap_err ''control: AEAD protected open failed'' (Open enc encKey iv aad rest)) stripIKEPlaintext
       else if IntegKeyLen integ = 0
       then Inl (Errorf ''control: non-AEAD IKE cipher has no integrity transform'')
       else
         let icvLen = OutputLen integ in
         if length rest < icvLen then Inl (Errorf ''control: protected body shorter than ICV'')
         else
           let ct = take (length rest - icvLen) rest; icv = drop (length rest - icvLen) rest;
               signed = aad @ iv @ ct in
           if \<not> Verify integ icvKey signed icv then Inl (Errorf ''control: IKE integrity check failed'')
           else bind_res (wrap_err ''control: IKE CBC protected open failed'' (Open enc encKey iv [] ct))
                  stripIKEPlaintext)"

text \<open>The prefix of a parsed message: header, cleartext payloads, SK payload header.\<close>

fun rebuildPayloads :: "Payload list \<Rightarrow> bytes \<Rightarrow> bytes res" where
  "rebuildPayloads [] aad = Inr aad"
| "rebuildPayloads (p # ps) aad =
    (let len = PayloadHeaderLen + length (Body p) in
     if len > 0xffff then Inl (Errorf ''control: cannot rebuild AAD: payload too long'')
     else rebuildPayloads ps
       (aad @ [Next p, if Critical p then 0x80 else 0] @ be16 (word_of_nat len) @ Body p))"

definition rebuildPrefix :: "Message \<Rightarrow> bytes res" where
  "rebuildPrefix m =
    bind_res (rebuildPayloads (Payloads m) (MarshalTo (MHeader m) [])) (\<lambda>aad.
    case Encrypted m of
      None \<Rightarrow> Inl (Errorf ''control: cannot rebuild AAD: no encrypted payload'')
    | Some enc \<Rightarrow>
        let bodyLen = length (EBody enc) + (if Fragmented enc then SkfHeaderLen else 0);
            payloadLen = PayloadHeaderLen + bodyLen in
        if payloadLen > 0xffff then Inl (Errorf ''control: cannot rebuild AAD: encrypted payload too long'')
        else
          let aad = aad @ [InnerNext enc, 0] @ be16 (word_of_nat payloadLen) in
          Inr (if Fragmented enc
               then aad @ be16 (FragmentNumber (Frag enc)) @ be16 (TotalFragments (Frag enc)) else aad))"

definition openProtectedMessageEnvelope :: "ikeEnvelope \<Rightarrow> bytes \<Rightarrow> Payload list res" where
  "openProtectedMessageEnvelope env raw =
    bind_res (ParseMessage raw) (\<lambda>msg.
    case Encrypted msg of
      None \<Rightarrow> Inr (Payloads msg)
    | Some e \<Rightarrow>
        if Fragmented e then Inl (Errorf ''control: fragmented old-SA IKE packet is unsupported'')
        else
          bind_res (rebuildPrefix msg) (\<lambda>aad.
          bind_res (deref (EnvIKEKeys env)) (\<lambda>keys.
          bind_res (deref (EnvSelectedIKE env)) (\<lambda>sel.
          let (encKey, integKey) = inboundKeyHalves (EnvIsOriginalInitiator env) keys in
          bind_res (openEncryptedBody sel encKey integKey aad (EBody e)) (\<lambda>plain.
          bind_res (ParsePayloads plain (InnerNext e) False) (\<lambda>(payloads, _). Inr payloads))))))"

definition openProtected :: "State \<Rightarrow> Message \<Rightarrow> Payload list res" where
  "openProtected state m =
    (case Encrypted m of
       None \<Rightarrow> Inl (Errorf ''control: message carries no encrypted payload'')
     | Some enc \<Rightarrow>
         if Fragmented enc then Inl (Errorf ''control: SKF requires raw packet; use openProtectedRaw'')
         else case (SelectedIKE state, SIKEKeys state) of
           (Some sel, Some keys) \<Rightarrow>
             bind_res (rebuildPrefix m) (\<lambda>aad.
             let (encKey, integKey) = inboundKeyHalves (IsOriginalInitiator state) keys in
             bind_res (openEncryptedBody sel encKey integKey aad (EBody enc)) (\<lambda>plain.
             bind_res (ParsePayloads plain (InnerNext enc) False) (\<lambda>(payloads, _). Inr payloads)))
         | _ \<Rightarrow> Inl (Errorf ''control: IKE cipher state missing for protected open''))"

section \<open>Reassembly\<close>

definition dropExpired :: "int \<Rightarrow> State \<Rightarrow> State" where
  "dropExpired now state =
    (case InboundFragments state of
       Some e \<Rightarrow> if ExpiresAt e < now then state\<lparr> InboundFragments := None \<rparr> else state
     | None \<Rightarrow> state)"

definition newTable :: "ExchangeType \<Rightarrow> 32 word \<Rightarrow> 16 word \<Rightarrow> FragmentReassembly" where
  "newTable exchange msgID count = \<lparr> FrExchangeType = exchange, FrMessageID = msgID,
     FirstInnerPayload = skfFirstPayloadUnset, Fragments = replicate (unat count) None, ExpiresAt = 0 \<rparr>"

text \<open>The result is None while fragments are missing, and the joined plaintext when the
  last one arrives.\<close>

definition collectSKFragment ::
  "State \<Rightarrow> EncryptedPayload \<Rightarrow> bytes \<Rightarrow> 32 word \<Rightarrow> ExchangeType \<Rightarrow> int \<Rightarrow> int
     \<Rightarrow> State \<times> bytes option res" where
  "collectSKFragment state enc plain msgID exchange timeout now =
    (if EType enc \<noteq> PayloadTypeSKF \<or> \<not> Fragmented enc
     then (state, Inl (Errorf ''control: collectFragment requires an SKF envelope''))
     else let frag = Frag enc in
     if FragmentNumber frag = 0 \<or> TotalFragments frag = 0 \<or> FragmentNumber frag > TotalFragments frag
     then (state, Inl (Errorf ''control: invalid SKF fragment numbers''))
     else
       let state = dropExpired now state;
           existing = InboundFragments state in
       if (case existing of None \<Rightarrow> False | Some e \<Rightarrow> FrExchangeType e \<noteq> exchange)
       then (state, Inl (Errorf ''control: SKF exchange mismatch''))
       else if (case existing of None \<Rightarrow> False | Some e \<Rightarrow> FrMessageID e \<noteq> msgID)
       then (state, Inl (Errorf ''control: SKF message-id mismatch''))
       else
         let table = (case existing of
               None \<Rightarrow> newTable exchange msgID (TotalFragments frag)
             | Some e \<Rightarrow> if unat (TotalFragments frag) > length (Fragments e)
                         then newTable exchange msgID (TotalFragments frag) else e);
             table = table\<lparr> ExpiresAt := now + timeout \<rparr>;
             state = state\<lparr> InboundFragments := Some table \<rparr> in
         if unat (TotalFragments frag) < length (Fragments table) then (state, Inr None)
         else
           let slot = unat (FragmentNumber frag) - 1 in
           if FragmentNumber frag = 1 \<and> FirstInnerPayload table \<noteq> skfFirstPayloadUnset
              \<and> FirstInnerPayload table \<noteq> InnerNext enc
           then (state, Inl (Errorf ''control: SKF first-fragment payload mismatch''))
           else if FragmentNumber frag \<noteq> 1 \<and> InnerNext enc \<noteq> PayloadTypeNone
           then (state, Inl (Errorf ''control: non-initial SKF fragment must not carry next-payload''))
           else
             let table = (if FragmentNumber frag = 1 then table\<lparr> FirstInnerPayload := InnerNext enc \<rparr> else table);
                 table = (if Fragments table ! slot = None
                          then table\<lparr> Fragments := (Fragments table)[slot := Some plain] \<rparr> else table) in
             if None \<in> set (Fragments table)
             then (state\<lparr> InboundFragments := Some table \<rparr>, Inr None)
             else (state\<lparr> InboundFragments := None \<rparr>, Inr (Some (concat (map the (Fragments table))))))"

section \<open>Opening by raw offsets\<close>

text \<open>The walk over the cleartext payloads to the encrypted one: its type, its
  next-payload field, its offset behind the header, its length.\<close>

function findEncrypted :: "bytes \<Rightarrow> PayloadType \<Rightarrow> nat \<Rightarrow> (PayloadType \<times> PayloadType \<times> nat \<times> nat) res" where
  "findEncrypted rest next off =
    (if next = PayloadTypeNone
     then Inl (Errorf ''control: protected packet has no encrypted payload'')
     else if length rest - off < PayloadHeaderLen
     then Inl (Errorf ''control: protected packet payload header truncated'')
     else
       let len = unat (beUint16 (subslice rest (off + 2) (off + 4))) in
       if len < PayloadHeaderLen \<or> off + len > length rest
       then Inl (Errorf ''control: protected packet payload length out of bounds'')
       else
         let innerNext = rest ! off in
         if next = PayloadTypeSK \<or> next = PayloadTypeSKF then
           if off + len \<noteq> length rest
           then Inl (Errorf ''control: encrypted payload must terminate the outer chain'')
           else Inr (next, innerNext, off, len)
         else findEncrypted rest innerNext (off + len))"
  by pat_completeness auto
termination
  by (relation "measure (\<lambda>(rest, _, off). length rest - off)") auto

declare findEncrypted.simps [simp del]

definition skfTimeout :: "Config option \<Rightarrow> int" where
  "skfTimeout cfg =
    (case cfg of
       Some c \<Rightarrow> if SkfReassemblyTimeout (CfgTimeouts c) > 0 then SkfReassemblyTimeout (CfgTimeouts c)
                 else SkfReassemblyTimeoutDefault
     | None \<Rightarrow> SkfReassemblyTimeoutDefault)"

text \<open>The result is None while fragments are missing.\<close>

definition openProtectedRawState ::
  "Config option \<Rightarrow> State \<Rightarrow> bytes \<Rightarrow> int \<Rightarrow> State \<times> Payload list option res" where
  "openProtectedRawState cfg state raw now =
    (case (SelectedIKE state, SIKEKeys state) of
       (Some sel, Some keys) \<Rightarrow>
         (case bind_res (ParseHeader raw) (\<lambda>(hdr, rest).
               bind_res (findEncrypted rest (NextPayload hdr) 0) (\<lambda>(encType, innerNext, off, len).
                 let payloadStart = HeaderLen + off; bodyStart = payloadStart + PayloadHeaderLen;
                     payloadEnd = payloadStart + len; isSKF = (encType = PayloadTypeSKF) in
                 bind_res (if isSKF then
                     if bodyStart + SkfHeaderLen > payloadEnd
                     then Inl (Errorf ''control: truncated SKF fragment header'')
                     else bind_res (ParseSkfHeader (subslice raw bodyStart (bodyStart + SkfHeaderLen)))
                            (\<lambda>(frag, _). Inr frag)
                   else Inr \<lparr> FragmentNumber = 0, TotalFragments = 0 \<rparr>) (\<lambda>frag.
                 let ivStart = (if isSKF then bodyStart + SkfHeaderLen else bodyStart);
                     aad = take ivStart raw; body = subslice raw ivStart payloadEnd;
                     (encKey, integKey) = inboundKeyHalves (IsOriginalInitiator state) keys in
                 bind_res (openEncryptedBody sel encKey integKey aad body) (\<lambda>plain.
                   Inr (hdr, isSKF, innerNext, frag, body, plain))))) of
            Inl e \<Rightarrow> (state, Inl e)
          | Inr (hdr, isSKF, innerNext, frag, body, plain) \<Rightarrow>
              if \<not> isSKF
              then (state, bind_res (ParsePayloads plain innerNext False) (\<lambda>(payloads, _). Inr (Some payloads)))
              else
                let envelope = \<lparr> EType = PayloadTypeSKF, InnerNext = innerNext, Fragmented = True,
                                 Frag = frag, EBody = body \<rparr>;
                    fragFirst = (case InboundFragments state of
                        None \<Rightarrow> skfFirstPayloadUnset | Some e \<Rightarrow> FirstInnerPayload e) in
                (case collectSKFragment state envelope plain (MessageID hdr) (ExchangeTyp hdr) (skfTimeout cfg) now of
                   (state, Inl e) \<Rightarrow> (state, Inl e)
                 | (state, Inr None) \<Rightarrow> (state, Inr None)
                 | (state, Inr (Some joined)) \<Rightarrow>
                     let firstInner = (if fragFirst \<noteq> skfFirstPayloadUnset then fragFirst else innerNext) in
                     (state, bind_res (ParsePayloads joined firstInner False) (\<lambda>(payloads, _). Inr (Some payloads)))))
     | _ \<Rightarrow> (state, Inl (Errorf ''control: IKE cipher state missing for protected open'')))"

section \<open>Lemmas: padding\<close>

lemma padIKE_form:
  assumes "wf_enc enc"
  obtains n where "n < 16" "padIKEPlaintext enc plain = plain @ map word_of_nat [1..<Suc n] @ [word_of_nat n]"
    "length (padIKEPlaintext enc plain) mod BlockLen enc = 0"
proof -
  have b: "BlockLen enc = 1 \<or> BlockLen enc = 16" by (rule wf_enc_BlockLen [OF assms])
  define n where "n = (BlockLen enc - (length plain + 1) mod BlockLen enc) mod BlockLen enc"
  have f: "padIKEPlaintext enc plain = plain @ map word_of_nat [1..<Suc n] @ [word_of_nat n]"
    using b by (auto simp: padIKEPlaintext_def Let_def n_def)
  have n: "n < 16" using b by (auto simp: n_def)
  have "length (padIKEPlaintext enc plain) = length plain + 1 + n" unfolding f by simp
  then have "length (padIKEPlaintext enc plain) mod BlockLen enc = 0"
    using pad_to_block [of "BlockLen enc" "length plain + 1", folded n_def] b by (elim disjE) simp_all
  then show thesis by (rule that [OF n f])
qed

lemma stripIKE_padIKE:
  assumes "wf_enc enc"
  shows "stripIKEPlaintext (padIKEPlaintext enc plain) = Inr plain"
proof -
  obtain n where n: "n < 16" "padIKEPlaintext enc plain = plain @ map word_of_nat [1..<Suc n] @ [word_of_nat n]"
    using padIKE_form [OF assms] by blast
  define pre where "pre = plain @ map word_of_nat [1..<Suc n]"
  have "padIKEPlaintext enc plain = pre @ [word_of_nat n]" "length pre = length plain + n"
    "take (length plain) (pre @ [word_of_nat n]) = plain"
    using n(2) by (simp_all add: pre_def)
  then show ?thesis using n(1) by (simp add: stripIKEPlaintext_def Let_def nth_append)
qed

section \<open>Lemmas: the packet on the wire\<close>

definition frag_octets :: "SkfHeader option \<Rightarrow> bytes" where
  "frag_octets frag = (case frag of None \<Rightarrow> [] | Some f \<Rightarrow> be16 (FragmentNumber f) @ be16 (TotalFragments f))"

definition seal_header :: "ikeEnvelope \<Rightarrow> ExchangeType \<Rightarrow> 32 word \<Rightarrow> PayloadType \<Rightarrow> Flags \<Rightarrow> nat \<Rightarrow> Header" where
  "seal_header env exchange msgID encType flags len =
     \<lparr> InitiatorSPI = Uint64SPI (EnvInitiatorSPI env), ResponderSPI = Uint64SPI (EnvResponderSPI env),
       NextPayload = encType, Version = IKEDefaultVersion, ExchangeTyp = exchange,
       HFlags = flags, MessageID = msgID, Length = word_of_nat len \<rparr>"

text \<open>Everything before the IV, for a body of \<open>n\<close> octets.\<close>

definition seal_prefix :: "ikeEnvelope \<Rightarrow> ExchangeType \<Rightarrow> 32 word \<Rightarrow> PayloadType \<Rightarrow> PayloadType
    \<Rightarrow> SkfHeader option \<Rightarrow> Flags \<Rightarrow> nat \<Rightarrow> bytes" where
  "seal_prefix env exchange msgID innerNext encType frag flags n =
    (let len = 4 + length (frag_octets frag) + n in
     header_octets (seal_header env exchange msgID encType flags (28 + len))
       @ [innerNext, 0] @ be16 (word_of_nat len) @ frag_octets frag)"

lemma wf_seal_header [simp]: "wf_header (seal_header env exchange msgID encType flags len)"
  by (simp add: seal_header_def wf_header_def Uint64SPI_def putUint64_def)

lemma length_frag_octets: "length (frag_octets frag) = (case frag of None \<Rightarrow> 0 | Some _ \<Rightarrow> SkfHeaderLen)"
  by (simp add: frag_octets_def split: option.split)

lemma length_seal_prefix [simp]:
  "length (seal_prefix env exchange msgID innerNext encType frag flags n) = 32 + length (frag_octets frag)"
  by (simp add: seal_prefix_def Let_def)

lemma put_frag:
  assumes "length a = o1"
  shows "putUint16 (putUint16 (a @ [0, 0, 0, 0]) o1 m) (o1 + 2) k = a @ be16 m @ be16 k"
proof -
  have "putUint16 (a @ [0, 0, 0, 0]) o1 m = (a @ be16 m) @ [0, 0]"
    using putUint16_replace [OF assms, of 0 0 "[0, 0]" m] by simp
  then show ?thesis using putUint16_replace [of "a @ be16 m" "o1 + 2" 0 0 "[]" k] assms by simp
qed

lemma put_lengths:
  assumes "wf_header h"
  shows "putUint32 (putUint16 (header_octets h @ [innerNext, 0, 0, 0] @ fo) 30 pl) 24 l
    = header_octets (h\<lparr> Length := l \<rparr>) @ [innerNext, 0] @ be16 pl @ fo"
proof -
  have "putUint16 (header_octets h @ [innerNext, 0, 0, 0] @ fo) 30 pl
      = header_octets h @ [innerNext, 0] @ be16 pl @ fo"
    using putUint16_replace [of "header_octets h @ [innerNext, 0]" 30 0 0 fo pl] assms by simp
  then show ?thesis by (simp only: header_octets_putLength [OF assms])
qed

text \<open>Sealing in terms of the prefix.\<close>

lemma sealProtected_eq:
  fixes plain :: bytes and flags :: Flags and frag :: "SkfHeader option"
    and encType innerNext :: PayloadType and exchange :: ExchangeType and msgID :: "32 word"
  assumes "EnvSelectedIKE env = Some sel" "EnvIKEKeys env = Some keys"
    and "outboundKeyHalves (EnvIsOriginalInitiator env) keys = (ek, ik)"
  defines "enc \<equiv> SelEncryption sel" and "integ \<equiv> SelIntegrity sel"
  defines "n \<equiv> IVLen enc + length (padIKEPlaintext enc plain) + (if AEAD enc then ICVLen enc else OutputLen integ)"
  defines "pre \<equiv> seal_prefix env exchange msgID innerNext encType frag flags n"
  shows "sealProtectedEnvelope rnd env exchange msgID innerNext encType frag plain flags =
    (if (case frag of None \<Rightarrow> False | Some f \<Rightarrow>
          FragmentNumber f = 0 \<or> TotalFragments f = 0 \<or> FragmentNumber f > TotalFragments f)
     then Inl (Errorf ''control: invalid SKF fragment numbers'')
     else if IVLen enc = 0 then Inl (Errorf ''control: invalid IKE cipher IV length'')
     else if \<not> AEAD enc \<and> IntegKeyLen integ = 0
     then Inl (Errorf ''control: non-AEAD IKE cipher has no integrity transform'')
     else if 4 + length (frag_octets frag) + n > 0xffff then Inl (Errorf ''control: protected payload too long'')
     else bind_res (wrap_err ''control: generate IKE IV'' rnd) (\<lambda>iv.
       bind_res (wrap_err ''control: encrypt protected payload''
           (Seal enc ek iv (if AEAD enc then pre else []) (padIKEPlaintext enc plain))) (\<lambda>sealed.
       if AEAD enc then Inr \<lparr> FKind = KindIKE, FPayload = pre @ iv @ sealed, Frelease = False \<rparr>
       else bind_res (wrap_err ''control: sign IKE packet'' (Sign integ ik (pre @ iv @ sealed))) (\<lambda>icv.
         Inr \<lparr> FKind = KindIKE, FPayload = pre @ iv @ sealed @ icv, Frelease = False \<rparr>))))"
proof -
  let ?h = "seal_header env exchange msgID encType flags 0"
  let ?p0 = "header_octets ?h @ [innerNext, 0, 0, 0]"
  have h0: "\<lparr> InitiatorSPI = Uint64SPI (EnvInitiatorSPI env), ResponderSPI = Uint64SPI (EnvResponderSPI env),
       NextPayload = encType, Version = IKEDefaultVersion, ExchangeTyp = exchange,
       HFlags = flags, MessageID = msgID, Length = 0 \<rparr> = ?h"
    by (simp add: seal_header_def)
  have h1: "?h\<lparr> Length := word_of_nat l \<rparr> = seal_header env exchange msgID encType flags l" for l
    by (simp add: seal_header_def)
  have fr: "(case frag of None \<Rightarrow> ?p0
       | Some f \<Rightarrow> let fragStart = length ?p0; pkt = ?p0 @ [0, 0, 0, 0];
                         pkt = putUint16 pkt fragStart (FragmentNumber f)
                     in putUint16 pkt (fragStart + 2) (TotalFragments f))
     = ?p0 @ frag_octets frag"
    using put_frag [of ?p0 "length ?p0"] by (simp add: frag_octets_def Let_def split: option.split)
  have pl: "PayloadHeaderLen + (case frag of None \<Rightarrow> 0 | Some _ \<Rightarrow> SkfHeaderLen) + IVLen enc
      + (length (padIKEPlaintext enc plain) + (if AEAD enc then ICVLen enc else 0))
      + (if AEAD enc then 0 else OutputLen integ) = 4 + length (frag_octets frag) + n"
    by (simp add: n_def length_frag_octets)
  have kl: "length (?p0 @ frag_octets frag) + IVLen enc
      + (length (padIKEPlaintext enc plain) + (if AEAD enc then ICVLen enc else 0))
      + (if AEAD enc then 0 else OutputLen integ) = 28 + (4 + length (frag_octets frag) + n)"
    by (simp add: n_def)
  have pre: "putUint32 (putUint16 (?p0 @ frag_octets frag) (28 + 2) (word_of_nat (4 + length (frag_octets frag) + n))) 24
      (word_of_nat (28 + (4 + length (frag_octets frag) + n))) = pre"
    using put_lengths [of ?h innerNext "frag_octets frag"]
    by (simp add: pre_def seal_prefix_def Let_def h1 del: of_nat_add)
  have big: "4 + length (frag_octets frag) + n \<le> 0xffff \<Longrightarrow>
      \<not> 28 + (4 + length (frag_octets frag) + n) > 0xffffffff" by simp
  show ?thesis
    unfolding sealProtectedEnvelope_def assms(1,2) deref_simps bind_res_simps Let_def
      enc_def [symmetric] integ_def [symmetric] assms(3) prod.case h0 MarshalTo_octets [OF wf_seal_header] append_Nil
      length_header_octets [OF wf_seal_header] fr [unfolded Let_def] pl kl pre
    using big by (cases "4 + length (frag_octets frag) + n > 0xffff") auto
qed

text \<open>Keys a suite can be used with, and two ends that share the suite and the keys of
  an IKE SA in opposite roles.\<close>

definition usable :: "Selection \<Rightarrow> bytes \<Rightarrow> bytes \<Rightarrow> bool" where
  "usable sel ek ik \<longleftrightarrow> wf_enc (SelEncryption sel) \<and> length ek = EncKeyLen (SelEncryption sel)
     \<and> (AEAD (SelEncryption sel) \<or> wf_integ (SelIntegrity sel) \<and> IntegKeyLen (SelIntegrity sel) \<noteq> 0
          \<and> length ik = IntegKeyLen (SelIntegrity sel))"

definition paired :: "ikeEnvelope \<Rightarrow> State \<Rightarrow> bool" where
  "paired env state \<longleftrightarrow> (\<exists>sel keys ek ik. EnvSelectedIKE env = Some sel \<and> SelectedIKE state = Some sel
     \<and> EnvIKEKeys env = Some keys \<and> SIKEKeys state = Some keys
     \<and> IsOriginalInitiator state \<noteq> EnvIsOriginalInitiator env
     \<and> outboundKeyHalves (EnvIsOriginalInitiator env) keys = (ek, ik) \<and> usable sel ek ik)"

lemma inbound_outbound_halves: "b \<noteq> c \<Longrightarrow> inboundKeyHalves b keys = outboundKeyHalves c keys"
  by (auto simp: inboundKeyHalves_def outboundKeyHalves_def)

lemma wf_enc_sizes:
  assumes "wf_enc a"
  shows "IVLen a \<noteq> 0 \<and> IVLen a \<le> 16 \<and> ICVLen a \<le> 16 \<and> (\<not> AEAD a \<longrightarrow> ICVLen a = 0)"
  using assms by (cases a rule: wf_enc_cases) auto

lemma wf_integ_OutputLen_le: "wf_integ i \<Longrightarrow> OutputLen i \<le> 32"
  by (auto simp: wf_integ_def NewIntegrity_def split: if_splits)

text \<open>Sealing succeeds, and the other end's \<^verbatim>\<open>openEncryptedBody\<close> recovers the plaintext.\<close>

definition valid_frag :: "SkfHeader option \<Rightarrow> bool" where
  "valid_frag frag = (case frag of None \<Rightarrow> True | Some f \<Rightarrow>
     0 < FragmentNumber f \<and> 0 < TotalFragments f \<and> FragmentNumber f \<le> TotalFragments f)"

lemma sealProtected_ok:
  fixes plain :: bytes and flags :: Flags and frag :: "SkfHeader option"
    and encType innerNext :: PayloadType and exchange :: ExchangeType and msgID :: "32 word"
  assumes "EnvSelectedIKE env = Some sel" "EnvIKEKeys env = Some keys"
    and "outboundKeyHalves (EnvIsOriginalInitiator env) keys = (ek, ik)" "usable sel ek ik"
    and "valid_frag frag" "length iv = IVLen (SelEncryption sel)" "length plain \<le> 60000"
  obtains body where
    "sealProtectedEnvelope (Inr iv) env exchange msgID innerNext encType frag plain flags
       = Inr \<lparr> FKind = KindIKE,
           FPayload = seal_prefix env exchange msgID innerNext encType frag flags (length body) @ body,
           Frelease = False \<rparr>"
    "4 + length (frag_octets frag) + length body \<le> 0xffff"
    "openEncryptedBody sel ek ik (seal_prefix env exchange msgID innerNext encType frag flags (length body)) body
       = Inr plain"
proof -
  define enc where "enc = SelEncryption sel"
  define integ where "integ = SelIntegrity sel"
  define n where "n = IVLen enc + length (padIKEPlaintext enc plain) + (if AEAD enc then ICVLen enc else OutputLen integ)"
  define pre where "pre = seal_prefix env exchange msgID innerNext encType frag flags n"
  have wf: "wf_enc enc" "length ek = EncKeyLen enc" and nonaead: "\<not> AEAD enc \<Longrightarrow>
      wf_integ integ \<and> IntegKeyLen integ \<noteq> 0 \<and> length ik = IntegKeyLen integ"
    using assms(4) by (auto simp: usable_def enc_def integ_def)
  note sizes = wf_enc_sizes [OF wf(1)]
  obtain k where k: "k < 16" "padIKEPlaintext enc plain = plain @ map word_of_nat [1..<Suc k] @ [word_of_nat k]"
    "length (padIKEPlaintext enc plain) mod BlockLen enc = 0"
    using padIKE_form [OF wf(1)] by blast
  then have lp: "length (padIKEPlaintext enc plain) \<le> length plain + 16" by simp
  have fits: "4 + length (frag_octets frag) + n \<le> 0xffff"
    using sizes assms(7) lp nonaead wf_integ_OutputLen_le [of integ]
    by (simp add: n_def length_frag_octets split: option.split) linarith
  define aad where "aad = (if AEAD enc then pre else [])"
  obtain c where c: "Seal enc ek iv aad (padIKEPlaintext enc plain) = Inr c"
    using Seal_is_ok [OF wf(1), of ek iv aad "padIKEPlaintext enc plain"] wf(2) assms(6) k(3)
    by (auto simp: is_ok_iff enc_def)
  have o: "Open enc ek iv aad c = Inr (padIKEPlaintext enc plain)"
    "length c = length (padIKEPlaintext enc plain) + ICVLen enc"
    using Open_Seal_aux [OF wf(1) c] by simp_all
  note eq = sealProtected_eq [OF assms(1-3), where plain = plain and exchange = exchange and msgID = msgID
      and innerNext = innerNext and encType = encType and frag = frag and flags = flags and rnd = "Inr iv",
      folded enc_def integ_def, folded n_def, folded pre_def, folded aad_def]
  note strip = stripIKE_padIKE [OF wf(1)]
  show thesis
  proof (cases "AEAD enc")
    case True
    have "length (iv @ c) = n" using True o(2) assms(6) by (simp add: n_def enc_def)
    moreover have "openEncryptedBody sel ek ik pre (iv @ c) = Inr plain"
      using True o(1) assms(6) strip
      by (simp add: openEncryptedBody_def Let_def aad_def flip: enc_def integ_def)
    moreover have "sealProtectedEnvelope (Inr iv) env exchange msgID innerNext encType frag plain flags
      = Inr \<lparr> FKind = KindIKE, FPayload = pre @ iv @ c, Frelease = False \<rparr>"
      unfolding eq using True assms(5) fits sizes c by (auto simp: valid_frag_def split: option.splits)
    ultimately show thesis using that [of "iv @ c"] fits pre_def by simp
  next
    case False
    note i = nonaead [OF False]
    then obtain h where "newHMAC integ = Some h"
      by (auto simp: wf_integ_def NewIntegrity_def split: if_splits)
    then obtain icv where icv: "Sign integ ik (pre @ iv @ c) = Inr icv" using i by (simp add: Sign_def)
    have li: "length icv = OutputLen integ" using length_Sign i icv by blast
    have len: "length (iv @ c @ icv) = n" using False o(2) assms(6) li sizes by (simp add: n_def enc_def)
    have "Open enc ek iv [] c = Inr (padIKEPlaintext enc plain)" using o(1) False by (simp add: aad_def)
    then have "openEncryptedBody sel ek ik pre (iv @ c @ icv) = Inr plain"
      using False i li icv assms(6) strip
      by (simp add: openEncryptedBody_def Let_def Verify_Sign flip: enc_def integ_def)
    moreover have "sealProtectedEnvelope (Inr iv) env exchange msgID innerNext encType frag plain flags
      = Inr \<lparr> FKind = KindIKE, FPayload = pre @ iv @ c @ icv, Frelease = False \<rparr>"
      unfolding eq using False i assms(5) fits sizes c icv by (auto simp: valid_frag_def split: option.splits)
    ultimately show thesis using that [of "iv @ c @ icv"] fits len pre_def by simp
  qed
qed

section \<open>Lemmas: opening\<close>

lemma findEncrypted_prefix:
  assumes "encType = PayloadTypeSK \<or> encType = PayloadTypeSKF"
    and "length r = 4 + n" "4 + n \<le> 0xffff" "r ! 0 = innerNext" "subslice r 2 4 = be16 (word_of_nat (4 + n))"
  shows "findEncrypted r encType 0 = Inr (encType, innerNext, 0, 4 + n)"
  using assms
  by (subst findEncrypted.simps, simp only: add_0) (auto simp: Let_def unat_word_of_nat simp del: of_nat_add)

text \<open>Opening a sealed packet by its raw offsets.\<close>

lemma openRaw_prefix:
  fixes body :: bytes
  assumes "SelectedIKE state = Some sel" "SIKEKeys state = Some keys"
    and "inboundKeyHalves (IsOriginalInitiator state) keys = (ek, ik)"
    and "flags AND NOT flagsMask = 0" "4 + length (frag_octets frag) + length body \<le> 0xffff"
    and "openEncryptedBody sel ek ik (seal_prefix env exchange msgID innerNext encType frag flags (length body)) body
       = Inr plain"
    and "valid_frag frag" "encType = (if frag = None then PayloadTypeSK else PayloadTypeSKF)"
  shows "openProtectedRawState cfg state
      (seal_prefix env exchange msgID innerNext encType frag flags (length body) @ body) now
    = (case frag of
         None \<Rightarrow> (state, bind_res (ParsePayloads plain innerNext False) (\<lambda>(payloads, _). Inr (Some payloads)))
       | Some f \<Rightarrow>
           let envelope = \<lparr> EType = PayloadTypeSKF, InnerNext = innerNext, Fragmented = True,
                            Frag = f, EBody = body \<rparr>;
               fragFirst = (case InboundFragments state of
                   None \<Rightarrow> skfFirstPayloadUnset | Some e \<Rightarrow> FirstInnerPayload e) in
           (case collectSKFragment state envelope plain msgID exchange (skfTimeout cfg) now of
              (state, Inl e) \<Rightarrow> (state, Inl e)
            | (state, Inr None) \<Rightarrow> (state, Inr None)
            | (state, Inr (Some joined)) \<Rightarrow>
                let firstInner = (if fragFirst \<noteq> skfFirstPayloadUnset then fragFirst else innerNext) in
                (state, bind_res (ParsePayloads joined firstInner False) (\<lambda>(payloads, _). Inr (Some payloads)))))"
proof -
  define len where "len = 4 + length (frag_octets frag) + length body"
  define h where "h = seal_header env exchange msgID encType flags (28 + len)"
  define r where "r = [innerNext, 0] @ be16 (word_of_nat len) @ frag_octets frag @ body"
  define pre where "pre = seal_prefix env exchange msgID innerNext encType frag flags (length body)"
  have raw: "pre @ body = header_octets h @ r @ []"
    by (simp add: pre_def seal_prefix_def Let_def h_def r_def len_def)
  have lr: "length r = 4 + (length (frag_octets frag) + length body)" by (simp add: r_def)
  have ph: "ParseHeader (pre @ body) = Inr (h, r)"
    unfolding raw
  proof (rule ParseHeader_octets)
    show "wf_header h" by (simp add: h_def)
    show "Version h = IKEDefaultVersion" "HFlags h AND NOT flagsMask = 0"
      using assms(4) by (simp_all add: h_def seal_header_def)
    show "unat (Length h) = HeaderLen + length r"
      using assms(5) lr by (simp add: h_def seal_header_def len_def unat_word_of_nat del: of_nat_add)
  qed
  have h: "NextPayload h = encType" "MessageID h = msgID" "ExchangeTyp h = exchange"
    by (simp_all add: h_def seal_header_def)
  have fe: "findEncrypted r encType 0 = Inr (encType, innerNext, 0, len)"
    unfolding len_def add.assoc
  proof (rule findEncrypted_prefix)
    show "encType = PayloadTypeSK \<or> encType = PayloadTypeSKF" using assms(8) by auto
    show "length r = 4 + (length (frag_octets frag) + length body)" by (rule lr)
    show "4 + (length (frag_octets frag) + length body) \<le> 0xffff" using assms(5) by simp
    show "r ! 0 = innerNext" by (simp add: r_def)
    show "subslice r 2 4 = be16 (word_of_nat (4 + (length (frag_octets frag) + length body)))"
      by (simp add: r_def subslice_def len_def add.assoc del: of_nat_add)
  qed
  have lpre: "length pre = 32 + length (frag_octets frag)" by (simp add: pre_def)
  have op: "openEncryptedBody sel ek ik pre body = Inr plain" using assms(6) by (simp add: pre_def)
  show ?thesis
  proof (cases frag)
    case None
    then have encType: "encType = PayloadTypeSK" using assms(8) by simp
    have "length pre = 32" "len = 4 + length body" using None lpre by (simp_all add: frag_octets_def len_def)
    then have "take 32 (pre @ body) = pre" "subslice (pre @ body) 32 (32 + length body) = body"
      by (simp_all add: subslice_def)
    then show ?thesis
      unfolding pre_def [symmetric]
      using None assms(1-3) op \<open>len = 4 + length body\<close> encType
      by (simp add: openProtectedRawState_def ph h fe [unfolded encType] Let_def del: take_append)
  next
    case (Some f)
    then have encType: "encType = PayloadTypeSKF" using assms(8) by simp
    from Some have l: "length pre = 36" "len = 8 + length body" using lpre by (simp_all add: frag_octets_def len_def)
    have "drop 32 (pre @ body) = be16 (FragmentNumber f) @ be16 (TotalFragments f) @ body"
      using Some unfolding raw
      by (simp add: r_def frag_octets_def h_def)
    then have "subslice (pre @ body) 32 36 = be16 (FragmentNumber f) @ be16 (TotalFragments f) @ []"
      by (simp add: subslice_def)
    moreover have "ParseSkfHeader (be16 (FragmentNumber f) @ be16 (TotalFragments f) @ []) = Inr (f, [])"
      using Some assms(7) by (subst ParseSkfHeader_octets) (auto simp: valid_frag_def)
    moreover have "subslice (pre @ body) 36 (36 + length body) = body" "take 36 (pre @ body) = pre"
      using l by (simp_all add: subslice_def)
    ultimately show ?thesis
      unfolding pre_def [symmetric]
      using Some assms(1-3) op l encType
      by (simp add: openProtectedRawState_def ph h fe [unfolded encType] Let_def del: take_append)
  qed
qed

section \<open>Lemmas: reassembly\<close>

text \<open>The table after the fragments with the indices \<open>S\<close> have arrived.\<close>

definition slots :: "bytes list \<Rightarrow> nat set \<Rightarrow> bytes option list" where
  "slots parts S = map (\<lambda>i. if i \<in> S then Some (parts ! i) else None) [0..<length parts]"

definition frag_table :: "ExchangeType \<Rightarrow> 32 word \<Rightarrow> PayloadType \<Rightarrow> bytes list \<Rightarrow> nat set \<Rightarrow> int
    \<Rightarrow> FragmentReassembly option" where
  "frag_table exchange msgID inner parts S expires =
    (if S = {} then None
     else Some \<lparr> FrExchangeType = exchange, FrMessageID = msgID,
        FirstInnerPayload = (if 0 \<in> S then inner else skfFirstPayloadUnset),
        Fragments = slots parts S, ExpiresAt = expires \<rparr>)"

lemma slots_insert:
  "i < length parts \<Longrightarrow> (slots parts S)[i := Some (parts ! i)] = slots parts (insert i S)"
  by (rule nth_equalityI) (auto simp: slots_def nth_list_update)

lemma slots_nth: "i < length parts \<Longrightarrow> slots parts S ! i = (if i \<in> S then Some (parts ! i) else None)"
  by (simp add: slots_def)

lemma length_slots [simp]: "length (slots parts S) = length parts"
  by (simp add: slots_def)

lemma None_in_slots: "None \<in> set (slots parts S) \<longleftrightarrow> \<not> {0..<length parts} \<subseteq> S"
  by (auto simp: slots_def)

lemma concat_slots: "{0..<length parts} \<subseteq> S \<Longrightarrow> concat (map the (slots parts S)) = concat parts"
proof -
  assume "{0..<length parts} \<subseteq> S"
  then have "map the (slots parts S) = parts" by (auto intro!: nth_equalityI simp: slots_def)
  then show ?thesis by simp
qed

lemma slots_empty: "replicate (length parts) None = slots parts {}"
  by (rule nth_equalityI) (auto simp: slots_def)

text \<open>One fragment arrives: either the table grows or the message is complete.\<close>

lemma collect_step:
  fixes state :: State and parts :: "bytes list" and S :: "nat set"
  defines "tot \<equiv> length parts"
  assumes "InboundFragments state = frag_table exchange msgID inner parts S expires" "S = {} \<or> now \<le> expires"
    and "i < tot" "i \<notin> S" "tot \<le> 0xffff" "S \<subseteq> {0..<tot}"
    and "EType enc = PayloadTypeSKF" "Fragmented enc"
    and "Frag enc = \<lparr> FragmentNumber = word_of_nat (i + 1), TotalFragments = word_of_nat tot \<rparr>"
    and "InnerNext enc = (if i = 0 then inner else PayloadTypeNone)"
  shows "collectSKFragment state enc (parts ! i) msgID exchange timeout now =
    (if {0..<tot} \<subseteq> insert i S then (state\<lparr> InboundFragments := None \<rparr>, Inr (Some (concat parts)))
     else (state\<lparr> InboundFragments := frag_table exchange msgID inner parts (insert i S) (now + timeout) \<rparr>,
           Inr None))"
proof -
  have u: "unat (word_of_nat tot :: 16 word) = tot" "unat (word_of_nat (i + 1) :: 16 word) = i + 1"
    using assms(4,6) by (simp_all add: unat_word_of_nat del: of_nat_add of_nat_Suc)
  have w: "word_of_nat (i + 1) \<noteq> (0::16 word)" "word_of_nat tot \<noteq> (0::16 word)"
    "\<not> word_of_nat (i + 1) > (word_of_nat tot :: 16 word)"
    using u assms(4) by (auto simp: word_less_nat_alt unat_eq_0 [symmetric] simp del: of_nat_add of_nat_Suc)
  have one: "word_of_nat (i + 1) = (1::16 word) \<longleftrightarrow> i = 0"
    using u(2) by (auto simp: word_unat_eq_iff simp del: of_nat_add of_nat_Suc)
  have tab: "dropExpired now state = state"
    using assms(2,3) by (auto simp: dropExpired_def frag_table_def)
  have e: "FragmentNumber (Frag enc) = 1 \<longleftrightarrow> i = 0" "unat (FragmentNumber (Frag enc)) - 1 = i"
    "unat (TotalFragments (Frag enc)) = tot" "FragmentNumber (Frag enc) = 0 \<longleftrightarrow> False"
    "TotalFragments (Frag enc) = 0 \<longleftrightarrow> False" "FragmentNumber (Frag enc) > TotalFragments (Frag enc) \<longleftrightarrow> False"
    using u w one unfolding assms(10) by (simp_all del: of_nat_add of_nat_Suc)
  define t where "t = \<lparr> FrExchangeType = exchange, FrMessageID = msgID,
        FirstInnerPayload = (if 0 \<in> S then inner else skfFirstPayloadUnset),
        Fragments = slots parts S, ExpiresAt = now + timeout \<rparr>"
  have t: "(case InboundFragments state of
               None \<Rightarrow> newTable exchange msgID (TotalFragments (Frag enc))
             | Some e \<Rightarrow> if tot > length (Fragments e)
                         then newTable exchange msgID (TotalFragments (Frag enc)) else e)\<lparr> ExpiresAt := now + timeout \<rparr> = t"
    using assms(2) e(3) by (simp add: frag_table_def newTable_def t_def tot_def slots_empty)
  have nomis: "(case InboundFragments state of None \<Rightarrow> False | Some e \<Rightarrow> FrExchangeType e \<noteq> exchange) = False"
    "(case InboundFragments state of None \<Rightarrow> False | Some e \<Rightarrow> FrMessageID e \<noteq> msgID) = False"
    using assms(2) by (simp_all add: frag_table_def)
  define t2 where "t2 = t\<lparr> FirstInnerPayload := (if 0 \<in> insert i S then inner else skfFirstPayloadUnset),
      Fragments := slots parts (insert i S) \<rparr>"
  have t2: "(if Fragments (if i = 0 then t\<lparr> FirstInnerPayload := InnerNext enc \<rparr> else t) ! i = None
       then (if i = 0 then t\<lparr> FirstInnerPayload := InnerNext enc \<rparr> else t)
          \<lparr> Fragments := (Fragments (if i = 0 then t\<lparr> FirstInnerPayload := InnerNext enc \<rparr> else t))[i := Some (parts ! i)] \<rparr>
       else (if i = 0 then t\<lparr> FirstInnerPayload := InnerNext enc \<rparr> else t)) = t2"
    using assms(4,5,11) by (auto simp: t2_def t_def slots_nth slots_insert tot_def)
  have f2: "None \<in> set (Fragments t2) \<longleftrightarrow> \<not> {0..<tot} \<subseteq> insert i S"
    "{0..<tot} \<subseteq> insert i S \<Longrightarrow> concat (map the (Fragments t2)) = concat parts"
    "frag_table exchange msgID inner parts (insert i S) (now + timeout) = Some t2"
    by (simp_all add: t2_def t_def tot_def None_in_slots concat_slots frag_table_def)
  have t3: "tot < length (Fragments t) \<longleftrightarrow> False"
    "i = 0 \<and> FirstInnerPayload t \<noteq> skfFirstPayloadUnset \<and> FirstInnerPayload t \<noteq> InnerNext enc \<longleftrightarrow> False"
    "i \<noteq> 0 \<and> InnerNext enc \<noteq> PayloadTypeNone \<longleftrightarrow> False"
    using assms(5,11) by (auto simp: t_def tot_def)
  have "collectSKFragment state enc (parts ! i) msgID exchange timeout now =
     (if None \<in> set (Fragments t2)
      then (state\<lparr> InboundFragments := Some t2 \<rparr>, Inr None)
      else (state\<lparr> InboundFragments := None \<rparr>, Inr (Some (concat (map the (Fragments t2))))))"
    unfolding collectSKFragment_def tab Let_def e nomis t t2 t3 using assms(8,9) by simp
  then show ?thesis using f2 by simp
qed

section \<open>Lemmas: a fragmented message\<close>

definition fragment_parts :: "nat \<Rightarrow> nat \<Rightarrow> bytes \<Rightarrow> bytes list" where
  "fragment_parts chunk n plain =
     map (\<lambda>i. subslice plain (i * chunk) (min (i * chunk + chunk) (length plain))) [0..<n]"

lemma concat_fragment_parts: "concat (fragment_parts chunk n plain) = take (n * chunk) plain"
proof (induction n)
  case (Suc n)
  have "take (min (n * chunk + chunk) (length plain) - n * chunk) (drop (n * chunk) plain)
      = take chunk (drop (n * chunk) plain)"
    by (cases "n * chunk + chunk \<le> length plain") simp_all
  moreover have "take (Suc n * chunk) plain = take (n * chunk) plain @ take chunk (drop (n * chunk) plain)"
    by (simp only: mult_Suc add.commute [of chunk] take_add)
  ultimately show ?case using Suc by (simp add: fragment_parts_def subslice_def)
qed (simp add: fragment_parts_def)

lemma length_fragment_parts [simp]: "length (fragment_parts chunk n plain) = n"
  by (simp add: fragment_parts_def)

lemma fragment_parts_nth:
  "i < n \<Longrightarrow> fragment_parts chunk n plain ! i
     = subslice plain (i * chunk) (min (i * chunk + chunk) (length plain))"
  by (simp add: fragment_parts_def)

text \<open>The form of one sealed frame.\<close>

definition sealed_frame :: "ikeEnvelope \<Rightarrow> Selection \<Rightarrow> bytes \<Rightarrow> bytes \<Rightarrow> ExchangeType \<Rightarrow> 32 word
    \<Rightarrow> PayloadType \<Rightarrow> SkfHeader option \<Rightarrow> Flags \<Rightarrow> bytes \<Rightarrow> Frame \<Rightarrow> bool" where
  "sealed_frame env sel ek ik exchange msgID innerNext frag flags plain f \<longleftrightarrow>
    (\<exists>body. let encType = (if frag = None then PayloadTypeSK else PayloadTypeSKF);
               pre = seal_prefix env exchange msgID innerNext encType frag flags (length body) in
       FKind f = KindIKE \<and> FPayload f = pre @ body \<and> 4 + length (frag_octets frag) + length body \<le> 0xffff
       \<and> openEncryptedBody sel ek ik pre body = Inr plain)"

definition frag_at :: "nat \<Rightarrow> nat \<Rightarrow> SkfHeader" where
  "frag_at n i = \<lparr> FragmentNumber = word_of_nat (i + 1), TotalFragments = word_of_nat n \<rparr>"

lemma valid_frag_at: "i < n \<Longrightarrow> n \<le> 0xffff \<Longrightarrow> valid_frag (Some (frag_at n i))"
  by (simp add: valid_frag_def frag_at_def word_less_nat_alt word_le_nat_alt unat_word_of_nat
      del: of_nat_add of_nat_Suc)

lemma seal_one:
  assumes "EnvSelectedIKE env = Some sel" "EnvIKEKeys env = Some keys"
    and "outboundKeyHalves (EnvIsOriginalInitiator env) keys = (ek, ik)" "usable sel ek ik"
    and "valid_frag frag" "\<exists>iv. rnd = Inr iv \<and> length iv = IVLen (SelEncryption sel)" "length plain \<le> 60000"
    and "encType = (if frag = None then PayloadTypeSK else PayloadTypeSKF)"
  shows "\<exists>f. sealProtectedEnvelope rnd env exchange msgID innerNext encType frag plain flags = Inr f
    \<and> sealed_frame env sel ek ik exchange msgID innerNext frag flags plain f"
proof -
  obtain iv where iv: "rnd = Inr iv" "length iv = IVLen (SelEncryption sel)" using assms(6) by blast
  obtain body where "sealProtectedEnvelope (Inr iv) env exchange msgID innerNext encType frag plain flags
       = Inr \<lparr> FKind = KindIKE,
           FPayload = seal_prefix env exchange msgID innerNext encType frag flags (length body) @ body,
           Frelease = False \<rparr>"
    "4 + length (frag_octets frag) + length body \<le> 0xffff"
    "openEncryptedBody sel ek ik (seal_prefix env exchange msgID innerNext encType frag flags (length body)) body
       = Inr plain"
    using sealProtected_ok [OF assms(1-5) iv(2) assms(7)] by blast
  then show ?thesis unfolding iv(1) sealed_frame_def assms(8) Let_def by (intro exI conjI) auto
qed

lemma sealFragments_ok:
  assumes "EnvSelectedIKE env = Some sel" "EnvIKEKeys env = Some keys"
    and "outboundKeyHalves (EnvIsOriginalInitiator env) keys = (ek, ik)" "usable sel ek ik"
    and "\<And>i. \<exists>iv. rnd i = Inr iv \<and> length iv = IVLen (SelEncryption sel)" "chunk \<le> 60000"
    and "1 < n" "n \<le> 0xffff" "\<forall>i \<in> set ks. i < n"
  shows "\<exists>frames. sealFragments rnd env exchange msgID nextPayload plain flags chunk n ks = Inr frames
    \<and> length frames = length ks
    \<and> (\<forall>j < length ks. sealed_frame env sel ek ik exchange msgID
          (if ks ! j = 0 then nextPayload else PayloadTypeNone) (Some (frag_at n (ks ! j))) flags
          (fragment_parts chunk n plain ! (ks ! j)) (frames ! j))"
  using assms(9)
proof (induction ks)
  case (Cons i ks)
  let ?part = "subslice plain (i * chunk) (min (i * chunk + chunk) (length plain))"
  let ?inner = "if i = 0 then nextPayload else PayloadTypeNone"
  obtain frames where fs: "sealFragments rnd env exchange msgID nextPayload plain flags chunk n ks = Inr frames"
    "length frames = length ks"
    "\<forall>j < length ks. sealed_frame env sel ek ik exchange msgID
          (if ks ! j = 0 then nextPayload else PayloadTypeNone) (Some (frag_at n (ks ! j))) flags
          (fragment_parts chunk n plain ! (ks ! j)) (frames ! j)"
    using Cons by auto
  have i: "i < n" and len: "length ?part \<le> 60000" using Cons.prems assms(6) by auto
  obtain f where f: "sealProtectedEnvelope (rnd i) env exchange msgID ?inner PayloadTypeSKF
      (Some (frag_at n i)) ?part flags = Inr f"
    "sealed_frame env sel ek ik exchange msgID ?inner (Some (frag_at n i)) flags ?part f"
    using seal_one [OF assms(1-4) valid_frag_at [OF i assms(8)] assms(5) len] by fastforce
  have "sealFragments rnd env exchange msgID nextPayload plain flags chunk n (i # ks) = Inr (f # frames)"
    using f(1) fs(1) assms(7) by (simp add: Let_def frag_at_def)
  moreover have "sealed_frame env sel ek ik exchange msgID
          (if (i # ks) ! j = 0 then nextPayload else PayloadTypeNone) (Some (frag_at n ((i # ks) ! j))) flags
          (fragment_parts chunk n plain ! ((i # ks) ! j)) ((f # frames) ! j)" if "j < length (i # ks)" for j
    using that f(2) fs(3) i by (cases j) (auto simp: fragment_parts_nth)
  ultimately show ?case using fs(2) by (intro exI [of _ "f # frames"]) auto
qed simp

text \<open>A sequence of packets, each with its time of arrival.\<close>

fun openAll :: "Config option \<Rightarrow> State \<Rightarrow> (bytes \<times> int) list \<Rightarrow> State \<times> Payload list option res list" where
  "openAll cfg state [] = (state, [])"
| "openAll cfg state ((raw, now) # arr) =
    (case openProtectedRawState cfg state raw now of
       (state, r) \<Rightarrow> (case openAll cfg state arr of (state, rs) \<Rightarrow> (state, r # rs)))"

definition timely :: "int \<Rightarrow> (nat \<times> int) list \<Rightarrow> bool" where
  "timely timeout arr = successively (\<lambda>(_, t) (_, t'). t' \<le> t + timeout) arr"

lemma openAll_fragments:
  fixes parts :: "bytes list" and frames :: "Frame list"
  assumes "length parts \<le> 0xffff" "flags AND NOT flagsMask = 0" "inner \<noteq> skfFirstPayloadUnset"
    and "\<forall>j < length parts. sealed_frame env sel ek ik exchange msgID
          (if j = 0 then inner else PayloadTypeNone) (Some (frag_at (length parts) j)) flags (parts ! j) (frames ! j)"
    and "SelectedIKE state = Some sel" "SIKEKeys state = Some keys"
    and "inboundKeyHalves (IsOriginalInitiator state) keys = (ek, ik)"
    and "InboundFragments state = frag_table exchange msgID inner parts S expires"
    and "S = {} \<or> snd (hd arr) \<le> expires" "S \<subseteq> {0..<length parts}"
    and "distinct (map fst arr)" "set (map fst arr) = {0..<length parts} - S" "arr \<noteq> []"
    and "timely (skfTimeout cfg) arr"
  shows "openAll cfg state (map (\<lambda>(i, t). (FPayload (frames ! i), t)) arr)
    = (state\<lparr> InboundFragments := None \<rparr>,
       replicate (length arr - 1) (Inr None)
         @ [bind_res (ParsePayloads (concat parts) inner False) (\<lambda>(payloads, _). Inr (Some payloads))])"
  using assms(5-14)
proof (induction arr arbitrary: state S expires)
  case Nil
  then show ?case by blast
next
  case (Cons a arr)
  obtain i t where a: "a = (i, t)" by (cases a)
  let ?inner = "if i = 0 then inner else PayloadTypeNone"
  let ?R = "bind_res (ParsePayloads (concat parts) inner False) (\<lambda>(payloads, _). Inr (Some payloads))"
  have i: "i < length parts" "i \<notin> S" using Cons.prems(8) a by auto
  obtain body where b: "FPayload (frames ! i)
      = seal_prefix env exchange msgID ?inner PayloadTypeSKF (Some (frag_at (length parts) i)) flags (length body) @ body"
    "4 + length (frag_octets (Some (frag_at (length parts) i))) + length body \<le> 0xffff"
    "openEncryptedBody sel ek ik
       (seal_prefix env exchange msgID ?inner PayloadTypeSKF (Some (frag_at (length parts) i)) flags (length body)) body
       = Inr (parts ! i)"
    using assms(4) i(1) by (auto simp: sealed_frame_def Let_def)
  let ?env = "\<lparr> EType = PayloadTypeSKF, InnerNext = ?inner, Fragmented = True,
                 Frag = frag_at (length parts) i, EBody = body \<rparr>"
  have coll: "collectSKFragment state ?env (parts ! i) msgID exchange (skfTimeout cfg) t =
    (if {0..<length parts} \<subseteq> insert i S then (state\<lparr> InboundFragments := None \<rparr>, Inr (Some (concat parts)))
     else (state\<lparr> InboundFragments := frag_table exchange msgID inner parts (insert i S) (t + skfTimeout cfg) \<rparr>,
           Inr None))"
    by (rule collect_step [OF Cons.prems(4)])
       (use Cons.prems(5,6) i assms(1) a in \<open>auto simp: frag_at_def\<close>)
  note raw = openRaw_prefix [OF Cons.prems(1-3) assms(2) b(2,3) valid_frag_at [OF i(1) assms(1)],
      where cfg = cfg and now = t, folded b(1)]
  have inner: "(case InboundFragments state of None \<Rightarrow> skfFirstPayloadUnset | Some e \<Rightarrow> FirstInnerPayload e)
      = (if 0 \<in> S then inner else skfFirstPayloadUnset)"
    using Cons.prems(4) by (auto simp: frag_table_def)
  show ?case
  proof (cases "{0..<length parts} \<subseteq> insert i S")
    case True
    then have "fst x \<in> {}" if "x \<in> set arr" for x using that Cons.prems(7,8) a by (auto simp: image_iff)
    then have "arr = []" by (cases arr) auto
    moreover have "0 \<in> S \<or> i = 0" using True i(1) by (cases parts) auto
    ultimately show ?thesis
      using True raw coll inner assms(3) i(2) unfolding a by (auto simp: Let_def)
  next
    case False
    let ?s = "state\<lparr> InboundFragments := frag_table exchange msgID inner parts (insert i S) (t + skfTimeout cfg) \<rparr>"
    have ne: "arr \<noteq> []" using False Cons.prems(8) a by auto
    have st: "timely (skfTimeout cfg) arr" "snd (hd arr) \<le> t + skfTimeout cfg"
      using Cons.prems(10) ne a by (auto simp: timely_def successively_Cons)
    have dse: "distinct (map fst arr)" "set (map fst arr) = {0..<length parts} - insert i S"
      using Cons.prems(7,8) a by auto
    have IH: "openAll cfg ?s (map (\<lambda>(i, t). (FPayload (frames ! i), t)) arr)
      = (?s\<lparr> InboundFragments := None \<rparr>, replicate (length arr - 1) (Inr None) @ [?R])"
      by (rule Cons.IH [where S = "insert i S" and expires = "t + skfTimeout cfg"])
         (use dse ne st i Cons.prems(1-3,6) in simp_all)
    have now: "openProtectedRawState cfg state (FPayload (frames ! i)) t = (?s, Inr None)"
      using raw coll False by (simp add: Let_def)
    obtain m where m: "length arr = Suc m" using ne by (cases arr) auto
    show ?thesis unfolding a list.map prod.case openAll.simps now IH by (simp add: m)
  qed
qed

text \<open>The walk over cleartext payloads reaches the encrypted one.\<close>

lemma findEncrypted_step:
  assumes "t \<noteq> 0" "t \<noteq> PayloadTypeSK" "t \<noteq> PayloadTypeSKF" "4 + length body \<le> 0xffff"
  shows "findEncrypted (pre @ payload_octets nx c body @ tail) t (length pre)
    = findEncrypted (pre @ payload_octets nx c body @ tail) nx (length pre + (4 + length body))"
proof -
  have "subslice (pre @ payload_octets nx c body @ tail) (length pre + 2) (length pre + 4)
      = be16 (word_of_nat (4 + length body))"
    by (simp add: subslice_def payload_octets_def del: of_nat_add)
  moreover have "(pre @ payload_octets nx c body @ tail) ! length pre = nx"
    by (simp add: nth_append payload_octets_def)
  ultimately show ?thesis
    using assms by (subst findEncrypted.simps) (simp add: Let_def unat_word_of_nat del: of_nat_add)
qed

lemma findEncrypted_chain:
  "wf_chain ps \<Longrightarrow> findEncrypted (pre @ chain_octets ps lst @ tail) (chain_first ps lst) (length pre)
     = findEncrypted (pre @ chain_octets ps lst @ tail) lst (length pre + length (chain_octets ps lst))"
proof (induction ps lst arbitrary: pre rule: chain_octets.induct)
  case (2 t c body ps lst)
  then show ?case
    using findEncrypted_step [of t body pre "chain_first ps lst" c "chain_octets ps lst @ tail"]
      "2.IH" [of "pre @ payload_octets (chain_first ps lst) c body"]
    by (simp add: add.assoc)
qed simp

lemma findEncrypted_SK:
  assumes "4 + length body \<le> 0xffff"
  shows "findEncrypted (pre @ payload_octets inner c body) PayloadTypeSK (length pre)
     = Inr (PayloadTypeSK, inner, length pre, 4 + length body)"
proof -
  have "subslice (pre @ payload_octets inner c body) (length pre + 2) (length pre + 4)
      = be16 (word_of_nat (4 + length body))"
    by (simp add: subslice_def payload_octets_def del: of_nat_add)
  moreover have "(pre @ payload_octets inner c body) ! length pre = inner"
    by (simp add: nth_append payload_octets_def)
  ultimately show ?thesis
    using assms by (subst findEncrypted.simps) (simp add: Let_def unat_word_of_nat del: of_nat_add)
qed

text \<open>The rebuilt prefix is the prefix of the packet.\<close>

lemma rebuildPayloads_chain:
  "wf_chain ps \<Longrightarrow> rebuildPayloads (chain_payloads ps lst) aad = Inr (aad @ chain_octets ps lst)"
  by (induction ps lst arbitrary: aad rule: chain_octets.induct) (auto simp: payload_octets_def Let_def)

section \<open>Properties\<close>

text \<open>Two ends of an IKE SA, for the witnesses.\<close>

definition sample_ike_selection :: Selection where
  "sample_ike_selection = \<lparr> SelEncryption = sample_gcm, SelIntegrity = projr (NewIntegrity 0),
     SelPRF = sample_prf, SelDH = projr (newDH 31) \<rparr>"

definition sample_ike_keys :: IKEKeys where
  "sample_ike_keys = \<lparr> SKd = [], SKai = [], SKar = [], SKei = replicate 20 1, SKer = replicate 20 2,
     SKpi = [], SKpr = [] \<rparr>"

definition sample_initiator :: State where
  "sample_initiator = NewState\<lparr> SInitiatorSPI := 5, SResponderSPI := 6, SIKEKeys := Some sample_ike_keys,
     SelectedIKE := Some sample_ike_selection,
     Peer := \<lparr> SupportsEAPOnlyAuthentication = False, SupportsMessageIDSync = False,
              SupportsFragmentation = True \<rparr> \<rparr>"

definition sample_responder :: State where
  "sample_responder = sample_initiator\<lparr> IsOriginalInitiator := False \<rparr>"

lemma sample_gcm_sizes: "IVLen sample_gcm = 8" "ICVLen sample_gcm = 16" "BlockLen sample_gcm = 1"
  by (simp_all add: sample_gcm_def NewEncryption_def)

lemma sample_ends [simp]:
  "SInitiatorSPI sample_initiator = 5" "SResponderSPI sample_initiator = 6"
  "SIKEKeys sample_initiator = Some sample_ike_keys" "SelectedIKE sample_initiator = Some sample_ike_selection"
  "SIKEKeys sample_responder = Some sample_ike_keys" "SelectedIKE sample_responder = Some sample_ike_selection"
  "IsOriginalInitiator sample_initiator" "\<not> IsOriginalInitiator sample_responder"
  "InboundFragments sample_initiator = None" "InboundFragments sample_responder = None"
  "SupportsFragmentation (Peer sample_initiator)" "SelEncryption sample_ike_selection = sample_gcm"
  by (simp_all add: sample_initiator_def sample_responder_def NewState_def sample_ike_selection_def)

lemma sample_paired: "paired (stateIKEEnvelope sample_initiator) sample_responder"
  by (simp add: paired_def stateIKEEnvelope_def outboundKeyHalves_def usable_def)
     (simp add: sample_ike_keys_def)

text \<open>C4: what one end of an IKE SA seals, the other end opens. For every payload chain that fits,
  building the protected message succeeds, as one SK packet or split into SKF
  fragments, and whatever the order in which the packets arrive (each within the
  reassembly timeout of the previous one), the receiver reports every packet but the
  last as incomplete and returns the chain with the last, its state as before.\<close>

theorem protected_round_trip:
  assumes "paired env state" "InboundFragments state = None" "EnvInitiatorSPI env \<noteq> 0"
    and "\<And>i. \<exists>iv. rnd i = Inr iv \<and> length iv = IVLen (SelEncryption (the (EnvSelectedIKE env)))"
    and "flags AND NOT flagsMask = 0" "wf_chain ps" "chain_first ps PayloadTypeNone \<noteq> skfFirstPayloadUnset"
    and "fragmentChunk cfg \<le> 60000"
    and "length (chain_octets ps PayloadTypeNone)
       \<le> (if SupportsFragmentation (EnvPeer env) then 0xffff * fragmentChunk cfg else 60000)"
  shows "\<exists>frames. buildProtectedEnvelopeAs rnd cfg env exchange msgID (chain_first ps PayloadTypeNone)
        (chain_octets ps PayloadTypeNone) flags = Inr frames
    \<and> length frames =
         (if SupportsFragmentation (EnvPeer env) \<and> length (chain_octets ps PayloadTypeNone) > fragmentChunk cfg
          then (length (chain_octets ps PayloadTypeNone) + fragmentChunk cfg - 1) div fragmentChunk cfg else 1)
    \<and> (\<forall>arr. distinct (map fst arr) \<and> set (map fst arr) = {0..<length frames} \<and> timely (skfTimeout rcfg) arr \<longrightarrow>
         openAll rcfg state (map (\<lambda>(i, t). (FPayload (frames ! i), t)) arr)
           = (state, replicate (length frames - 1) (Inr None) @ [Inr (Some (chain_payloads ps PayloadTypeNone))]))"
proof -
  let ?plain = "chain_octets ps PayloadTypeNone" and ?inner = "chain_first ps PayloadTypeNone"
  let ?chunk = "fragmentChunk cfg"
  obtain sel keys ek ik where p: "EnvSelectedIKE env = Some sel" "SelectedIKE state = Some sel"
    "EnvIKEKeys env = Some keys" "SIKEKeys state = Some keys"
    "outboundKeyHalves (EnvIsOriginalInitiator env) keys = (ek, ik)" "usable sel ek ik"
    and half: "inboundKeyHalves (IsOriginalInitiator state) keys = (ek, ik)"
    using assms(1) inbound_outbound_halves unfolding paired_def by metis
  have rnd: "\<exists>iv. rnd i = Inr iv \<and> length iv = IVLen (SelEncryption sel)" for i using assms(4) p(1) by simp
  have same: "state\<lparr> InboundFragments := None \<rparr> = state" using assms(2) by simp
  have parse: "ParsePayloads ?plain ?inner False = Inr (chain_payloads ps PayloadTypeNone, None)"
    by (rule ParsePayloads_chain [OF assms(6)])
  have pos: "0 < ?chunk" by (simp add: fragmentChunk_def split: option.split)
  show ?thesis
  proof (cases "SupportsFragmentation (EnvPeer env) \<and> length ?plain > ?chunk")
    case True
    define n where "n = (length ?plain + ?chunk - 1) div ?chunk"
    have n: "1 < n" "n \<le> 0xffff" "length ?plain \<le> n * ?chunk"
      using ceil_div [OF pos, of "length ?plain"] True assms(9) by (simp_all add: n_def)
    obtain frames where f: "sealFragments rnd env exchange msgID ?inner ?plain flags ?chunk n [0..<n] = Inr frames"
      "length frames = n"
      "\<forall>j < n. sealed_frame env sel ek ik exchange msgID (if j = 0 then ?inner else PayloadTypeNone)
         (Some (frag_at n j)) flags (fragment_parts ?chunk n ?plain ! j) (frames ! j)"
      using sealFragments_ok [OF p(1,3,5,6) _ assms(8) n(1,2), where rnd = rnd and ks = "[0..<n]" and exchange = exchange
        and msgID = msgID and nextPayload = ?inner and plain = ?plain and flags = flags] rnd
      by auto
    let ?parts = "fragment_parts ?chunk n ?plain"
    have whole: "concat ?parts = ?plain" using n(3) by (simp add: concat_fragment_parts)
    have "openAll rcfg state (map (\<lambda>(i, t). (FPayload (frames ! i), t)) arr)
           = (state, replicate (n - 1) (Inr None) @ [Inr (Some (chain_payloads ps PayloadTypeNone))])"
      if arr: "distinct (map fst arr)" "set (map fst arr) = {0..<n}" "timely (skfTimeout rcfg) arr" for arr
    proof -
      have "length arr = n" using distinct_card [OF arr(1)] arr(2) by simp
      moreover have "openAll rcfg state (map (\<lambda>(i, t). (FPayload (frames ! i), t)) arr)
        = (state\<lparr> InboundFragments := None \<rparr>, replicate (length arr - 1) (Inr None)
         @ [bind_res (ParsePayloads (concat ?parts) ?inner False) (\<lambda>(payloads, _). Inr (Some payloads))])"
        by (rule openAll_fragments [OF _ assms(5,7) _ p(2,4) half, where S = "{}" and expires = 0])
           (use f n arr assms(2) in \<open>auto simp: frag_table_def\<close>)
      ultimately show ?thesis by (simp add: whole parse same)
    qed
    moreover have "buildProtectedEnvelopeAs rnd cfg env exchange msgID ?inner ?plain flags = Inr frames"
      using True f(1) n assms(3) p(1,3) by (simp add: buildProtectedEnvelopeAs_def Let_def n_def)
    ultimately show ?thesis using f(2) True by (auto simp: n_def)
  next
    case False
    then have "length ?plain \<le> 60000" using assms(8,9) by (auto split: if_splits)
    then obtain f where f: "sealProtectedEnvelope (rnd 0) env exchange msgID ?inner PayloadTypeSK None ?plain flags = Inr f"
      "sealed_frame env sel ek ik exchange msgID ?inner None flags ?plain f"
      using seal_one [OF p(1,3,5,6), where rnd = "rnd 0" and frag = None and plain = ?plain and encType = PayloadTypeSK
          and exchange = exchange and msgID = msgID and innerNext = ?inner and flags = flags] rnd
      by (auto simp: valid_frag_def)
    have "buildProtectedEnvelopeAs rnd cfg env exchange msgID ?inner ?plain flags = Inr [f]"
      using False f(1) assms(3) p(1,3) by (auto simp: buildProtectedEnvelopeAs_def Let_def)
    moreover have "openProtectedRawState rcfg state (FPayload f) t = (state, Inr (Some (chain_payloads ps PayloadTypeNone)))" for t
      using f(2) openRaw_prefix [OF p(2,4) half assms(5), of None]
      by (auto simp: sealed_frame_def Let_def valid_frag_def parse)
    then have "openAll rcfg state (map (\<lambda>(i, t). (FPayload ([f] ! i), t)) arr)
        = (state, [Inr (Some (chain_payloads ps PayloadTypeNone))])"
      if arr: "distinct (map fst arr)" "set (map fst arr) = {0..<1}" for arr
    proof -
      have "length arr = 1" using distinct_card [OF arr(1)] arr(2) by simp
      then obtain t where "arr = [(0, t)]" using arr(2) by (auto simp: length_Suc_conv)
      then show ?thesis using \<open>\<And>t. openProtectedRawState rcfg state (FPayload f) t = _\<close> by simp
    qed
    ultimately show ?thesis using False by (intro exI [of _ "[f]"]) auto
  qed
qed

theorem protected_round_trip_witness:
  "\<exists>frames. buildProtectedEnvelopeAs (\<lambda>_. Inr (replicate 8 9)) None (stateIKEEnvelope sample_initiator)
        ExchangeIkeAuth 1 PayloadTypeNonce (chain_octets [(PayloadTypeNonce, False, replicate 1100 7)] PayloadTypeNone)
        FlagInitiator = Inr frames
    \<and> length frames = 2
    \<and> openAll None sample_responder [(FPayload (frames ! 1), 5), (FPayload (frames ! 0), 9)]
        = (sample_responder, [Inr None,
             Inr (Some (chain_payloads [(PayloadTypeNonce, False, replicate 1100 7)] PayloadTypeNone))])"
proof -
  let ?ps = "[(PayloadTypeNonce, False, replicate 1100 7)]"
  have l: "length (chain_octets ?ps PayloadTypeNone) = 1104" by simp
  have c: "fragmentChunk None = 1024" by (simp add: fragmentChunk_def)
  obtain frames where f: "buildProtectedEnvelopeAs (\<lambda>_. Inr (replicate 8 9)) None (stateIKEEnvelope sample_initiator)
        ExchangeIkeAuth 1 PayloadTypeNonce (chain_octets ?ps PayloadTypeNone) FlagInitiator = Inr frames"
    "length frames = 2"
    "\<forall>arr. distinct (map fst arr) \<and> set (map fst arr) = {0..<2} \<and> timely (skfTimeout None) arr \<longrightarrow>
         openAll None sample_responder (map (\<lambda>(i, t). (FPayload (frames ! i), t)) arr)
           = (sample_responder, replicate (2 - 1) (Inr None) @ [Inr (Some (chain_payloads ?ps PayloadTypeNone))])"
    using protected_round_trip [OF sample_paired, where rnd = "\<lambda>_. Inr (replicate 8 9)" and cfg = None and ps = ?ps
        and flags = FlagInitiator and exchange = ExchangeIkeAuth and msgID = 1 and rcfg = None]
    unfolding l c by (auto simp: stateIKEEnvelope_def sample_gcm_sizes flagsMask_def)
  have "{1, 0} = {0..<2::nat}" by auto
  then have "openAll None sample_responder (map (\<lambda>(i, t). (FPayload (frames ! i), t)) [(1, 5), (0, 9)])
      = (sample_responder, replicate (2 - 1) (Inr None) @ [Inr (Some (chain_payloads ?ps PayloadTypeNone))])"
    using f(3) [rule_format, of "[(1, 5), (0, 9)]"] by (auto simp: timely_def skfTimeout_def)
  then show ?thesis using f(1,2) by (intro exI [of _ frames]) simp
qed


definition sample_sk_header :: Header where
  "sample_sk_header = \<lparr> InitiatorSPI = replicate 8 1, ResponderSPI = replicate 8 2,
        NextPayload = PayloadTypeNonce, Version = IKEDefaultVersion, ExchangeTyp = ExchangeIkeAuth,
        HFlags = FlagResponse, MessageID = 1, Length = 61 \<rparr>"


text \<open>A finding. The next-payload type of a reassembled message is read from the fragment
  table before an expired table is dropped: when a message of a single fragment arrives
  after an unfinished one expired, its payloads are parsed with the type the expired
  message declared, not with its own.\<close>

theorem stale_first_payload:
  assumes "SelectedIKE state = Some sel" "SIKEKeys state = Some keys"
    and "inboundKeyHalves (IsOriginalInitiator state) keys = (ek, ik)"
    and "InboundFragments state = Some table" "ExpiresAt table < now"
    and "FirstInnerPayload table \<noteq> skfFirstPayloadUnset" "flags AND NOT flagsMask = 0"
    and "sealed_frame env sel ek ik exchange msgID innerNext (Some (frag_at 1 0)) flags plain f"
  shows "openProtectedRawState cfg state (FPayload f) now
    = (state\<lparr> InboundFragments := None \<rparr>,
       bind_res (ParsePayloads plain (FirstInnerPayload table) False) (\<lambda>(payloads, _). Inr (Some payloads)))"
proof -
  obtain body where b: "FPayload f
      = seal_prefix env exchange msgID innerNext PayloadTypeSKF (Some (frag_at 1 0)) flags (length body) @ body"
    "4 + length (frag_octets (Some (frag_at 1 0))) + length body \<le> 0xffff"
    "openEncryptedBody sel ek ik
       (seal_prefix env exchange msgID innerNext PayloadTypeSKF (Some (frag_at 1 0)) flags (length body)) body = Inr plain"
    using assms(8) by (auto simp: sealed_frame_def Let_def)
  have "valid_frag (Some (frag_at 1 0))" by (rule valid_frag_at) simp_all
  note raw = openRaw_prefix [OF assms(1-3,7) b(2,3) this, where cfg = cfg and now = now, folded b(1)]
  have "dropExpired now state = state\<lparr> InboundFragments := None \<rparr>"
    using assms(4,5) by (simp add: dropExpired_def)
  then have "collectSKFragment state \<lparr> EType = PayloadTypeSKF, InnerNext = innerNext, Fragmented = True,
       Frag = frag_at 1 0, EBody = body \<rparr> plain msgID exchange (skfTimeout cfg) now
     = (state\<lparr> InboundFragments := None \<rparr>, Inr (Some plain))"
    by (simp add: collectSKFragment_def Let_def newTable_def frag_at_def)
  then show ?thesis using raw assms(4,6) by (simp add: Let_def)
qed

theorem stale_first_payload_witness:
  "\<exists>f. sealProtectedEnvelope (Inr (replicate 8 9)) (stateIKEEnvelope sample_initiator) ExchangeIkeAuth 1
        PayloadTypeNotify PayloadTypeSKF (Some (frag_at 1 0))
        (chain_octets [(PayloadTypeNotify, False, [1])] PayloadTypeNone) FlagInitiator = Inr f
    \<and> openProtectedRawState None (sample_responder\<lparr> InboundFragments := Some \<lparr> FrExchangeType = ExchangeIkeAuth,
          FrMessageID = 0, FirstInnerPayload = PayloadTypeNonce, Fragments = [Some [], None], ExpiresAt = 0 \<rparr> \<rparr>)
        (FPayload f) 1
      = (sample_responder\<lparr> InboundFragments := None \<rparr>,
         Inr (Some (chain_payloads [(PayloadTypeNonce, False, [1])] PayloadTypeNone)))"
proof -
  let ?plain = "chain_octets [(PayloadTypeNotify, False, [1])] PayloadTypeNone"
  let ?t = "\<lparr> FrExchangeType = ExchangeIkeAuth, FrMessageID = 0, FirstInnerPayload = PayloadTypeNonce,
      Fragments = [Some [], None], ExpiresAt = 0 \<rparr>"
  let ?s = "sample_responder\<lparr> InboundFragments := Some ?t \<rparr>"
  let ?ek = "SKei sample_ike_keys" and ?ik = "SKai sample_ike_keys"
  have u: "usable sample_ike_selection ?ek ?ik" by (simp add: usable_def) (simp add: sample_ike_keys_def)
  obtain f where f: "sealProtectedEnvelope (Inr (replicate 8 9)) (stateIKEEnvelope sample_initiator) ExchangeIkeAuth 1
        PayloadTypeNotify PayloadTypeSKF (Some (frag_at 1 0)) ?plain FlagInitiator = Inr f"
    "sealed_frame (stateIKEEnvelope sample_initiator) sample_ike_selection ?ek ?ik ExchangeIkeAuth 1
       PayloadTypeNotify (Some (frag_at 1 0)) FlagInitiator ?plain f"
    using seal_one [OF _ _ _ u valid_frag_at [of 0 1], of "stateIKEEnvelope sample_initiator" sample_ike_keys
        "Inr (replicate 8 9)" ?plain]
    by (force simp: stateIKEEnvelope_def outboundKeyHalves_def sample_gcm_sizes)
  have "ParsePayloads ?plain PayloadTypeNonce False
      = Inr (chain_payloads [(PayloadTypeNonce, False, [1])] PayloadTypeNone, None)"
    using ParsePayloads_chain [of "[(PayloadTypeNonce, False, [1])]" False] by simp
  then show ?thesis
    using f stale_first_payload [of ?s sample_ike_selection sample_ike_keys ?ek ?ik ?t 1 FlagInitiator, OF _ _ _ _ _ _ _ f(2)]
    by (intro exI [of _ f]) (simp add: inboundKeyHalves_def flagsMask_def)
qed

end
