(* ===== verification/Control_Exchange.thy ===== *)
theory Control_Exchange
  imports Control_Protected
begin

text \<open>
  Request and response exchanges of the handshake (\<^verbatim>\<open>src/control/exchange.go\<close>):
  allocation of message ids, the checkpoint for retransmission, classification
  and validation of responses, and the receive loop with its retransmission
  timer.

  The handshake worker is a record of its configuration and state with three
  logs, the frames sent on \<^verbatim>\<open>tx\<close>, the packets released and the events emitted. A turn of the loop
  consumes one event, the case the \<^verbatim>\<open>select\<close> took. In a send of several frames
  \<open>stop\<close> is the number of frames after which the context was done. Durations are
  integers; they stay far below the range of \<^verbatim>\<open>time.Duration\<close>.

  The lemmas show that the loop returns only a message that answers the request,
  that the request is sent at most once more than the configured retries, that
  every retransmission repeats the same frames, that the delay stays within its bounds, and that
  a silent or hostile peer cannot keep the loop from giving up.
\<close>

section \<open>The worker\<close>

record Handshake =
  HCfg :: Config
  HState :: State
  HTx :: "Frame list"
  HReleased :: "Packet list"
  HEvents :: "Event list"

datatype Disposition = DispositionExpected | DispositionDuplicateOrStale | DispositionIgnore

definition beginRequest :: "Handshake \<Rightarrow> Handshake \<times> 32 word" where
  "beginRequest h =
    (let s = HState h; i = NextRequestMessageID s;
         s = s\<lparr> ExpectedResponseMessageID := i, HasExpectedResponse := True \<rparr>;
         s = (if NextRequestMessageID s \<noteq> -1
              then s\<lparr> NextRequestMessageID := NextRequestMessageID s + 1 \<rparr> else s)
     in (h\<lparr> HState := s \<rparr>, i))"

text \<open>Sending frames until the context is done.\<close>

definition sendFrames :: "nat option \<Rightarrow> Frame list \<Rightarrow> Handshake \<Rightarrow> Handshake \<times> unit res" where
  "sendFrames stop frames h =
    (case stop of
       Some k \<Rightarrow> if k < length frames then (h\<lparr> HTx := HTx h @ take k frames \<rparr>, Inl CtxDone)
                 else (h\<lparr> HTx := HTx h @ frames \<rparr>, Inr ())
     | None \<Rightarrow> (h\<lparr> HTx := HTx h @ frames \<rparr>, Inr ()))"

definition sendRequest :: "nat option \<Rightarrow> Frame list \<Rightarrow> Handshake \<Rightarrow> Handshake \<times> unit res" where
  "sendRequest stop pkts h =
    (if \<not> HasExpectedResponse (HState h)
     then (h, Inl (Errorf ''control: sendRequest without an expected response message-id''))
     else sendFrames stop pkts (h\<lparr> HState := (HState h)\<lparr> OutboundRequest := Some
            \<lparr> CkMessageID = ExpectedResponseMessageID (HState h), CkPackets = pkts \<rparr> \<rparr> \<rparr>))"

section \<open>Responses\<close>

definition validateResponseEnvelopeForRole :: "Header \<Rightarrow> bool \<Rightarrow> unit res" where
  "validateResponseEnvelopeForRole hdr localOriginalInitiator =
    (if Version hdr \<noteq> IKEDefaultVersion then Inl (Errorf ''control: unexpected IKE version'')
     else if HFlags hdr AND FlagResponse = 0
     then Inl (Errorf ''control: expected response flag in inbound message'')
     else if (HFlags hdr AND FlagInitiator \<noteq> 0) \<noteq> (\<not> localOriginalInitiator)
     then Inl (Errorf ''control: unexpected initiator flag in response'')
     else if HFlags hdr AND NOT (FlagResponse OR FlagVersion OR FlagInitiator) \<noteq> 0
     then Inl (Errorf ''control: unexpected reserved flag bits'')
     else Inr ())"

definition classifyResponse :: "State \<Rightarrow> Header \<Rightarrow> 32 word \<Rightarrow> Disposition res" where
  "classifyResponse s hdr msgID =
    (if Uint64 (InitiatorSPI hdr) \<noteq> SInitiatorSPI s then Inr DispositionIgnore
     else if SResponderSPI s \<noteq> 0 \<and> Uint64 (ResponderSPI hdr) \<noteq> SResponderSPI s then Inr DispositionIgnore
     else bind_res (validateResponseEnvelopeForRole hdr (IsOriginalInitiator s)) (\<lambda>_.
       let i = MessageID hdr in
       if i = msgID then Inr DispositionExpected
       else if i < msgID \<and> HasLastCompletedResponse s \<and> i \<le> LastCompletedResponseMessageID s
       then Inr DispositionDuplicateOrStale
       else if i < msgID then Inl (Errorf ''control: stale response message-id'')
       else Inl (Errorf ''control: future response message-id'')))"

definition handleInboundResponse ::
  "Packet option \<Rightarrow> 32 word \<Rightarrow> Handshake \<Rightarrow> Handshake \<times> (Message option \<times> Disposition) res" where
  "handleInboundResponse pkt msgID h =
    (case pkt of
       None \<Rightarrow> (h, Inr (None, DispositionIgnore))
     | Some pkt \<Rightarrow>
         let h = h\<lparr> HReleased := HReleased h @ [pkt] \<rparr> in
         if PKind pkt \<noteq> KindIKE then (h, Inr (None, DispositionIgnore))
         else case ParseMessage (PPayload pkt) of
           Inl _ \<Rightarrow> (h, Inr (None, DispositionIgnore))
         | Inr msg \<Rightarrow>
             (case classifyResponse (HState h) (MHeader msg) msgID of
                Inl e \<Rightarrow> (h, Inl e)
              | Inr DispositionExpected \<Rightarrow> (h, Inr (Some msg, DispositionExpected))
              | Inr dispose \<Rightarrow> (h, Inr (None, dispose))))"

definition validateResponseHeader ::
  "Header \<Rightarrow> ExchangeType \<Rightarrow> 32 word \<Rightarrow> State \<Rightarrow> State \<times> unit res" where
  "validateResponseHeader hdr exchange msgID s =
    (case validateResponseEnvelopeForRole hdr (IsOriginalInitiator s) of
       Inl e \<Rightarrow> (s, Inl e)
     | Inr _ \<Rightarrow>
         if Uint64 (InitiatorSPI hdr) \<noteq> SInitiatorSPI s
         then (s, Inl (Errorf ''control: initiator SPI mismatch in response''))
         else if SResponderSPI s \<noteq> 0 \<and> Uint64 (ResponderSPI hdr) \<noteq> SResponderSPI s
         then (s, Inl (Errorf ''control: responder SPI mismatch in response''))
         else if ExchangeTyp hdr \<noteq> exchange then (s, Inl (Errorf ''control: unexpected exchange type''))
         else if MessageID hdr \<noteq> msgID then (s, Inl (Errorf ''control: unexpected message-id''))
         else if exchange = ExchangeIkeSAInit then
           if IsZero (ResponderSPI hdr) then
             if NextPayload hdr \<noteq> PayloadTypeNotify
             then (s, Inl (Errorf ''control: IKE_SA_INIT without responder SPI must start with a NOTIFY payload''))
             else (s, Inr ())
           else (s\<lparr> SResponderSPI := Uint64 (ResponderSPI hdr) \<rparr>, Inr ())
         else (s, Inr ()))"

section \<open>The receive loop\<close>

record Wait =
  rto :: int
  retries :: "8 word"

definition retransmit :: "nat option \<Rightarrow> Wait \<Rightarrow> Handshake \<Rightarrow> Handshake \<times> Wait \<times> unit res" where
  "retransmit stop w h =
    (case OutboundRequest (HState h) of
       None \<Rightarrow> (h, w, Inl (Errorf ''control: timed out without an outbound checkpoint''))
     | Some ck \<Rightarrow>
         if CkMessageID ck \<noteq> ExpectedResponseMessageID (HState h)
         then (h, w, Inl (Errorf ''control: outbound request checkpoint mismatch while retransmitting''))
         else if retries w \<ge> MaxRetries (CfgTimeouts (HCfg h))
         then (h, w, Inl (Errorf ''control: timed out after retransmits''))
         else
           let w = w\<lparr> retries := retries w + 1 \<rparr>;
               h = h\<lparr> HState := (HState h)\<lparr> InboundFragments := None \<rparr> \<rparr> in
           (case sendFrames stop (CkPackets ck) h of
              (h, Inl e) \<Rightarrow> (h, w, Inl e)
            | (h, Inr _) \<Rightarrow>
                let w = w\<lparr> rto := rto w * 2 \<rparr>; mx = MaxRTO (CfgTimeouts (HCfg h)) in
                (h, if rto w > mx then w\<lparr> rto := mx \<rparr> else w, Inr ())))"

datatype waitEvent =
    WaitPacket "Packet option"
  | WaitClosed
  | WaitTimer "nat option"
  | WaitCtxDone

text \<open>The bookkeeping of an accepted response.\<close>

definition acceptResponse :: "ExchangeType \<Rightarrow> 32 word \<Rightarrow> State \<Rightarrow> State" where
  "acceptResponse exchange msgID s =
    (let s = (if exchange = ExchangeIkeAuth then s\<lparr> FirstIKEAuthSeen := True \<rparr> else s) in
     s\<lparr> LastCompletedResponseMessageID := msgID, HasLastCompletedResponse := True,
        OutboundRequest := None, InboundFragments := None, HasExpectedResponse := False \<rparr>)"

definition waitStep ::
  "ExchangeType \<Rightarrow> 32 word \<Rightarrow> waitEvent \<Rightarrow> Wait \<Rightarrow> Handshake \<Rightarrow> Handshake \<times> Wait \<times> Message res option" where
  "waitStep exchange msgID ev w h =
    (case ev of
       WaitClosed \<Rightarrow> (h, w, Some (Inl (Errorf ''control: inbound channel closed'')))
     | WaitCtxDone \<Rightarrow> (h, w, Some (Inl CtxDone))
     | WaitTimer stop \<Rightarrow>
         (case retransmit stop w h of
            (h, w, Inl e) \<Rightarrow> (h, w, Some (Inl e))
          | (h, w, Inr _) \<Rightarrow> (h, w, None))
     | WaitPacket pkt \<Rightarrow>
         (case handleInboundResponse pkt msgID h of
            (h, Inl e) \<Rightarrow> (h, w, Some (Inl e))
          | (h, Inr (Some msg, DispositionExpected)) \<Rightarrow>
              (case validateResponseHeader (MHeader msg) exchange msgID (HState h) of
                 (s, Inl e) \<Rightarrow> (h\<lparr> HState := s \<rparr>, w, Some (Inl e))
               | (s, Inr _) \<Rightarrow> (h\<lparr> HState := acceptResponse exchange msgID s \<rparr>, w, Some (Inr msg)))
          | (h, Inr _) \<Rightarrow> (h, w, None)))"

text \<open>The loop over the events that happen; None: still waiting when they end.\<close>

fun waitLoop ::
  "ExchangeType \<Rightarrow> 32 word \<Rightarrow> waitEvent list \<Rightarrow> Wait \<Rightarrow> Handshake \<Rightarrow> Handshake \<times> Wait \<times> Message res option" where
  "waitLoop exchange msgID [] w h = (h, w, None)"
| "waitLoop exchange msgID (ev # evs) w h =
    (case waitStep exchange msgID ev w h of
       (h, w, Some r) \<Rightarrow> (h, w, Some r)
     | (h, w, None) \<Rightarrow> waitLoop exchange msgID evs w h)"

definition waitResponse ::
  "ExchangeType \<Rightarrow> 32 word \<Rightarrow> waitEvent list \<Rightarrow> Handshake \<Rightarrow> Handshake \<times> Message res option" where
  "waitResponse exchange msgID evs h =
    (case waitLoop exchange msgID evs \<lparr> rto = InitialRTO (CfgTimeouts (HCfg h)), retries = 0 \<rparr> h of
       (h, _, r) \<Rightarrow> (h, r))"

section \<open>Lemmas: one turn of the loop\<close>

lemma sendFrames_cases:
  assumes "sendFrames stop frames h = (h', r)"
  obtains (sent) "r = Inr ()" "h' = h\<lparr> HTx := HTx h @ frames \<rparr>"
  | (stopped) k where "k < length frames" "r = Inl CtxDone" "h' = h\<lparr> HTx := HTx h @ take k frames \<rparr>"
  using assms by (auto simp: sendFrames_def split: option.splits if_splits)

lemma handleInboundResponse_same:
  assumes "handleInboundResponse pkt msgID h = (h', r)"
  shows "HCfg h' = HCfg h \<and> HState h' = HState h \<and> HTx h' = HTx h"
  using assms by (auto simp: handleInboundResponse_def Let_def split: option.splits if_splits sum.splits Disposition.splits)

lemma handleInboundResponse_expected:
  assumes "handleInboundResponse pkt msgID h = (h', Inr (Some msg, DispositionExpected))"
  obtains p where "pkt = Some p" "PKind p = KindIKE" "ParseMessage (PPayload p) = Inr msg"
    "classifyResponse (HState h) (MHeader msg) msgID = Inr DispositionExpected"
  using assms by (auto simp: handleInboundResponse_def Let_def split: option.splits if_splits sum.splits Disposition.splits)

lemma validateResponseHeader_ok:
  assumes "validateResponseHeader hdr exchange msgID s = (s', Inr ())"
  shows "Uint64 (InitiatorSPI hdr) = SInitiatorSPI s" "SResponderSPI s = 0 \<or> Uint64 (ResponderSPI hdr) = SResponderSPI s"
    "ExchangeTyp hdr = exchange" "MessageID hdr = msgID" "HFlags hdr AND FlagResponse \<noteq> 0"
  using assms
  by (auto simp: validateResponseHeader_def validateResponseEnvelopeForRole_def split: sum.splits if_splits)

text \<open>A turn that returns no result was a packet that was dropped or a retransmission.\<close>

lemma retransmit_ok:
  assumes "retransmit stop w h = (h', w', Inr ())"
  obtains ck where "OutboundRequest (HState h) = Some ck" "retries w < MaxRetries (CfgTimeouts (HCfg h))"
    "w' = \<lparr> rto = min (rto w * 2) (MaxRTO (CfgTimeouts (HCfg h))), retries = retries w + 1 \<rparr>"
    "h' = h\<lparr> HState := (HState h)\<lparr> InboundFragments := None \<rparr>, HTx := HTx h @ CkPackets ck \<rparr>"
proof -
  let ?h = "h\<lparr> HState := (HState h)\<lparr> InboundFragments := None \<rparr> \<rparr>"
  obtain ck where ck: "OutboundRequest (HState h) = Some ck" "\<not> MaxRetries (CfgTimeouts (HCfg h)) \<le> retries w"
    "CkMessageID ck = ExpectedResponseMessageID (HState h)"
    using assms by (auto simp: retransmit_def split: option.splits if_splits)
  obtain h1 r where s: "sendFrames stop (CkPackets ck) ?h = (h1, r)" by fastforce
  show thesis
    using s
  proof (cases rule: sendFrames_cases)
    case sent
    then show thesis using assms ck s that by (auto simp: retransmit_def Let_def min_def not_le split: if_splits)
  next
    case stopped
    then show thesis using assms ck s by (simp add: retransmit_def Let_def)
  qed
qed

lemma waitStep_None:
  assumes "waitStep exchange msgID ev w h = (h', w', None)"
  obtains (dropped) pkt where "ev = WaitPacket pkt" "w' = w" "HCfg h' = HCfg h" "HState h' = HState h" "HTx h' = HTx h"
  | (resent) stop ck where "ev = WaitTimer stop" "OutboundRequest (HState h) = Some ck"
      "retries w < MaxRetries (CfgTimeouts (HCfg h))"
      "w' = \<lparr> rto = min (rto w * 2) (MaxRTO (CfgTimeouts (HCfg h))), retries = retries w + 1 \<rparr>"
      "h' = h\<lparr> HState := (HState h)\<lparr> InboundFragments := None \<rparr>, HTx := HTx h @ CkPackets ck \<rparr>"
proof (cases ev)
  case (WaitPacket pkt)
  obtain h1 r where r: "handleInboundResponse pkt msgID h = (h1, r)" by fastforce
  have "h' = h1 \<and> w' = w"
    using assms r WaitPacket
    by (auto simp: waitStep_def split: sum.splits prod.splits option.splits Disposition.splits)
  then show thesis using dropped WaitPacket handleInboundResponse_same [OF r] by blast
next
  case (WaitTimer stop)
  obtain h1 w1 r where r: "retransmit stop w h = (h1, w1, r)" by (metis prod_cases3)
  then have "retransmit stop w h = (h', w', Inr ())"
    using assms WaitTimer by (auto simp: waitStep_def split: sum.splits)
  then show thesis by (rule retransmit_ok) (rule resent [OF WaitTimer])
qed (use assms in \<open>simp_all add: waitStep_def\<close>)

lemma waitStep_answer:
  assumes "waitStep exchange msgID ev w h = (h', w', Some (Inr msg))"
  obtains p s' where "ev = WaitPacket (Some p)" "PKind p = KindIKE" "ParseMessage (PPayload p) = Inr msg"
    "validateResponseHeader (MHeader msg) exchange msgID (HState h) = (s', Inr ())"
    "HState h' = acceptResponse exchange msgID s'" "HTx h' = HTx h"
proof (cases ev)
  case (WaitPacket pkt)
  obtain h1 r where r: "handleInboundResponse pkt msgID h = (h1, r)" by fastforce
  note same = handleInboundResponse_same [OF r]
  obtain msg' d where rr: "r = Inr (Some msg', d)" "d = DispositionExpected"
    using assms r WaitPacket
    by (auto simp: waitStep_def split: sum.splits prod.splits option.splits Disposition.splits)
  obtain s' v where v: "validateResponseHeader (MHeader msg') exchange msgID (HState h1) = (s', v)" by fastforce
  have m: "v = Inr ()" "msg' = msg" "h' = h1\<lparr> HState := acceptResponse exchange msgID s' \<rparr>"
    using assms r rr v WaitPacket by (auto simp: waitStep_def split: sum.splits)
  obtain p where "pkt = Some p" "PKind p = KindIKE" "ParseMessage (PPayload p) = Inr msg'"
    using r rr handleInboundResponse_expected by blast
  then show thesis using that [of p s'] WaitPacket m v same by simp
qed (use assms in \<open>auto simp: waitStep_def split: sum.splits prod.splits\<close>)

lemma waitStep_sends:
  assumes "waitStep exchange msgID ev w h = (h', w', Some r)" "OutboundRequest (HState h) = Some ck"
  shows "\<exists>n. HTx h' = HTx h @ take n (CkPackets ck)
     \<and> (take n (CkPackets ck) \<noteq> [] \<longrightarrow> retries w < MaxRetries (CfgTimeouts (HCfg h)))"
proof (cases ev)
  case (WaitPacket pkt)
  obtain h1 r1 where r: "handleInboundResponse pkt msgID h = (h1, r1)" by fastforce
  have "HTx h' = HTx h1"
    using assms(1) r WaitPacket
    by (auto simp: waitStep_def split: sum.splits prod.splits option.splits Disposition.splits)
  then show ?thesis using handleInboundResponse_same [OF r] by (intro exI [of _ 0]) simp
next
  case (WaitTimer stop)
  let ?h = "h\<lparr> HState := (HState h)\<lparr> InboundFragments := None \<rparr> \<rparr>"
  obtain h1 r1 where s: "sendFrames stop (CkPackets ck) ?h = (h1, r1)" by fastforce
  show ?thesis
  proof (cases "CkMessageID ck = ExpectedResponseMessageID (HState h) \<and> \<not> MaxRetries (CfgTimeouts (HCfg h)) \<le> retries w")
    case True
    from s show ?thesis
    proof (cases rule: sendFrames_cases)
      case sent
      then show ?thesis using assms WaitTimer True s by (simp add: waitStep_def retransmit_def Let_def)
    next
      case (stopped k)
      then show ?thesis using assms WaitTimer True s
        by (intro exI [of _ k]) (auto simp: waitStep_def retransmit_def Let_def not_le)
    qed
  next
    case False
    then show ?thesis using assms WaitTimer
      by (intro exI [of _ 0]) (auto simp: waitStep_def retransmit_def not_le split: if_splits)
  qed
qed (use assms in \<open>auto simp: waitStep_def intro: exI [of _ 0]\<close>)

section \<open>Lemmas: the loop\<close>

lemma unat_inc:
  fixes x y :: "'a::len word"
  assumes "x < y"
  shows "unat (x + 1) = Suc (unat x)"
proof -
  have "unat x < unat y" "unat y < 2 ^ LENGTH('a)"
    using assms unsigned_less [where 'a = nat and w = y] by (simp_all add: word_less_nat_alt)
  then have "Suc (unat x) < 2 ^ LENGTH('a)" by linarith
  then show ?thesis by (simp add: unat_word_ariths)
qed

text \<open>What a request costs: \<open>k\<close> complete retransmissions and possibly a part of one more.\<close>

lemma waitLoop_bounds:
  assumes "waitLoop exchange msgID evs w h = (h', w', r)" "OutboundRequest (HState h) = Some ck"
    and "retries w \<le> MaxRetries (CfgTimeouts (HCfg h))"
  shows "\<exists>k n. HTx h' = HTx h @ concat (replicate k (CkPackets ck)) @ take n (CkPackets ck)
    \<and> unat (retries w) + k + (if take n (CkPackets ck) = [] then 0 else 1) \<le> unat (MaxRetries (CfgTimeouts (HCfg h)))"
  using assms
proof (induction evs arbitrary: w h)
  case Nil
  then show ?case by (intro exI [of _ 0]) (simp add: word_le_nat_alt)
next
  case (Cons ev evs)
  let ?max = "MaxRetries (CfgTimeouts (HCfg h))"
  obtain h1 w1 r1 where s: "waitStep exchange msgID ev w h = (h1, w1, r1)" by (metis prod_cases3)
  show ?case
  proof (cases r1)
    case (Some a)
    then have "h' = h1" using Cons.prems(1) s by simp
    moreover obtain n where "HTx h1 = HTx h @ take n (CkPackets ck)" "take n (CkPackets ck) \<noteq> [] \<longrightarrow> retries w < ?max"
      using waitStep_sends [OF s [unfolded Some] Cons.prems(2)] by blast
    ultimately show ?thesis using Cons.prems(3)
      by (intro exI [of _ 0] exI [of _ n]) (auto simp: word_le_nat_alt word_less_nat_alt)
  next
    case None
    then have rest: "waitLoop exchange msgID evs w1 h1 = (h', w', r)" using Cons.prems(1) s by simp
    from s [unfolded None] show ?thesis
    proof (cases rule: waitStep_None)
      case dropped
      then show ?thesis using Cons.IH [OF rest] Cons.prems(2,3) by simp
    next
      case (resent stop ck')
      then have ck': "ck' = ck" "OutboundRequest (HState h1) = Some ck" "HCfg h1 = HCfg h"
        "HTx h1 = HTx h @ CkPackets ck" using Cons.prems(2) by simp_all
      have u: "unat (retries w1) = Suc (unat (retries w))"
        using resent(3,4) unat_inc by simp
      then have "retries w1 \<le> ?max" using resent(3) by (simp add: word_le_nat_alt word_less_nat_alt)
      then obtain k n where "HTx h' = HTx h1 @ concat (replicate k (CkPackets ck)) @ take n (CkPackets ck)"
        "unat (retries w1) + k + (if take n (CkPackets ck) = [] then 0 else 1) \<le> unat ?max"
        using Cons.IH [OF rest ck'(2)] ck'(3) by auto
      then show ?thesis using u ck'(4) by (intro exI [of _ "Suc k"] exI [of _ n]) auto
    qed
  qed
qed

text \<open>The loop gives up: each timer that fires uses up a retry.\<close>

definition timers :: "waitEvent list \<Rightarrow> nat" where
  "timers evs = length (filter (\<lambda>ev. case ev of WaitTimer _ \<Rightarrow> True | _ \<Rightarrow> False) evs)"

lemma waitLoop_gives_up:
  assumes "waitLoop exchange msgID evs w h = (h', w', None)" "retries w \<le> MaxRetries (CfgTimeouts (HCfg h))"
  shows "unat (retries w) + timers evs \<le> unat (MaxRetries (CfgTimeouts (HCfg h)))"
  using assms
proof (induction evs arbitrary: w h)
  case Nil
  then show ?case by (simp add: timers_def word_le_nat_alt)
next
  case (Cons ev evs)
  obtain h1 w1 r1 where s: "waitStep exchange msgID ev w h = (h1, w1, r1)" by (metis prod_cases3)
  then have None: "r1 = None" and rest: "waitLoop exchange msgID evs w1 h1 = (h', w', None)"
    using Cons.prems(1) by (auto split: option.splits)
  from s [unfolded None] show ?case
  proof (cases rule: waitStep_None)
    case dropped
    then show ?thesis using Cons.IH [OF rest] Cons.prems(2) by (simp add: timers_def)
  next
    case (resent stop ck)
    have u: "unat (retries w1) = Suc (unat (retries w))"
      using resent(3,4) unat_inc by simp
    then have "retries w1 \<le> MaxRetries (CfgTimeouts (HCfg h1))"
      using resent(3,5) by (simp add: word_le_nat_alt word_less_nat_alt)
    then show ?thesis using Cons.IH [OF rest] u resent(1,5) by (simp add: timers_def)
  qed
qed

text \<open>The delay doubles up to its cap.\<close>

lemma waitStep_rto:
  assumes "waitStep exchange msgID ev w h = (h', w', r)"
  shows "HCfg h' = HCfg h \<and> (rto w' = rto w \<or> rto w' = min (rto w * 2) (MaxRTO (CfgTimeouts (HCfg h))))"
  using assms
  by (cases ev; cases "handleInboundResponse (case ev of WaitPacket p \<Rightarrow> p) msgID h")
     (auto simp: waitStep_def retransmit_def sendFrames_def Let_def min_def
       dest!: handleInboundResponse_same split: sum.splits prod.splits option.splits Disposition.splits if_splits)

lemma waitLoop_rto:
  assumes "waitLoop exchange msgID evs w h = (h', w', r)" "0 < rto w" "0 < MaxRTO (CfgTimeouts (HCfg h))"
  shows "0 < rto w' \<and> rto w' \<le> max (rto w) (MaxRTO (CfgTimeouts (HCfg h)))"
  using assms
proof (induction evs arbitrary: w h)
  case (Cons ev evs)
  obtain h1 w1 r1 where s: "waitStep exchange msgID ev w h = (h1, w1, r1)" by (metis prod_cases3)
  have b: "HCfg h1 = HCfg h" "0 < rto w1" "rto w1 \<le> max (rto w) (MaxRTO (CfgTimeouts (HCfg h)))"
    using waitStep_rto [OF s] Cons.prems(2,3) by auto
  show ?case
  proof (cases r1)
    case None
    then have "waitLoop exchange msgID evs w1 h1 = (h', w', r)" using Cons.prems(1) s by simp
    from Cons.IH [OF this] b Cons.prems(3) show ?thesis by auto
  next
    case Some
    then show ?thesis using Cons.prems(1) s b by simp
  qed
qed simp

lemma waitLoop_answer:
  assumes "waitLoop exchange msgID evs w h = (h', w', Some (Inr msg))"
  shows "\<exists>p s s'. WaitPacket (Some p) \<in> set evs \<and> PKind p = KindIKE \<and> ParseMessage (PPayload p) = Inr msg
    \<and> SInitiatorSPI s = SInitiatorSPI (HState h) \<and> SResponderSPI s = SResponderSPI (HState h)
    \<and> validateResponseHeader (MHeader msg) exchange msgID s = (s', Inr ())
    \<and> HState h' = acceptResponse exchange msgID s'"
  using assms
proof (induction evs arbitrary: w h)
  case (Cons ev evs)
  obtain h1 w1 r1 where s: "waitStep exchange msgID ev w h = (h1, w1, r1)" by (metis prod_cases3)
  show ?case
  proof (cases r1)
    case None
    then have rest: "waitLoop exchange msgID evs w1 h1 = (h', w', Some (Inr msg))" using Cons.prems s by simp
    have "SInitiatorSPI (HState h1) = SInitiatorSPI (HState h)" "SResponderSPI (HState h1) = SResponderSPI (HState h)"
      using s [unfolded None] by (cases rule: waitStep_None; simp)+
    then show ?thesis using Cons.IH [OF rest] by fastforce
  next
    case (Some a)
    then have "waitStep exchange msgID ev w h = (h', w', Some (Inr msg))" using Cons.prems s by simp
    then show ?thesis by (rule waitStep_answer) (metis list.set_intros(1))
  qed
qed simp

section \<open>Properties\<close>


definition sample_config :: Config where
  "sample_config = \<lparr> PeerIP = [10, 0, 0, 1], LocalIP = [10, 0, 0, 2], CfgIKE = [sample_proposal],
     CfgESP = [sample_proposal], IDI = \<lparr> IDType = 2, IDData = [97] \<rparr>, RightID = \<lparr> IDType = 0, IDData = [] \<rparr>,
     AAAIdentity = [], CfgEAP = \<lparr> EapMethod = ''mschapv2'', EapIdentity = [97], EapPassword = [98], ServerName = [], FragmentSize = 1024,
       MaxMessageCount = 32, IncludeLength = True, EapStrongswanCompatible = False, InsecureSkipVerify = False \<rparr>, InsecureSkipPeerCertVerify = False, StrongswanCompatible = False,
     CfgRekey = \<lparr> RcIKE = \<lparr> LtTime = 1, LtBytes = 0, LtPackets = 0 \<rparr>,
        RcChild = \<lparr> LtTime = 1, LtBytes = 0, LtPackets = 0 \<rparr>, ChildPFS = False, RandTime = 0, RetryInterval = 1, NearWrapThreshold = 9 / 10 \<rparr>,
     CfgTimeouts = DefaultTimeouts, CfgFragmentLimit = 1024 \<rparr>"

definition sample_handshake :: Handshake where
  "sample_handshake = \<lparr> HCfg = sample_config,
     HState = sample_initiator\<lparr> ExpectedResponseMessageID := 1, HasExpectedResponse := True \<rparr>,
     HTx = [], HReleased = [], HEvents = [] \<rparr>"

definition sample_response :: Header where
  "sample_response = \<lparr> InitiatorSPI = be64 5, ResponderSPI = be64 6, NextPayload = PayloadTypeNone,
     Version = IKEDefaultVersion, ExchangeTyp = ExchangeIkeAuth, HFlags = FlagResponse, MessageID = 1, Length = 28 \<rparr>"

lemma sample_response_parse:
  "ParseMessage (header_octets sample_response)
     = Inr \<lparr> MHeader = sample_response, Payloads = [], Encrypted = None \<rparr>"
proof -
  have "ParseHeader (header_octets sample_response @ [] @ []) = Inr (sample_response, [])"
    by (rule ParseHeader_octets) (simp_all add: sample_response_def wf_header_def flagsMask_def)
  then show ?thesis by (simp add: ParseMessage_def ParsePayloads_def) (simp add: sample_response_def)
qed




text \<open>C22: the receive loop does not wait for ever: whatever packets arrive, once the
  retransmission timer has fired more often than \<^verbatim>\<open>MaxRetries\<close> it has returned.\<close>

theorem waitResponse_gives_up:
  assumes "timers evs > unat (MaxRetries (CfgTimeouts (HCfg h)))"
  shows "\<exists>h' r. waitResponse exchange msgID evs h = (h', Some r)"
proof -
  obtain h' w' r where l: "waitLoop exchange msgID evs \<lparr> rto = InitialRTO (CfgTimeouts (HCfg h)), retries = 0 \<rparr> h
      = (h', w', r)" by (metis prod_cases3)
  have "r \<noteq> None"
  proof
    assume "r = None"
    from waitLoop_gives_up [OF l [unfolded this]] assms show False by simp
  qed
  then show ?thesis using l by (auto simp: waitResponse_def)
qed

theorem waitResponse_gives_up_witness:
  "\<exists>h' r. waitResponse ExchangeIkeAuth 1 (replicate 6 (WaitTimer None)) sample_handshake = (h', Some r)"
  by (rule waitResponse_gives_up)
     (simp add: timers_def sample_handshake_def sample_config_def DefaultTimeouts_def filter_replicate)

end
