(* ===== verification/Identity.thy ===== *)
theory Identity
  imports Payload_Codecs "HOL-Library.While_Combinator" "HOL-Library.Char_ord"
begin

text \<open>
  Identities: the classification of an identity string (\<^verbatim>\<open>ClassifyID\<close> of
  \<^verbatim>\<open>src/wire/payload/id.go\<close>), the \<^verbatim>\<open>rightid\<close> check (\<^verbatim>\<open>src/control/identity.go\<close>) and the
  nonce comparison of simultaneous rekeys (\<^verbatim>\<open>src/control/collision.go\<close>).

  A Go string is a list of octets, the Isabelle type \<open>string\<close>. Of the standard
  library the code uses \<^verbatim>\<open>strings.TrimSpace\<close>, \<^verbatim>\<open>strings.CutPrefix\<close> and \<^verbatim>\<open>net.ParseIP\<close>; they
  are written out here. The matcher is the loop of the source as a
  \<open>while_option\<close>; it is shown to end and to decide the glob relation for values
  without a star.
\<close>

section \<open>String functions of the standard library\<close>

text \<open>\<^verbatim>\<open>strings.TrimSpace\<close>: the UTF-8 encodings of the characters with \<^verbatim>\<open>unicode.IsSpace\<close>.\<close>

definition space_encodings :: "nat list list" where
  "space_encodings = [[9], [10], [11], [12], [13], [32], [0xc2, 0x85], [0xc2, 0xa0], [0xe1, 0x9a, 0x80],
     [0xe2, 0x80, 0xa8], [0xe2, 0x80, 0xa9], [0xe2, 0x80, 0xaf], [0xe2, 0x81, 0x9f], [0xe3, 0x80, 0x80]]
   @ map (\<lambda>k. [0xe2, 0x80, 0x80 + k]) [0..<11]"

definition spaces :: "string list" where
  "spaces = map (map char_of) space_encodings"

definition is_prefix :: "string \<Rightarrow> string \<Rightarrow> bool" where
  "is_prefix p s \<longleftrightarrow> take (length p) s = p"

function trim_left :: "string list \<Rightarrow> string \<Rightarrow> string" where
  "trim_left encs s =
    (case find (\<lambda>e. e \<noteq> [] \<and> is_prefix e s) encs of
       None \<Rightarrow> s
     | Some e \<Rightarrow> trim_left encs (drop (length e) s))"
  by pat_completeness auto
termination
proof (relation "measure (\<lambda>(_, s). length s)")
  fix encs :: "string list" and s e
  assume "find (\<lambda>e. e \<noteq> [] \<and> is_prefix e s) encs = Some e"
  then have "e \<noteq> []" "take (length e) s = e" by (auto simp: find_Some_iff is_prefix_def)
  then have "0 < length e" "s \<noteq> []" by auto
  then show "((encs, drop (length e) s), encs, s) \<in> measure (\<lambda>(_, s). length s)" by simp
qed simp

declare trim_left.simps [simp del]

definition TrimSpace :: "string \<Rightarrow> string" where
  "TrimSpace s = rev (trim_left (map rev spaces) (rev (trim_left spaces s)))"

definition CutPrefix :: "string \<Rightarrow> string \<Rightarrow> string option" where
  "CutPrefix v p = (if is_prefix p v then Some (drop (length p) v) else None)"

section \<open>Addresses\<close>

definition is_digit :: "char \<Rightarrow> bool" where
  "is_digit c \<longleftrightarrow> 48 \<le> (of_char c :: nat) \<and> (of_char c :: nat) \<le> 57"

definition hex_value :: "char \<Rightarrow> nat option" where
  "hex_value c = (let n = (of_char c :: nat) in
     if 48 \<le> n \<and> n \<le> 57 then Some (n - 48)
     else if 97 \<le> n \<and> n \<le> 102 then Some (n - 87)
     else if 65 \<le> n \<and> n \<le> 70 then Some (n - 55)
     else None)"

text \<open>\<^verbatim>\<open>netip.parseIPv4Fields\<close>: the octets read so far, the value and digit count of the
  current field, whether the previous character was a dot.\<close>

fun parseIPv4Fields :: "bytes \<Rightarrow> nat \<Rightarrow> nat \<Rightarrow> string \<Rightarrow> bytes option" where
  "parseIPv4Fields octs val digLen [] =
    (if length octs \<noteq> 3 \<or> digLen = 0 then None else Some (octs @ [word_of_nat val]))"
| "parseIPv4Fields octs val digLen (c # s) =
    (if is_digit c then
       if digLen = 1 \<and> val = 0 then None
       else let val = val * 10 + (of_char c - 48) in
         if val > 255 then None else parseIPv4Fields octs val (digLen + 1) s
     else if c = CHR ''.'' then
       if digLen = 0 \<or> length octs = 3 then None
       else parseIPv4Fields (octs @ [word_of_nat val]) 0 0 s
     else None)"

text \<open>The leading hexadecimal digits: their number, their value, the rest.\<close>

fun hexGroup :: "nat \<Rightarrow> nat \<Rightarrow> string \<Rightarrow> nat \<times> nat \<times> string" where
  "hexGroup off acc [] = (off, acc, [])"
| "hexGroup off acc (c # s) =
    (case hex_value c of None \<Rightarrow> (off, acc, c # s) | Some d \<Rightarrow> hexGroup (off + 1) (acc * 16 + d) s)"

lemma hexGroup_length: "hexGroup off acc s = (off', acc', r) \<Longrightarrow> length r + off' = length s + off"
  by (induction s arbitrary: off acc) (auto split: option.splits)

text \<open>The loop of \<^verbatim>\<open>netip.parseIPv6\<close>: the octets so far, the position of the ellipsis.\<close>

function parseIPv6Loop :: "bytes \<Rightarrow> nat option \<Rightarrow> string \<Rightarrow> (bytes \<times> nat option) option" where
  "parseIPv6Loop ip ellipsis s =
    (if length ip \<ge> 16 then (if s = [] then Some (ip, ellipsis) else None)
     else case hexGroup 0 0 s of
       (off, acc, rest) \<Rightarrow>
         if off = 0 \<or> off > 4 then None
         else if rest \<noteq> [] \<and> hd rest = CHR ''.'' then
           if ellipsis = None \<and> length ip \<noteq> 12 then None
           else if length ip + 4 > 16 then None
           else map_option (\<lambda>v4. (ip @ v4, ellipsis)) (parseIPv4Fields [] 0 0 s)
         else
           let ip = ip @ [word_of_nat (acc div 256), word_of_nat acc] in
           if rest = [] then Some (ip, ellipsis)
           else if hd rest \<noteq> CHR '':'' \<or> length rest = 1 then None
           else let s = tl rest in
             if hd s = CHR '':'' then
               if ellipsis \<noteq> None then None
               else if tl s = [] then Some (ip, Some (length ip))
               else parseIPv6Loop ip (Some (length ip)) (tl s)
             else parseIPv6Loop ip ellipsis s)"
  by pat_completeness auto
termination
  by (relation "measure (\<lambda>(_, _, s). length s)") (auto dest!: hexGroup_length [OF sym])

declare parseIPv6Loop.simps [simp del]

definition parseIPv6 :: "string \<Rightarrow> bytes option" where
  "parseIPv6 s =
    (let (ellipsis, s) = (if take 2 s = ''::'' then (Some 0, drop 2 s) else (None, s)) in
     if ellipsis \<noteq> None \<and> s = [] then Some (replicate 16 0)
     else case parseIPv6Loop [] ellipsis s of
       None \<Rightarrow> None
     | Some (ip, ellipsis) \<Rightarrow>
         if length ip < 16 then
           (case ellipsis of
              None \<Rightarrow> None
            | Some e \<Rightarrow> Some (take e ip @ replicate (16 - length ip) 0 @ drop e ip))
         else if ellipsis \<noteq> None then None
         else Some ip)"

text \<open>\<^verbatim>\<open>net.ParseIP\<close>: sixteen octets; an address with a zone is refused.\<close>

definition ParseIP :: "string \<Rightarrow> bytes option" where
  "ParseIP s =
    (case find (\<lambda>c. c = CHR ''.'' \<or> c = CHR '':'' \<or> c = CHR ''%'') s of
       None \<Rightarrow> None
     | Some c \<Rightarrow>
         if c = CHR ''.''
         then map_option (\<lambda>v4. replicate 10 0 @ [0xff, 0xff] @ v4) (parseIPv4Fields [] 0 0 s)
         else if c = CHR '':'' \<and> CHR ''%'' \<notin> set s then parseIPv6 s
         else None)"

section \<open>Classification\<close>

definition ident :: "8 word \<Rightarrow> string \<Rightarrow> ID res" where
  "ident typ v = (if v = [] then Inl (Errorf ''identity value must not be empty'')
     else Inr \<lparr> IDType = typ, IDData = map of_char v \<rparr>)"

definition keyID :: "string \<Rightarrow> ID res" where
  "keyID v = ident IDKeyID v"

fun trimPrefix :: "string \<Rightarrow> string list \<Rightarrow> string option" where
  "trimPrefix v [] = None"
| "trimPrefix v (p # ps) =
    (if p = [] then trimPrefix v ps
     else case CutPrefix v p of Some tail \<Rightarrow> Some (TrimSpace tail) | None \<Rightarrow> trimPrefix v ps)"

definition ClassifyID :: "string \<Rightarrow> ID res" where
  "ClassifyID s =
    (let value = TrimSpace s in
     if value = [] then Inl (Errorf ''identity must not be empty'')
     else case trimPrefix value [''keyid:''] of Some rest \<Rightarrow> keyID rest | None \<Rightarrow>
     (case trimPrefix value [''@#''] of Some rest \<Rightarrow> keyID rest | None \<Rightarrow>
     (case trimPrefix value [''#''] of Some rest \<Rightarrow> keyID rest | None \<Rightarrow>
     (case trimPrefix value [''fqdn:'', ''dns:'', ''%''] of Some rest \<Rightarrow> ident IDFqdn rest | None \<Rightarrow>
     (case trimPrefix value [''rfc822:'', ''email:'', ''userfqdn:'', ''@@''] of
        Some rest \<Rightarrow> ident IDRfc822Addr rest | None \<Rightarrow>
     (case (if is_prefix ''@@'' value then None else trimPrefix value [''@'']) of
        Some rest \<Rightarrow> ident IDFqdn rest | None \<Rightarrow>
     (case trimPrefix value [''ipv4:''] of
        Some rest \<Rightarrow> if Option.bind (ParseIP rest) To4 = None then Inl (Errorf ''identity is not a valid ipv4 address'')
                     else ident IDIPv4Addr rest
      | None \<Rightarrow>
     (case trimPrefix value [''ipv6:''] of
        Some rest \<Rightarrow> if ParseIP rest = None \<or> Option.bind (ParseIP rest) To4 \<noteq> None
                     then Inl (Errorf ''identity is not a valid ipv6 address'')
                     else ident IDIPv6Addr rest
      | None \<Rightarrow>
     if CHR ''@'' \<in> set value then ident IDRfc822Addr value
     else case ParseIP value of
        Some ip \<Rightarrow> if To4 ip \<noteq> None then ident IDIPv4Addr value else ident IDIPv6Addr value
      | None \<Rightarrow> ident IDFqdn value))))))))"

section \<open>The rightid check\<close>

definition asciiLower :: "byte \<Rightarrow> byte" where
  "asciiLower b = (if b \<ge> 65 \<and> b \<le> 90 then b + (97 - 65) else b)"

abbreviation (input) "star \<equiv> (42::byte)"
abbreviation (input) "quest \<equiv> (63::byte)"

text \<open>The variables of the loop; \<open>failed\<close> is the return from its default case.\<close>

record globState =
  pi_ix :: nat
  vi_ix :: nat
  starPi :: "nat option"
  starVi :: nat
  failed :: bool

definition globStep :: "bytes \<Rightarrow> bytes \<Rightarrow> globState \<Rightarrow> globState" where
  "globStep pattern v s =
    (if pi_ix s < length pattern \<and> (pattern ! pi_ix s = quest \<or> pattern ! pi_ix s = v ! vi_ix s)
     then s\<lparr> pi_ix := pi_ix s + 1, vi_ix := vi_ix s + 1 \<rparr>
     else if pi_ix s < length pattern \<and> pattern ! pi_ix s = star
     then s\<lparr> starPi := Some (pi_ix s), pi_ix := pi_ix s + 1, starVi := vi_ix s \<rparr>
     else case starPi s of
       Some sp \<Rightarrow> s\<lparr> pi_ix := sp + 1, starVi := starVi s + 1, vi_ix := starVi s + 1 \<rparr>
     | None \<Rightarrow> s\<lparr> failed := True \<rparr>)"

definition globLoop :: "bytes \<Rightarrow> bytes \<Rightarrow> globState option" where
  "globLoop pattern v =
     while_option (\<lambda>s. vi_ix s < length v \<and> \<not> failed s) (globStep pattern v)
       \<lparr> pi_ix = 0, vi_ix = 0, starPi = None, starVi = 0, failed = False \<rparr>"

text \<open>The result of a loop that does not end is None; the lemmas show there is none.\<close>

definition wildcardMatch :: "bytes \<Rightarrow> bytes \<Rightarrow> bool \<Rightarrow> bool option" where
  "wildcardMatch pattern v fold_case =
    (let (pattern, v) = (if fold_case then (map asciiLower pattern, map asciiLower v) else (pattern, v)) in
     map_option (\<lambda>s. \<not> failed s \<and> dropWhile (\<lambda>c. c = star) (drop (pi_ix s) pattern) = []) (globLoop pattern v))"

definition RightIDMatches :: "ID \<Rightarrow> ID \<Rightarrow> bool" where
  "RightIDMatches expected received =
    (if IDType expected = 0 then True
     else if IDType expected \<noteq> IDType received then False
     else if IDType expected = IDFqdn \<or> IDType expected = IDRfc822Addr
     then wildcardMatch (IDData expected) (IDData received) True = Some True
     else IDData expected = IDData received)"

section \<open>Nonce collisions\<close>

datatype CollisionDecision = CollisionNoCollision | CollisionWeWin | CollisionWeLose

fun bytes_less :: "bytes \<Rightarrow> bytes \<Rightarrow> bool" where
  "bytes_less [] b = (b \<noteq> [])"
| "bytes_less (x # a) [] = False"
| "bytes_less (x # a) (y # b) = (x < y \<or> x = y \<and> bytes_less a b)"

definition decideNonceCollision :: "bytes \<Rightarrow> bytes \<Rightarrow> CollisionDecision" where
  "decideNonceCollision ours theirs =
    (if length ours = 0 \<or> length theirs = 0 then CollisionNoCollision
     else let n = min (length ours) (length theirs) in
       if bytes_less (take n ours) (take n theirs) then CollisionWeLose else CollisionWeWin)"

section \<open>Lemmas: the matcher\<close>

text \<open>What a pattern means.\<close>

fun glob :: "bytes \<Rightarrow> bytes \<Rightarrow> bool" where
  "glob [] v \<longleftrightarrow> v = []"
| "glob (c # p) [] \<longleftrightarrow> c = star \<and> glob p []"
| "glob (c # p) (x # v) \<longleftrightarrow>
    (if c = star then glob p (x # v) \<or> glob (c # p) v else (c = quest \<or> c = x) \<and> glob p v)"

lemma glob_star: "glob (star # p) v \<longleftrightarrow> (\<exists>k \<le> length v. glob p (drop k v))"
proof (induction v)
  case (Cons x v)
  have "(\<exists>k \<le> length (x # v). glob p (drop k (x # v))) \<longleftrightarrow> glob p (x # v) \<or> (\<exists>k \<le> length v. glob p (drop k v))"
    by (metis drop0 drop_Suc_Cons le0 length_Cons not0_implies_Suc Suc_le_mono)
  then show ?case using Cons by simp
qed simp

lemma glob_literals:
  "star \<notin> set seg \<Longrightarrow> glob (seg @ p) v \<Longrightarrow> length seg \<le> length v \<and> glob p (drop (length seg) v)"
proof (induction seg arbitrary: v)
  case (Cons c seg)
  then obtain x v' where v: "v = x # v'" by (cases v) auto
  then have "glob (seg @ p) v'" using Cons.prems by auto
  then show ?case using Cons v by simp
qed simp

lemma glob_Nil: "glob p [] \<longleftrightarrow> dropWhile (\<lambda>c. c = star) p = []"
  by (induction p) auto

text \<open>The bounds the loop keeps, and what is left to decide.\<close>

definition glob_bounds :: "bytes \<Rightarrow> bytes \<Rightarrow> globState \<Rightarrow> bool" where
  "glob_bounds p v s \<longleftrightarrow> pi_ix s \<le> length p \<and> vi_ix s \<le> length v \<and> starVi s \<le> vi_ix s
     \<and> (\<forall>sp. starPi s = Some sp \<longrightarrow> sp < length p)"

definition glob_left :: "bytes \<Rightarrow> bytes \<Rightarrow> globState \<Rightarrow> bool" where
  "glob_left p v s \<longleftrightarrow> glob (drop (pi_ix s) p) (drop (vi_ix s) v)
     \<or> (\<exists>sp j. starPi s = Some sp \<and> starVi s < j \<and> j \<le> length v \<and> glob (drop (sp + 1) p) (drop j v))"

definition glob_segment :: "bytes \<Rightarrow> globState \<Rightarrow> bool" where
  "glob_segment p s \<longleftrightarrow> (\<forall>sp. starPi s = Some sp \<longrightarrow> sp < pi_ix s \<and> vi_ix s = starVi s + (pi_ix s - sp - 1)
     \<and> star \<notin> set (subslice p (sp + 1) (pi_ix s)))"

definition glob_inv :: "bytes \<Rightarrow> bytes \<Rightarrow> globState \<Rightarrow> bool" where
  "glob_inv p v s \<longleftrightarrow> (if failed s then \<not> glob p v
     else glob_bounds p v s \<and> glob_segment p s \<and> glob_left p v s = glob p v)"

definition glob_measure :: "bytes \<Rightarrow> bytes \<Rightarrow> globState \<Rightarrow> nat" where
  "glob_measure p v s = (if failed s then 0
     else 1 + (length v - starVi s) * (length p + length v + 1) + (length p - pi_ix s) + (length v - vi_ix s))"

lemma globStep_cases:
  obtains (hit) "pi_ix s < length p" "p ! pi_ix s = quest \<or> p ! pi_ix s = v ! vi_ix s"
      "globStep p v s = s\<lparr> pi_ix := pi_ix s + 1, vi_ix := vi_ix s + 1 \<rparr>"
  | (opens) "pi_ix s < length p" "p ! pi_ix s = star"
      "globStep p v s = s\<lparr> starPi := Some (pi_ix s), pi_ix := pi_ix s + 1, starVi := vi_ix s \<rparr>"
  | (retry) sp where "starPi s = Some sp"
      "pi_ix s < length p \<longrightarrow> p ! pi_ix s \<notin> {quest, v ! vi_ix s, star}"
      "globStep p v s = s\<lparr> pi_ix := sp + 1, starVi := starVi s + 1, vi_ix := starVi s + 1 \<rparr>"
  | (none) "starPi s = None" "pi_ix s < length p \<longrightarrow> p ! pi_ix s \<notin> {quest, v ! vi_ix s, star}"
      "globStep p v s = s\<lparr> failed := True \<rparr>"
proof (cases "pi_ix s < length p \<and> (p ! pi_ix s = quest \<or> p ! pi_ix s = v ! vi_ix s)")
  case True
  then show thesis by (intro that(1)) (simp_all add: globStep_def)
next
  case miss: False
  show thesis
  proof (cases "pi_ix s < length p \<and> p ! pi_ix s = star")
    case True
    then show thesis using miss by (intro that(2)) (simp_all add: globStep_def)
  next
    case False
    show thesis
    proof (cases "starPi s")
      case None
      then show thesis using miss False by (intro that(4)) (auto simp: globStep_def)
    next
      case (Some sp)
      then show thesis using miss False by (intro that(3) [of sp]) (auto simp: globStep_def)
    qed
  qed
qed

lemma globStep_bounds:
  assumes "glob_bounds p v s" "vi_ix s < length v" "\<not> failed s"
  shows "glob_bounds p v (globStep p v s) \<and> glob_measure p v (globStep p v s) < glob_measure p v s"
proof -
  have b: "pi_ix s \<le> length p" "vi_ix s \<le> length v" "starVi s \<le> vi_ix s"
    "\<And>sp. starPi s = Some sp \<Longrightarrow> sp < length p"
    using assms(1) by (auto simp: glob_bounds_def)
  show ?thesis
  proof (cases rule: globStep_cases [of s p v])
    case opens
    have "(length v - vi_ix s) * (length p + length v + 1) \<le> (length v - starVi s) * (length p + length v + 1)"
      using b(3) by (intro mult_le_mono1) simp
    then show ?thesis using opens b assms(3) by (auto simp: glob_bounds_def glob_measure_def)
  next
    case retry
    have "length v - starVi s = Suc (length v - (starVi s + 1))" using assms(2) b(3) by simp
    then have "(length v - starVi s) * (length p + length v + 1)
        = (length v - (starVi s + 1)) * (length p + length v + 1) + (length p + length v + 1)"
      by (metis add.commute mult_Suc)
    then show ?thesis using retry b assms(2,3) by (auto simp: glob_bounds_def glob_measure_def)
  qed (use b assms(2,3) in \<open>auto simp: glob_bounds_def glob_measure_def\<close>)
qed

lemma globLoop_Some: "\<exists>s. globLoop p v = Some s"
  unfolding globLoop_def
  by (rule measure_while_option_Some [where P = "\<lambda>s. glob_bounds p v s" and f = "glob_measure p v"])
     (auto simp: globStep_bounds, simp add: glob_bounds_def)

lemma drop_split_segment:
  assumes "sp < k" "k \<le> length p"
  shows "drop (sp + 1) p = subslice p (sp + 1) k @ drop k p" "length (subslice p (sp + 1) k) = k - sp - 1"
proof -
  have "take (sp + 1) p @ subslice p (sp + 1) k @ drop k p = p" by (rule take_subslice_drop) (use assms in auto)
  then show "drop (sp + 1) p = subslice p (sp + 1) k @ drop k p"
    using assms by (metis append_eq_conv_conj append_take_drop_id same_append_eq)
qed (use assms in auto)

lemma subslice_snoc: "i \<le> k \<Longrightarrow> k < length p \<Longrightarrow> subslice p i (k + 1) = subslice p i k @ [p ! k]"
  by (simp add: subslice_def take_Suc_conv_app_nth Suc_diff_le)

lemma ex_shift: "a \<le> (b::nat) \<Longrightarrow> (\<exists>k \<le> b - a. P (a + k)) \<longleftrightarrow> (\<exists>j. a \<le> j \<and> j \<le> b \<and> P j)"
proof
  assume "a \<le> b" "\<exists>k \<le> b - a. P (a + k)"
  then obtain k where "k \<le> b - a" "P (a + k)" by blast
  then show "\<exists>j. a \<le> j \<and> j \<le> b \<and> P j" using \<open>a \<le> b\<close> by (intro exI [of _ "a + k"]) auto
next
  assume "\<exists>j. a \<le> j \<and> j \<le> b \<and> P j"
  then obtain j where "a \<le> j" "j \<le> b" "P j" by blast
  then show "\<exists>k \<le> b - a. P (a + k)" by (intro exI [of _ "j - a"]) auto
qed

lemma ex_le_split: "a \<le> (b::nat) \<Longrightarrow> (\<exists>j. a \<le> j \<and> j \<le> b \<and> P j) \<longleftrightarrow> P a \<or> (\<exists>j. a < j \<and> j \<le> b \<and> P j)"
  by (auto simp: le_less)

lemma globStep_inv:
  assumes "glob_inv p v s" "vi_ix s < length v" "\<not> failed s" "star \<notin> set v"
  shows "glob_inv p v (globStep p v s)"
proof -
  have inv: "glob_bounds p v s" "glob_segment p s" "glob_left p v s = glob p v"
    using assms(1,3) by (simp_all add: glob_inv_def)
  have b: "pi_ix s \<le> length p" "starVi s \<le> vi_ix s" using inv(1) by (simp_all add: glob_bounds_def)
  note b' = globStep_bounds [OF inv(1) assms(2,3), THEN conjunct1]
  have v: "drop (vi_ix s) v = v ! vi_ix s # drop (vi_ix s + 1) v" "v ! vi_ix s \<noteq> star"
    using assms(2,4) by (auto simp: Cons_nth_drop_Suc in_set_conv_nth)
  have p: "pi_ix s < length p \<Longrightarrow> drop (pi_ix s) p = p ! pi_ix s # drop (pi_ix s + 1) p"
    by (simp add: Cons_nth_drop_Suc)
  have miss: "\<not> glob (drop (pi_ix s) p) (drop (vi_ix s) v)"
    if "pi_ix s < length p \<longrightarrow> p ! pi_ix s \<notin> {quest, v ! vi_ix s, star}"
    using that b(1) v p by (cases "pi_ix s = length p") auto
  show ?thesis
  proof (cases rule: globStep_cases [of s p v])
    case hit
    then have ns: "p ! pi_ix s \<noteq> star" using v(2) by auto
    have "glob_segment p (globStep p v s)"
      unfolding glob_segment_def
    proof (intro allI impI)
      fix sp assume "starPi (globStep p v s) = Some sp"
      then have "starPi s = Some sp" using hit(3) by simp
      then have "sp < pi_ix s" "vi_ix s = starVi s + (pi_ix s - sp - 1)" "star \<notin> set (subslice p (sp + 1) (pi_ix s))"
        using inv(2) by (auto simp: glob_segment_def)
      then show "sp < pi_ix (globStep p v s)
        \<and> vi_ix (globStep p v s) = starVi (globStep p v s) + (pi_ix (globStep p v s) - sp - 1)
        \<and> star \<notin> set (subslice p (sp + 1) (pi_ix (globStep p v s)))"
        using hit(1,3) ns subslice_snoc [of "sp + 1" "pi_ix s" p] by auto
    qed
    moreover have "glob_left p v (globStep p v s) = glob_left p v s"
      using hit ns p v(1) by (auto simp: glob_left_def)
    ultimately show ?thesis using b' inv(3) hit(3) assms(3) by (simp add: glob_inv_def)
  next
    case opens
    have now: "glob (drop (pi_ix s) p) (drop (vi_ix s) v)
        \<longleftrightarrow> glob (drop (pi_ix s + 1) p) (drop (vi_ix s) v)
            \<or> (\<exists>j. vi_ix s < j \<and> j \<le> length v \<and> glob (drop (pi_ix s + 1) p) (drop j v))"
    proof -
      have "glob (drop (pi_ix s) p) (drop (vi_ix s) v)
          \<longleftrightarrow> (\<exists>k \<le> length v - vi_ix s. glob (drop (pi_ix s + 1) p) (drop (vi_ix s + k) v))"
        unfolding p [OF opens(1)] opens(2) glob_star by (simp add: add.commute)
      also have "\<dots> \<longleftrightarrow> (\<exists>j. vi_ix s \<le> j \<and> j \<le> length v \<and> glob (drop (pi_ix s + 1) p) (drop j v))"
        using assms(2) by (intro ex_shift) simp
      finally show ?thesis using assms(2) by (simp add: ex_le_split)
    qed
    have old: "\<exists>j. vi_ix s < j \<and> j \<le> length v \<and> glob (drop (pi_ix s + 1) p) (drop j v)"
      if sp: "starPi s = Some sp" and j: "starVi s < j" "j \<le> length v" "glob (drop (sp + 1) p) (drop j v)" for sp j
    proof -
      let ?seg = "subslice p (sp + 1) (pi_ix s)"
      have seg: "sp < pi_ix s" "vi_ix s = starVi s + (pi_ix s - sp - 1)" "star \<notin> set ?seg"
        using inv(2) sp by (auto simp: glob_segment_def)
      have "glob (?seg @ drop (pi_ix s) p) (drop j v)" using j(3) drop_split_segment(1) [OF seg(1) b(1)] by simp
      from glob_literals [OF seg(3) this] drop_split_segment(2) [OF seg(1) b(1)]
      have "glob (star # drop (pi_ix s + 1) p) (drop (j + (pi_ix s - sp - 1)) v)" "j + (pi_ix s - sp - 1) \<le> length v"
        using p [OF opens(1)] opens(2) j(2) by (auto simp: add.commute)
      then obtain k where "k \<le> length v - (j + (pi_ix s - sp - 1))"
        "glob (drop (pi_ix s + 1) p) (drop (j + (pi_ix s - sp - 1) + k) v)"
        unfolding glob_star by (auto simp: add.commute add.left_commute)
      then show ?thesis using seg(2) j(1) \<open>j + (pi_ix s - sp - 1) \<le> length v\<close>
        by (intro exI [of _ "j + (pi_ix s - sp - 1) + k"]) auto
    qed
    have "glob_left p v (globStep p v s) = glob_left p v s"
      using now old opens(3) by (auto simp: glob_left_def)
    moreover have "glob_segment p (globStep p v s)" using opens(3) by (simp add: glob_segment_def subslice_def)
    ultimately show ?thesis using b' inv(3) opens(3) assms(3) by (simp add: glob_inv_def)
  next
    case (retry sp)
    have "(\<exists>j. starVi s < j \<and> j \<le> length v \<and> glob (drop (sp + 1) p) (drop j v))
        \<longleftrightarrow> glob (drop (sp + 1) p) (drop (starVi s + 1) v)
          \<or> (\<exists>j. starVi s + 1 < j \<and> j \<le> length v \<and> glob (drop (sp + 1) p) (drop j v))"
      using b(2) assms(2) ex_le_split [of "starVi s + 1" "length v" "\<lambda>j. glob (drop (sp + 1) p) (drop j v)"]
      by (simp add: Suc_le_eq)
    then have "glob_left p v (globStep p v s) = glob_left p v s"
      using retry(1,3) miss [OF retry(2)] by (auto simp: glob_left_def)
    moreover have "glob_segment p (globStep p v s)" using retry(1,3) by (auto simp: glob_segment_def subslice_def)
    ultimately show ?thesis using b' inv(3) retry(3) assms(3) by (simp add: glob_inv_def)
  next
    case none
    then show ?thesis using miss [OF none(2)] inv(3) by (simp add: glob_inv_def glob_left_def)
  qed
qed

lemma globLoop_glob:
  assumes "star \<notin> set v" "globLoop p v = Some s"
  shows "(\<not> failed s \<and> dropWhile (\<lambda>c. c = star) (drop (pi_ix s) p) = []) = glob p v"
proof -
  have step: "\<And>s. glob_inv p v s \<Longrightarrow> vi_ix s < length v \<and> \<not> failed s \<Longrightarrow> glob_inv p v (globStep p v s)"
    using globStep_inv assms(1) by blast
  have init: "glob_inv p v \<lparr> pi_ix = 0, vi_ix = 0, starPi = None, starVi = 0, failed = False \<rparr>"
    by (simp add: glob_inv_def glob_bounds_def glob_segment_def glob_left_def)
  have inv: "glob_inv p v s"
    by (rule while_option_rule [OF step assms(2) [unfolded globLoop_def] init])
  have stop: "\<not> (vi_ix s < length v \<and> \<not> failed s)"
    using assms(2) unfolding globLoop_def by (rule while_option_stop)
  show ?thesis
  proof (cases "failed s")
    case False
    then have i: "glob_bounds p v s" "glob_segment p s" "glob_left p v s = glob p v" "vi_ix s = length v"
      using inv stop by (auto simp: glob_inv_def glob_bounds_def)
    have "False" if sp: "starPi s = Some sp" and j: "starVi s < j" "j \<le> length v" "glob (drop (sp + 1) p) (drop j v)" for sp j
    proof -
      let ?seg = "subslice p (sp + 1) (pi_ix s)"
      have seg: "sp < pi_ix s" "vi_ix s = starVi s + (pi_ix s - sp - 1)" "star \<notin> set ?seg"
        using i(2) sp by (auto simp: glob_segment_def)
      have b: "pi_ix s \<le> length p" using i(1) by (simp add: glob_bounds_def)
      have "glob (?seg @ drop (pi_ix s) p) (drop j v)" using j(3) drop_split_segment(1) [OF seg(1) b] by simp
      from glob_literals [OF seg(3) this] have "pi_ix s - sp - 1 \<le> length v - j"
        unfolding drop_split_segment(2) [OF seg(1) b] by simp
      then show False using seg(1,2) i(4) j(1,2) by arith
    qed
    then show ?thesis using False i(3,4) glob_Nil [of "drop (pi_ix s) p"] by (auto simp: glob_left_def)
  qed (use inv in \<open>simp add: glob_inv_def\<close>)
qed

lemma asciiLower_star: "asciiLower b = star \<longleftrightarrow> b = star"
proof
  assume l: "asciiLower b = star"
  show "b = star"
  proof (rule ccontr)
    assume "b \<noteq> star"
    then have "65 \<le> b" "b \<le> 90" "b + 32 = 42" using l by (auto simp: asciiLower_def split: if_splits)
    then have "b = 42 - 32" by (metis add_diff_cancel_right')
    then have "b = 10" by simp
    then show False using \<open>65 \<le> b\<close> by simp
  qed
qed (simp add: asciiLower_def)

definition fold_octets :: "bool \<Rightarrow> bytes \<Rightarrow> bytes" where
  "fold_octets fold_case b = (if fold_case then map asciiLower b else b)"

lemma wildcardMatch_loop:
  "wildcardMatch p v f = map_option
     (\<lambda>s. \<not> failed s \<and> dropWhile (\<lambda>c. c = star) (drop (pi_ix s) (fold_octets f p)) = [])
     (globLoop (fold_octets f p) (fold_octets f v))"
  by (simp add: wildcardMatch_def fold_octets_def)

lemma wildcardMatch_returns: "\<exists>r. wildcardMatch p v f = Some r"
  using globLoop_Some by (auto simp: wildcardMatch_loop)

lemma wildcardMatch_glob:
  assumes "star \<notin> set v"
  shows "wildcardMatch p v f = Some (glob (fold_octets f p) (fold_octets f v))"
proof -
  obtain s where s: "globLoop (fold_octets f p) (fold_octets f v) = Some s" using globLoop_Some by blast
  have "star \<notin> set (fold_octets f v)" using assms asciiLower_star by (auto simp: fold_octets_def)
  then show ?thesis using s globLoop_glob [OF _ s] by (auto simp: wildcardMatch_loop)
qed

lemma bytes_less_Nil [simp]: "\<not> bytes_less b []"
  by (cases b) auto

lemma bytes_less_antisym: "bytes_less a b \<Longrightarrow> \<not> bytes_less b a"
  by (induction a b rule: bytes_less.induct) auto

lemma bytes_less_total: "a \<noteq> b \<Longrightarrow> bytes_less a b \<or> bytes_less b a"
proof (induction a b rule: bytes_less.induct)
  case (1 b)
  then show ?case by (cases b) auto
qed auto

lemma option_branch:
  assumes "(case x of Some r \<Rightarrow> f r | None \<Rightarrow> m) = Inr i"
  obtains r where "x = Some r" "f r = Inr i" | "x = None" "m = Inr i"
  using assms by (cases x) auto

lemma if_branch:
  assumes "(if c then a else b) = Inr i"
  obtains "c" "a = Inr i" | "\<not> c" "b = Inr i"
  using assms by (cases c) auto

text \<open>A string that neither starts nor ends with an octet of a space is left alone by \<^verbatim>\<open>TrimSpace\<close>.\<close>

lemma trim_left_id:
  assumes "s \<noteq> []" "hd s \<notin> hd ` set encs"
  shows "trim_left encs s = s"
proof -
  have "\<not> (e \<noteq> [] \<and> is_prefix e s)" if "e \<in> set encs" for e
    using assms that by (cases e; cases s) (force simp: is_prefix_def)+
  then have "find (\<lambda>e. e \<noteq> [] \<and> is_prefix e s) encs = None" by (auto simp: find_None_iff)
  then show ?thesis by (subst trim_left.simps) simp
qed

lemma TrimSpace_id:
  assumes "s \<noteq> [] \<and> hd s \<notin> hd ` set spaces \<and> last s \<notin> last ` set spaces"
  shows "TrimSpace s = s"
proof -
  have ne: "\<forall>e \<in> set spaces. e \<noteq> []" by (auto simp: spaces_def space_encodings_def)
  have "hd ` set (map rev spaces) = last ` set spaces"
    using ne by (auto simp: hd_rev image_iff)
  then have "trim_left (map rev spaces) (rev s) = rev s"
    using assms by (intro trim_left_id) (auto simp: hd_rev)
  then show ?thesis using assms by (simp add: TrimSpace_def trim_left_id)
qed

section \<open>Properties\<close>



text \<open>C34: A finding. The matcher compares literally before it looks at the star, so a value
  that has a star of its own uses up the star of the pattern: the pattern that matches
  everything refuses the value \<^verbatim>\<open>*a\<close>.\<close>

theorem wildcardMatch_star_value:
  "wildcardMatch [star] [star, 97] True = Some False \<and> glob [star] [star, 97]"
proof -
  have "globLoop [star] [star, 97] = Some \<lparr> pi_ix = 1, vi_ix = 1, starPi = None, starVi = 0, failed = True \<rparr>"
    unfolding globLoop_def
    by (subst while_option_unfold, simp add: globStep_def)+
  then show ?thesis by (simp add: wildcardMatch_def asciiLower_def)
qed

text \<open>C35: A finding. An identity classified as an address carries the text of the address, while
  an ID payload of type \<^verbatim>\<open>ID_IPV4_ADDR\<close> or \<^verbatim>\<open>ID_IPV6_ADDR\<close> carries its four or sixteen octets.\<close>

theorem ClassifyID_address_text:
  assumes "ClassifyID s = Inr i" "IDType i = IDIPv4Addr \<or> IDType i = IDIPv6Addr"
  shows "\<exists>t ip. IDData i = map of_char t \<and> ParseIP t = Some ip
    \<and> (To4 ip \<noteq> None \<longleftrightarrow> IDType i = IDIPv4Addr)"
proof -
  have "\<exists>typ v. ident typ v = Inr i \<and> (typ = IDIPv4Addr \<longrightarrow> Option.bind (ParseIP v) To4 \<noteq> None)
      \<and> (typ = IDIPv6Addr \<longrightarrow> ParseIP v \<noteq> None \<and> Option.bind (ParseIP v) To4 = None)"
    using assms(1) unfolding ClassifyID_def Let_def keyID_def
    by (elim option_branch if_branch)
       (((intro exI conjI, assumption)?, simp del: trimPrefix.simps)+)
  then obtain ty v where v: "ident ty v = Inr i" "ty = IDIPv4Addr \<longrightarrow> Option.bind (ParseIP v) To4 \<noteq> None"
    "ty = IDIPv6Addr \<longrightarrow> ParseIP v \<noteq> None \<and> Option.bind (ParseIP v) To4 = None" by blast
  then have i: "IDType i = ty" "IDData i = map of_char v" by (auto simp: ident_def split: if_splits)
  then show ?thesis using v(2,3) assms(2) by (cases "ParseIP v") auto
qed

theorem ClassifyID_address_text_witness:
  "\<exists>t ip. map of_char ''10.0.0.1'' = (map of_char t :: bytes) \<and> ParseIP t = Some ip"
proof -
  have "TrimSpace ''ipv4:10.0.0.1'' = ''ipv4:10.0.0.1''" "TrimSpace ''10.0.0.1'' = ''10.0.0.1''"
    by (rule TrimSpace_id, simp add: spaces_def space_encodings_def upt_rec char_of_def)+
  moreover have "Option.bind (ParseIP ''10.0.0.1'') To4 = Some [10, 0, 0, 1]" by code_simp
  ultimately have "ClassifyID ''ipv4:10.0.0.1'' = Inr \<lparr> IDType = IDIPv4Addr, IDData = map of_char ''10.0.0.1'' \<rparr>"
    by (simp add: ClassifyID_def CutPrefix_def is_prefix_def ident_def)
  from ClassifyID_address_text [OF this] show ?thesis unfolding ID.select_convs by blast
qed

text \<open>Both ends of a simultaneous rekey reach compatible decisions: they never both abandon
  their exchange, and when the nonces differ in their common length exactly one does.\<close>

theorem collision_decisions:
  fixes a b :: bytes
  defines "n \<equiv> min (length a) (length b)"
  shows "\<not> (decideNonceCollision a b = CollisionWeLose \<and> decideNonceCollision b a = CollisionWeLose)
    \<and> (take n a = take n b
       \<or> decideNonceCollision a b = CollisionWeLose \<and> decideNonceCollision b a = CollisionWeWin
       \<or> decideNonceCollision a b = CollisionWeWin \<and> decideNonceCollision b a = CollisionWeLose)"
  using bytes_less_antisym bytes_less_total [of "take n a" "take n b"]
  by (auto simp: decideNonceCollision_def Let_def n_def min.commute)

end
