(* ===== verification/Control_Child.thy ===== *)
theory Control_Child
  imports Control_Exchange Identity
begin

text \<open>
  The CHILD_SA negotiation of \<^verbatim>\<open>src/control/child_sa.go\<close> without the
  authentication around it: the payload chain builder, the ESP offers and their
  transforms, the decoding of the responder's choice, the traffic selector
  policy, the assigned configuration, and the comparison and copy functions of
  \<^verbatim>\<open>src/control/config_apply.go\<close>.

  The lemmas show that an offer list names every configured variant exactly
  once, that a decoded choice consists of transforms of the offer it names and
  that every choice from an offer is accepted, that accepted selectors admit no
  source address but the assigned one, and that an assigned configuration
  survives encoding and decoding.
\<close>

section \<open>Addresses\<close>

text \<open>\<^verbatim>\<open>net.IPv4\<close>, \<^verbatim>\<open>net.IP.Equal\<close> and \<^verbatim>\<open>net.IP.IsLinkLocalUnicast\<close> of the standard library.\<close>

definition IPv4 :: "byte \<Rightarrow> byte \<Rightarrow> byte \<Rightarrow> byte \<Rightarrow> bytes" where
  "IPv4 a b c d = v4InV6Prefix @ [a, b, c, d]"

definition IPEqual :: "bytes \<Rightarrow> bytes \<Rightarrow> bool" where
  "IPEqual ip x =
    (if length ip = length x then ip = x
     else if length ip = 4 \<and> length x = 16 then take 12 x = v4InV6Prefix \<and> ip = drop 12 x
     else if length ip = 16 \<and> length x = 4 then take 12 ip = v4InV6Prefix \<and> drop 12 ip = x
     else False)"

definition IsLinkLocalUnicast :: "bytes \<Rightarrow> bool" where
  "IsLinkLocalUnicast ip =
    (case To4 ip of
       Some ip4 \<Rightarrow> ip4 ! 0 = 169 \<and> ip4 ! 1 = 254
     | None \<Rightarrow> length ip = 16 \<and> ip ! 0 = 0xfe \<and> ip ! 1 AND 0xc0 = 0x80)"

section \<open>Payload chains\<close>

type_synonym cesPayloadPart = "PayloadType \<times> bytes"

definition partHeader :: "PayloadType \<Rightarrow> bytes \<Rightarrow> bytes" where
  "partHeader nx body = (let n = 4 + length body in [nx, 0, word_of_nat (n div 256), word_of_nat n])"

fun cesBuildChain :: "cesPayloadPart list \<Rightarrow> bytes" where
  "cesBuildChain [] = []"
| "cesBuildChain ((t, body) # ps) =
     partHeader (case ps of [] \<Rightarrow> PayloadTypeNone | (t', _) # _ \<Rightarrow> t') body @ body @ cesBuildChain ps"

definition cepChainPayload :: "PayloadType \<Rightarrow> bytes \<Rightarrow> nat \<Rightarrow> bytes" where
  "cepChainPayload nx body n = [nx, 0, word_of_nat (n div 256), word_of_nat n] @ body"

definition cepSinglePayload :: "bytes \<Rightarrow> bytes" where
  "cepSinglePayload body = cepChainPayload PayloadTypeNone body (4 + length body)"

section \<open>Offers\<close>

record cesOffer =
  OfEnc :: "EncryptionID list"
  OfIntegrity :: "16 word list"
  OfDH :: "16 word list"
  omitESN :: bool

definition cesOfferKey :: "XProposal \<Rightarrow> bool \<Rightarrow> string" where
  "cesOfferKey suite omit =
     (if omit then ''with-ESN=false '' else ''omit='')
     @ concat (map (\<lambda>e. decimal (unat (EIDTransformID e)) @ ''/'' @ decimal (unat (EIDKeyLen e)) @ '','')
         (XEncryption suite))
     @ concat (map (\<lambda>i. ''i'' @ decimal (unat i) @ '','') (XIntegrity suite))"

definition cesEncryptionListIsAEAD :: "EncryptionID list \<Rightarrow> bool" where
  "cesEncryptionListIsAEAD encs =
     list_ex (\<lambda>e. case NewEncryption (EIDTransformID e) (EIDKeyLen e) of Inl _ \<Rightarrow> False | Inr enc \<Rightarrow> AEAD enc) encs"

definition cesSuiteIsAEAD :: "XProposal \<Rightarrow> bool" where
  "cesSuiteIsAEAD suite = cesEncryptionListIsAEAD (XEncryption suite)"

text \<open>The closure \<^verbatim>\<open>mk\<close> with the \<^verbatim>\<open>seen\<close> test that follows each of its calls.\<close>

definition mkOffer :: "XProposal \<Rightarrow> bool \<Rightarrow> cesOffer" where
  "mkOffer suite omit = \<lparr> OfEnc = XEncryption suite, OfIntegrity = XIntegrity suite, OfDH = XDH suite, omitESN = omit \<rparr>"

definition addOffer :: "XProposal \<Rightarrow> bool \<Rightarrow> string list \<times> cesOffer list \<Rightarrow> string list \<times> cesOffer list" where
  "addOffer suite omit = (\<lambda>(seen, offers).
     let key = cesOfferKey suite omit in
     if key \<in> set seen then (seen, offers) else (key # seen, offers @ [mkOffer suite omit]))"

fun childOffersLoop :: "bool \<Rightarrow> XProposal list \<Rightarrow> string list \<times> cesOffer list \<Rightarrow> string list \<times> cesOffer list" where
  "childOffersLoop swc [] acc = acc"
| "childOffersLoop swc (suite # suites) acc =
    (let acc = addOffer suite False acc in
     childOffersLoop swc suites
       (if swc \<and> cesSuiteIsAEAD suite then addOffer suite True acc else acc))"

definition childOffers :: "Config \<Rightarrow> cesOffer list res" where
  "childOffers cfg =
    (let offers = snd (childOffersLoop (StrongswanCompatible cfg) (CfgESP cfg) ([], [])) in
     if offers = [] then Inl (Errorf ''control: esp_suite is required'') else Inr offers)"

fun encTransforms :: "EncryptionID list \<Rightarrow> Transform list res" where
  "encTransforms [] = Inr []"
| "encTransforms (e # es) =
     bind_res (NewEncryption (EIDTransformID e) (EIDKeyLen e)) (\<lambda>alg.
     bind_res (encTransforms es) (\<lambda>ts.
       Inr (\<lparr> TType = TransformENC, TID = EIDTransformID e,
              TAttrs = KeyLengthAttr (word_of_nat (TransformKeyLen alg * 8)) \<rparr> # ts)))"

definition plainTransform :: "8 word \<Rightarrow> 16 word \<Rightarrow> Transform" where
  "plainTransform t i = \<lparr> TType = t, TID = i, TAttrs = [] \<rparr>"

abbreviation (input) "ESNNoExtendedSequenceNumbers \<equiv> (0::16 word)"

definition espOfferTransforms :: "cesOffer \<Rightarrow> Transform list res" where
  "espOfferTransforms offer =
    bind_res (encTransforms (OfEnc offer)) (\<lambda>ts.
      Inr (ts
        @ (if cesEncryptionListIsAEAD (OfEnc offer) then [] else map (plainTransform TransformINTEG) (OfIntegrity offer))
        @ (if omitESN offer then [] else [plainTransform TransformESN ESNNoExtendedSequenceNumbers])))"

definition childProposalTransforms :: "cesOffer \<Rightarrow> bool \<Rightarrow> Transform list res" where
  "childProposalTransforms offer includeDH =
    bind_res (espOfferTransforms offer) (\<lambda>ts.
      Inr (ts @ (if includeDH then map (plainTransform TransformDH) (OfDH offer) else [])))"

section \<open>The responder's choice\<close>

definition cesU32 :: "bytes \<Rightarrow> 32 word" where
  "cesU32 b = push_bit 24 (ucast (b ! 0)) OR push_bit 16 (ucast (b ! 1)) OR push_bit 8 (ucast (b ! 2)) OR ucast (b ! 3)"

text \<open>The transforms seen so far: \<open>csEnc\<close> is \<^verbatim>\<open>selectedTR\<close> with \<^verbatim>\<open>encID\<close> and \<^verbatim>\<open>encKeyLen\<close>,
  \<open>csInteg\<close> is \<^verbatim>\<open>integID\<close> when \<^verbatim>\<open>hasInteg\<close>, \<open>csESN\<close> is \<^verbatim>\<open>esn\<close> when it is not -1.\<close>

record childScan =
  csEnc :: "(16 word \<times> 16 word) option"
  csInteg :: "16 word option"
  csESN :: "16 word option"
  csDH :: "16 word"

fun scanChildTransforms :: "Transform list \<Rightarrow> childScan \<Rightarrow> childScan res" where
  "scanChildTransforms [] c = Inr c"
| "scanChildTransforms (tr # ts) c =
    (if TType tr = TransformDH then
       if length (TAttrs tr) \<noteq> 0 then Inl (Errorf ''control: unexpected DH attributes in CHILD_SA selection'')
       else if csDH c \<noteq> 0 then Inl (Errorf ''control: multiple DH transforms in CHILD_SA selection'')
       else scanChildTransforms ts (c\<lparr> csDH := TID tr \<rparr>)
     else if TType tr = TransformENC then
       if csEnc c \<noteq> None then Inl (Errorf ''control: multiple ENCR transforms in CHILD_SA selection'')
       else bind_res (ParseKeyLengthAttr (TAttrs tr)) (\<lambda>keyBits.
         if keyBits = 0 \<or> keyBits mod 8 \<noteq> 0 then Inl (Errorf ''control: invalid CHILD_SA encryption key length'')
         else scanChildTransforms ts (c\<lparr> csEnc := Some (TID tr, keyBits div 8) \<rparr>))
     else if TType tr = TransformINTEG then
       if csInteg c \<noteq> None then Inl (Errorf ''control: multiple INTEG transforms in CHILD_SA selection'')
       else scanChildTransforms ts (c\<lparr> csInteg := Some (TID tr) \<rparr>)
     else if TType tr = TransformESN then
       if csESN c \<noteq> None then Inl (Errorf ''control: multiple ESN transforms in CHILD_SA selection'')
       else scanChildTransforms ts (c\<lparr> csESN := Some (TID tr) \<rparr>)
     else Inl (Errorf ''control: unexpected transform type in CHILD_SA selection''))"

text \<open>The checks of the scanned transforms against the offer.\<close>

definition chosenIntegrity :: "cesOffer \<Rightarrow> EncryptionAlg \<Rightarrow> 16 word option \<Rightarrow> Integrity res" where
  "chosenIntegrity offer enc integ =
    (if AEAD enc then
       if integ \<noteq> None then Inl (Errorf ''control: AEAD CHILD_SA selection must not include integrity'')
       else NewIntegrity TransformIntegrityNone
     else case integ of
       None \<Rightarrow> Inl (Errorf ''control: CHILD_SA selection missing integrity transform'')
     | Some i \<Rightarrow>
         if i \<notin> set (OfIntegrity offer)
         then Inl (Errorf ''control: CHILD_SA selected an unoffered integrity transform'')
         else NewIntegrity i)"

definition checkChildScan :: "State \<Rightarrow> cesOffer \<Rightarrow> childScan \<Rightarrow> Selection res" where
  "checkChildScan state offer c =
    (case csEnc c of
       None \<Rightarrow> Inl (Errorf ''control: CHILD_SA selection missing ENCR transform'')
     | Some (encID, encKeyLen) \<Rightarrow>
         if \<not> list_ex (\<lambda>e. EIDTransformID e = encID \<and> EIDKeyLen e = encKeyLen) (OfEnc offer)
         then Inl (Errorf ''control: CHILD_SA selected an unoffered encryption transform'')
         else
           bind_res (wrap_err ''control: CHILD_SA encryption'' (NewEncryption encID encKeyLen)) (\<lambda>enc.
           bind_res (chosenIntegrity offer enc (csInteg c)) (\<lambda>integ.
             if csESN c \<noteq> None \<and> csESN c \<noteq> Some ESNNoExtendedSequenceNumbers
             then Inl (Errorf ''control: unsupported CHILD_SA ESN mode'')
             else case SelectedIKE state of
               None \<Rightarrow> Inl (Errorf ''control: IKE proposal missing before CHILD_SA selection'')
             | Some ike \<Rightarrow>
                 if csDH c \<noteq> 0 \<and> csDH c \<noteq> TransformDHCurve25519
                 then Inl (Errorf ''control: unsupported CHILD_SA DH group'')
                 else Inr \<lparr> SelEncryption = enc, SelIntegrity = integ, SelPRF = SelPRF ike,
                   SelDH = (if csDH c \<noteq> 0 then \<lparr> DHTransformID = csDH c, DHName = ''curve25519'' \<rparr> else SelDH ike) \<rparr>)))"

definition decodeChildSelection :: "Config \<Rightarrow> State \<Rightarrow> SA \<Rightarrow> (32 word \<times> Selection) res" where
  "decodeChildSelection cfg state sa =
    (if length sa \<noteq> 1 then Inl (Errorf ''control: unexpected CHILD_SA proposal count'')
     else let prop = sa ! 0 in
       if PropProtocolID prop \<noteq> DeleteProtocolESP then Inl (Errorf ''control: unexpected CHILD_SA proposal protocol'')
       else if length (PropSPI prop) \<noteq> 4 then Inl (Errorf ''control: CHILD_SA proposal SPI size mismatch'')
       else
         bind_res (childOffers cfg) (\<lambda>offers.
           let idx = uint (Num prop) - 1 in
           if idx < 0 \<or> idx \<ge> int (length offers)
           then Inl (Errorf ''control: peer selected an unoffered CHILD_SA proposal number'')
           else
             bind_res (scanChildTransforms (Transforms prop) \<lparr> csEnc = None, csInteg = None, csESN = None, csDH = 0 \<rparr>) (\<lambda>c.
             bind_res (checkChildScan state (offers ! nat idx) c) (\<lambda>sel.
               Inr (cesU32 (PropSPI prop), sel)))))"

section \<open>Traffic selectors\<close>

definition cesCheckSelector :: "Selector \<Rightarrow> unit res" where
  "cesCheckSelector sel =
    (if SelProtocolID sel \<noteq> 0 then Inl (Errorf ''selector must use protocol 0'')
     else if StartPort sel \<noteq> 0 \<or> EndPort sel \<noteq> 0xffff then Inl (Errorf ''selector must allow all ports'')
     else Inr ())"

definition cesAcceptWindowsLinkLocalTS :: "bytes \<Rightarrow> bytes \<Rightarrow> bytes \<Rightarrow> bool" where
  "cesAcceptWindowsLinkLocalTS start end' assigned =
    (if \<not> IPEqual start end' \<or> \<not> IsLinkLocalUnicast start then False
     else case (To16 assigned, To16 start) of
       (Some a16, Some s16) \<Rightarrow> IPEqual (drop 8 s16) (drop 8 a16)
     | _ \<Rightarrow> False)"

definition checkTSi :: "AssignedConfig \<Rightarrow> Selector \<Rightarrow> unit res" where
  "checkTSi assigned sel =
    bind_res (wrap_err ''control: invalid TSi selector'' (cesCheckSelector sel)) (\<lambda>_.
      if SelType sel = TSTypeIPv4AddrRange then
        (case InternalIPv4 assigned of
           None \<Rightarrow> Inl (Errorf ''control: TSi is IPv4 but CP has no INTERNAL_IP4_ADDRESS'')
         | Some ip \<Rightarrow>
             if \<not> IPEqual (StartAddr sel) ip \<or> \<not> IPEqual (EndAddr sel) ip
             then Inl (Errorf ''control: TSi v4 must narrow to the CP-assigned INTERNAL_IP4_ADDRESS'')
             else Inr ())
      else if SelType sel = TSTypeIPv6AddrRange then
        (case InternalIPv6 assigned of
           None \<Rightarrow> Inl (Errorf ''control: TSi is IPv6 but CP has no INTERNAL_IP6_ADDRESS'')
         | Some ip \<Rightarrow>
             if (\<not> IPEqual (StartAddr sel) ip \<or> \<not> IPEqual (EndAddr sel) ip)
                \<and> \<not> cesAcceptWindowsLinkLocalTS (StartAddr sel) (EndAddr sel) ip
             then Inl (Errorf ''control: TSi v6 must narrow to the CP-assigned INTERNAL_IP6_ADDRESS'')
             else Inr ())
      else Inl (Errorf ''control: unsupported TSi traffic selector type''))"

definition checkTSr :: "Selector \<Rightarrow> unit res" where
  "checkTSr sel =
    bind_res (wrap_err ''control: invalid TSr selector'' (cesCheckSelector sel)) (\<lambda>_.
      if SelType sel \<noteq> TSTypeIPv4AddrRange \<and> SelType sel \<noteq> TSTypeIPv6AddrRange
      then Inl (Errorf ''control: unsupported TSr traffic selector type'')
      else Inr ())"

fun each_res :: "('a \<Rightarrow> unit res) \<Rightarrow> 'a list \<Rightarrow> unit res" where
  "each_res f [] = Inr ()"
| "each_res f (x # xs) = bind_res (f x) (\<lambda>_. each_res f xs)"

definition validateTrafficSelectors :: "TrafficSelectors \<Rightarrow> TrafficSelectors \<Rightarrow> AssignedConfig \<Rightarrow> unit res" where
  "validateTrafficSelectors tsi tsr assigned =
    (if tsi = [] \<or> tsr = [] then Inl (Errorf ''control: final IKE_AUTH TS payload has empty selectors'')
     else bind_res (each_res (checkTSi assigned) tsi) (\<lambda>_. each_res checkTSr tsr))"

section \<open>Child keys and notifies\<close>

definition deriveChildKeys :: "State \<Rightarrow> ChildKeys res" where
  "deriveChildKeys state =
    (case SIKEKeys state of
       None \<Rightarrow> Inl (Errorf ''control: IKE key material is missing'')
     | Some keys \<Rightarrow>
         if length (InitiatorNonce state) = 0 \<or> length (ResponderNonce state) = 0
         then Inl (Errorf ''control: missing nonce material'')
         else case (SelectedIKE state, SelectedESP state) of
           (Some ike, Some esp) \<Rightarrow>
             DeriveChildKeys (SelPRF ike) (SKd keys) (InitiatorNonce state) (ResponderNonce state) []
               (SelEncryption esp) (Some (SelIntegrity esp))
         | _ \<Rightarrow> Inl (Errorf ''control: missing selected algorithms''))"

record cesSpiNotify =
  snType :: "16 word"
  snProtocol :: "8 word"
  snSPI :: "32 word"

definition cesValidateSpiNotifies :: "cesSpiNotify list \<Rightarrow> 32 word \<Rightarrow> 32 word \<Rightarrow> unit res" where
  "cesValidateSpiNotifies notifies expectedOutbound inbound =
     each_res (\<lambda>n.
       if snProtocol n \<noteq> DeleteProtocolESP then Inl (Errorf ''control: unexpected SPI-scoped notify protocol'')
       else if snSPI n \<noteq> expectedOutbound \<and> snSPI n \<noteq> inbound
       then Inl (Errorf ''control: SPI-scoped notify unexpected SPI'')
       else Inr ()) notifies"

abbreviation (input) "NotifyNoProposalChosen \<equiv> (14::16 word)"
abbreviation (input) "NotifySinglePairRequired \<equiv> (34::16 word)"
abbreviation (input) "NotifyNoAdditionalSAs \<equiv> (35::16 word)"
abbreviation (input) "NotifyInternalAddressFailure \<equiv> (36::16 word)"
abbreviation (input) "NotifyFailedCPRequired \<equiv> (37::16 word)"
abbreviation (input) "NotifyTSUnacceptable \<equiv> (38::16 word)"

fun cesChildFailureReason :: "Notify list \<Rightarrow> string" where
  "cesChildFailureReason [] = ''''"
| "cesChildFailureReason (n # ns) =
    (if NotType n = NotifyNoProposalChosen then ''NO_PROPOSAL_CHOSEN''
     else if NotType n = NotifySinglePairRequired then ''SINGLE_PAIR_REQUIRED''
     else if NotType n = NotifyNoAdditionalSAs then ''NO_ADDITIONAL_SAS''
     else if NotType n = NotifyInternalAddressFailure then ''INTERNAL_ADDRESS_FAILURE''
     else if NotType n = NotifyFailedCPRequired then ''FAILED_CP_REQUIRED''
     else if NotType n = NotifyTSUnacceptable then ''TS_UNACCEPTABLE''
     else cesChildFailureReason ns)"

section \<open>The assigned configuration\<close>

record cesAssignedMask =
  v4Addr :: bool
  v4DNS :: bool
  v6Addr :: bool
  v6DNS :: bool
  expiry :: bool

definition noAssigned :: AssignedConfig where
  "noAssigned = \<lparr> InternalIPv4 = None, InternalIPv6 = None, InternalIPv6Prefix = 0, DNS4 = [], DNS6 = [],
     AddressExpirySeconds = 0 \<rparr>"

definition noMask :: cesAssignedMask where
  "noMask = \<lparr> v4Addr = False, v4DNS = False, v6Addr = False, v6DNS = False, expiry = False \<rparr>"

definition decodeAttribute ::
  "ConfigAttribute \<Rightarrow> AssignedConfig \<times> cesAssignedMask \<Rightarrow> (AssignedConfig \<times> cesAssignedMask) res" where
  "decodeAttribute attr = (\<lambda>(out, mask).
    let v = AttrValue attr in
    if AttrType attr = ConfigAttrInternalIPv4Address then
      if length v = 0 then Inr (out, mask)
      else if length v \<noteq> 4 then Inl (Errorf ''control: invalid INTERNAL_IP4_ADDRESS length'')
      else Inr (out\<lparr> InternalIPv4 := Some (IPv4 (v ! 0) (v ! 1) (v ! 2) (v ! 3)) \<rparr>, mask\<lparr> v4Addr := True \<rparr>)
    else if AttrType attr = ConfigAttrInternalIPv4DNS then
      if length v \<noteq> 4 then Inl (Errorf ''control: invalid INTERNAL_IP4_DNS length'')
      else Inr (out\<lparr> DNS4 := DNS4 out @ [IPv4 (v ! 0) (v ! 1) (v ! 2) (v ! 3)] \<rparr>, mask\<lparr> v4DNS := True \<rparr>)
    else if AttrType attr = ConfigAttrInternalIPv6Address then
      if length v = 0 then Inr (out, mask)
      else if length v \<noteq> 17 then Inl (Errorf ''control: invalid INTERNAL_IP6_ADDRESS length'')
      else if v ! 16 > 128 then Inl (Errorf ''control: invalid INTERNAL_IP6_ADDRESS prefix length'')
      else Inr (out\<lparr> InternalIPv6 := Some (take 16 v), InternalIPv6Prefix := v ! 16 \<rparr>, mask\<lparr> v6Addr := True \<rparr>)
    else if AttrType attr = ConfigAttrInternalIPv6DNS then
      if length v \<noteq> 16 then Inl (Errorf ''control: invalid INTERNAL_IP6_DNS length'')
      else Inr (out\<lparr> DNS6 := DNS6 out @ [v] \<rparr>, mask\<lparr> v6DNS := True \<rparr>)
    else if AttrType attr = ConfigAttrInternalAddressExpiry \<and> length v = 4 then
      Inr (out\<lparr> AddressExpirySeconds := cesU32 v \<rparr>, mask\<lparr> expiry := True \<rparr>)
    else Inr (out, mask))"

fun decodeAttributes ::
  "ConfigAttribute list \<Rightarrow> AssignedConfig \<times> cesAssignedMask \<Rightarrow> (AssignedConfig \<times> cesAssignedMask) res" where
  "decodeAttributes [] acc = Inr acc"
| "decodeAttributes (attr # attrs) acc = bind_res (decodeAttribute attr acc) (decodeAttributes attrs)"

definition cesDecodeAssignedCP :: "ConfigPayload \<Rightarrow> (AssignedConfig \<times> cesAssignedMask) res" where
  "cesDecodeAssignedCP cp = decodeAttributes (Attributes cp) (noAssigned, noMask)"

definition cesDecodeAssigned :: "bytes \<Rightarrow> AssignedConfig res" where
  "cesDecodeAssigned b =
    bind_res (ParseConfigPayload b) (\<lambda>cp.
      if Kind cp \<noteq> ConfigTypeReply \<and> Kind cp \<noteq> ConfigTypeSet
      then Inl (Errorf ''control: expected CFG_REPLY or CFG_SET'')
      else bind_res (cesDecodeAssignedCP cp) (\<lambda>(assigned, _). Inr assigned))"

text \<open>Copies and comparison (\<^verbatim>\<open>config_apply.go\<close>); an absent pointer is None.\<close>

definition cloneIPList :: "bytes list \<Rightarrow> bytes list" where
  "cloneIPList ips = map (\<lambda>ip. [] @ ip) ips"

definition cloneAssignedConfig :: "AssignedConfig option \<Rightarrow> AssignedConfig" where
  "cloneAssignedConfig a =
    (case a of None \<Rightarrow> noAssigned
     | Some a \<Rightarrow> a\<lparr> DNS4 := cloneIPList (DNS4 a), DNS6 := cloneIPList (DNS6 a) \<rparr>)"

definition ipListsEqual :: "bytes list \<Rightarrow> bytes list \<Rightarrow> bool" where
  "ipListsEqual a b \<longleftrightarrow> length a = length b \<and> list_all2 IPEqual a b"

definition ipOf :: "bytes option \<Rightarrow> bytes" where
  "ipOf ip = (case ip of None \<Rightarrow> [] | Some b \<Rightarrow> b)"

definition assignedConfigEqual :: "AssignedConfig option \<Rightarrow> AssignedConfig option \<Rightarrow> bool" where
  "assignedConfigEqual a b =
    (case (a, b) of
       (None, None) \<Rightarrow> True
     | (Some a, Some b) \<Rightarrow>
         AddressExpirySeconds a = AddressExpirySeconds b \<and> InternalIPv6Prefix a = InternalIPv6Prefix b
         \<and> IPEqual (ipOf (InternalIPv4 a)) (ipOf (InternalIPv4 b))
         \<and> IPEqual (ipOf (InternalIPv6 a)) (ipOf (InternalIPv6 b))
         \<and> ipListsEqual (DNS4 a) (DNS4 b) \<and> ipListsEqual (DNS6 a) (DNS6 b)
     | _ \<Rightarrow> False)"

section \<open>Lemmas: chains\<close>

lemma be16_octets: "be16 (word_of_nat n) = [word_of_nat (n div 256), word_of_nat n]"
proof -
  have "n mod 65536 = 256 * (n div 256 mod 256) + n mod 256"
    using mod_mult2_eq [of n 256 256] by simp
  then have "n mod 65536 div 256 = n div 256 mod 256" "n mod 65536 mod 256 = n mod 256" by simp_all
  then show ?thesis
    by (simp add: be16_def word_unat_eq_iff unsigned_ucast_eq unsigned_drop_bit_eq unsigned_of_nat
          take_bit_eq_mod drop_bit_eq_div unat_div)
qed

lemma partHeader_octets: "partHeader nx body @ body = payload_octets nx False body"
  by (simp add: partHeader_def payload_octets_def be16_octets Let_def del: of_nat_add)

lemma cesBuildChain_chain:
  "cesBuildChain parts = chain_octets (map (\<lambda>(t, b). (t, False, b)) parts) PayloadTypeNone"
proof (induction parts rule: cesBuildChain.induct)
  case (2 t body ps)
  have "(case ps of [] \<Rightarrow> 0 | (t', _) # _ \<Rightarrow> t') = chain_first (map (\<lambda>(t, b). (t, False, b)) ps) 0"
    by (cases ps) auto
  then show ?case using 2 by (simp add: partHeader_octets [symmetric])
qed simp

lemma cepSinglePayload_chain: "cepSinglePayload body = chain_octets [(t, False, body)] PayloadTypeNone"
  using partHeader_octets [of 0 body] by (simp add: cepSinglePayload_def cepChainPayload_def partHeader_def Let_def)

section \<open>Lemmas: offers\<close>

definition enc_item :: "EncryptionID \<Rightarrow> string" where
  "enc_item e = decimal (unat (EIDTransformID e)) @ ''/'' @ decimal (unat (EIDKeyLen e)) @ '',''"

definition integ_item :: "16 word \<Rightarrow> string" where
  "integ_item i = ''i'' @ decimal (unat i) @ '',''"

lemma not_digits: "\<not> digit (CHR ''/'')" "\<not> digit (CHR '','')" "\<not> digit (CHR ''i'')"
  by (simp_all add: digit_def)

lemma enc_item_prefix: "enc_item e @ s = enc_item e' @ t \<Longrightarrow> e = e' \<and> s = t"
  unfolding enc_item_def using not_digits
  by (auto simp: word_unat_eq_iff intro!: EncryptionID.equality dest!: decimal_until)

lemma integ_item_prefix: "integ_item i @ s = integ_item i' @ t \<Longrightarrow> i = i' \<and> s = t"
  unfolding integ_item_def using not_digits by (auto simp: word_unat_eq_iff dest!: decimal_until)

lemma integ_items_inj: "concat (map integ_item xs) = concat (map integ_item ys) \<Longrightarrow> xs = ys"
proof (induction xs arbitrary: ys)
  case Nil
  then show ?case by (cases ys) (auto simp: integ_item_def)
next
  case (Cons x xs)
  obtain y ys' where ys: "ys = y # ys'" using Cons.prems by (cases ys) (auto simp: integ_item_def)
  then have "x = y \<and> concat (map integ_item xs) = concat (map integ_item ys')"
    using Cons.prems by (intro integ_item_prefix) simp
  then show ?case using Cons.IH ys by blast
qed

lemma enc_item_not_integ: "enc_item e @ s \<noteq> concat (map integ_item ys)"
proof (cases ys)
  case Nil
  then show ?thesis by (simp add: enc_item_def)
next
  case (Cons y ys')
  let ?d = "decimal (unat (EIDTransformID e))"
  have "digit (hd ?d)" using decimal_digits [of "hd ?d" "unat (EIDTransformID e)"] by simp
  moreover have "hd (enc_item e @ s) = hd ?d" by (simp add: enc_item_def)
  moreover have "hd (concat (map integ_item ys)) = CHR ''i''" by (simp add: Cons integ_item_def)
  ultimately show ?thesis using not_digits(3) by metis
qed

lemma items_inj:
  "concat (map enc_item xs) @ concat (map integ_item is) = concat (map enc_item ys) @ concat (map integ_item js)
   \<Longrightarrow> xs = ys \<and> is = js"
proof (induction xs arbitrary: ys)
  case Nil
  have "ys = []"
  proof (cases ys)
    case (Cons y ys')
    then show ?thesis
      using Nil enc_item_not_integ [of y "concat (map enc_item ys') @ concat (map integ_item js)" "is"] by simp
  qed simp
  then show ?case using Nil integ_items_inj by simp
next
  case (Cons x xs)
  have "ys \<noteq> []"
    using Cons.prems enc_item_not_integ [of x "concat (map enc_item xs) @ concat (map integ_item is)" js] by auto
  then obtain y ys' where ys: "ys = y # ys'" by (cases ys) simp_all
  then have "x = y \<and> concat (map enc_item xs) @ concat (map integ_item is) = concat (map enc_item ys') @ concat (map integ_item js)"
    using Cons.prems by (intro enc_item_prefix) simp
  then show ?case using Cons.IH ys by blast
qed

lemma cesOfferKey_eq:
  "cesOfferKey s o1 = cesOfferKey t o2 \<longleftrightarrow> XEncryption s = XEncryption t \<and> XIntegrity s = XIntegrity t \<and> o1 = o2"
proof
  have key: "cesOfferKey s omit = (if omit then ''with-ESN=false '' else ''omit='')
      @ concat (map enc_item (XEncryption s)) @ concat (map integ_item (XIntegrity s))" for s omit
    by (simp add: cesOfferKey_def enc_item_def [abs_def] integ_item_def [abs_def])
  assume "cesOfferKey s o1 = cesOfferKey t o2"
  moreover from this have "o1 = o2" unfolding key by (cases o1; cases o2) auto
  ultimately have "concat (map enc_item (XEncryption s)) @ concat (map integ_item (XIntegrity s))
      = concat (map enc_item (XEncryption t)) @ concat (map integ_item (XIntegrity t))"
    unfolding key by simp
  then show "XEncryption s = XEncryption t \<and> XIntegrity s = XIntegrity t \<and> o1 = o2"
    using items_inj \<open>o1 = o2\<close> by blast
qed (simp add: cesOfferKey_def)

text \<open>What distinguishes two offers, and the variants of the configured suites.\<close>

definition offer_id :: "cesOffer \<Rightarrow> EncryptionID list \<times> 16 word list \<times> bool" where
  "offer_id f = (OfEnc f, OfIntegrity f, omitESN f)"

fun suite_variants :: "bool \<Rightarrow> XProposal list \<Rightarrow> cesOffer list" where
  "suite_variants swc [] = []"
| "suite_variants swc (s # suites) =
     mkOffer s False # (if swc \<and> cesSuiteIsAEAD s then [mkOffer s True] else []) @ suite_variants swc suites"

definition offer_variants :: "Config \<Rightarrow> cesOffer list" where
  "offer_variants cfg = suite_variants (StrongswanCompatible cfg) (CfgESP cfg)"

definition offers_inv :: "string list \<times> cesOffer list \<Rightarrow> bool" where
  "offers_inv = (\<lambda>(seen, offers). distinct (map offer_id offers)
     \<and> (\<forall>s b. cesOfferKey s b \<in> set seen \<longleftrightarrow> offer_id (mkOffer s b) \<in> offer_id ` set offers))"

lemma offer_id_key: "offer_id (mkOffer s b) = offer_id (mkOffer t c) \<longleftrightarrow> cesOfferKey s b = cesOfferKey t c"
  by (simp add: cesOfferKey_eq offer_id_def mkOffer_def)

lemma addOffer_inv:
  assumes "offers_inv acc"
  shows "offers_inv (addOffer s b acc)"
    "offer_id ` set (snd (addOffer s b acc)) = insert (offer_id (mkOffer s b)) (offer_id ` set (snd acc))"
    "set (snd (addOffer s b acc)) \<subseteq> insert (mkOffer s b) (set (snd acc))"
proof -
  obtain seen offers where acc: "acc = (seen, offers)" by fastforce
  have inv: "distinct (map offer_id offers)"
    "cesOfferKey s b \<in> set seen \<longleftrightarrow> offer_id (mkOffer s b) \<in> offer_id ` set offers" for s b
    using assms by (simp_all add: offers_inv_def acc)
  show "offers_inv (addOffer s b acc)"
  proof (cases "cesOfferKey s b \<in> set seen")
    case True
    then show ?thesis using assms by (simp add: addOffer_def acc Let_def)
  next
    case False
    then have "offer_id (mkOffer s b) \<notin> offer_id ` set offers" using inv by blast
    moreover have "cesOfferKey t c \<in> set (cesOfferKey s b # seen)
        \<longleftrightarrow> offer_id (mkOffer t c) \<in> offer_id ` set (offers @ [mkOffer s b])" for t c
      using inv(2) [of t c] offer_id_key [of t c s b] by auto
    ultimately show ?thesis using False inv(1) by (simp add: addOffer_def acc Let_def offers_inv_def)
  qed
  show "offer_id ` set (snd (addOffer s b acc)) = insert (offer_id (mkOffer s b)) (offer_id ` set (snd acc))"
    using inv(2) [of s b] by (auto simp: addOffer_def acc Let_def)
  show "set (snd (addOffer s b acc)) \<subseteq> insert (mkOffer s b) (set (snd acc))"
    by (auto simp: addOffer_def acc Let_def)
qed

lemma childOffersLoop_inv:
  assumes "offers_inv acc"
  shows "offers_inv (childOffersLoop swc suites acc)
    \<and> offer_id ` set (snd (childOffersLoop swc suites acc)) = offer_id ` (set (suite_variants swc suites) \<union> set (snd acc))
    \<and> set (snd (childOffersLoop swc suites acc)) \<subseteq> set (suite_variants swc suites) \<union> set (snd acc)"
  using assms
proof (induction suites arbitrary: acc)
  case (Cons s suites)
  let ?a = "addOffer s False acc"
  let ?b = "if swc \<and> cesSuiteIsAEAD s then addOffer s True ?a else ?a"
  let ?v = "set (suite_variants swc [s])"
  have b: "offers_inv ?b" using Cons.prems by (simp add: addOffer_inv)
  have "offer_id ` set (snd ?b) = offer_id ` (?v \<union> set (snd acc))"
    using Cons.prems by (auto simp: addOffer_inv)
  moreover have "set (snd ?b) \<subseteq> ?v \<union> set (snd acc)"
    using addOffer_inv(3) [OF Cons.prems, of s False] addOffer_inv(3) [OF addOffer_inv(1) [OF Cons.prems], of s True s False]
    by auto
  moreover have "set (suite_variants swc (s # suites)) = ?v \<union> set (suite_variants swc suites)" by auto
  moreover have "childOffersLoop swc (s # suites) acc = childOffersLoop swc suites ?b" by (simp add: Let_def)
  ultimately show ?case using Cons.IH [OF b] by (simp only: image_Un) blast
qed simp

lemma childOffers_spec:
  assumes "childOffers cfg = Inr offers"
  shows "distinct (map offer_id offers)" "offer_id ` set offers = offer_id ` set (offer_variants cfg)"
    "set offers \<subseteq> set (offer_variants cfg)" "offers \<noteq> []"
proof -
  have "offers_inv ([], [])" by (simp add: offers_inv_def)
  from childOffersLoop_inv [OF this, of "StrongswanCompatible cfg" "CfgESP cfg"] assms
  show "distinct (map offer_id offers)" "offer_id ` set offers = offer_id ` set (offer_variants cfg)"
    "set offers \<subseteq> set (offer_variants cfg)" "offers \<noteq> []"
    by (auto simp: childOffers_def offers_inv_def offer_variants_def Let_def split: if_splits prod.splits)
qed

section \<open>Lemmas: the responder's choice\<close>

lemma cesU32_be32 [simp]: "cesU32 (be32 v) = v"
proof -
  have "cesU32 (be32 v) = beUint32 (be32 v)" by (simp add: cesU32_def beUint32_def be32_def)
  then show ?thesis by simp
qed

lemma be32_cesU32:
  assumes "length b = 4"
  shows "be32 (cesU32 b) = b"
proof -
  obtain x y z w where b: "b = [x, y, z, w]" using assms by (auto simp: length_4_conv)
  then have "cesU32 b = beUint32 b" by (simp add: cesU32_def beUint32_def)
  then show ?thesis by (simp add: b)
qed

lemma ParseKeyLengthAttr_KeyLengthAttr [simp]: "ParseKeyLengthAttr (KeyLengthAttr bits) = Inr bits"
proof -
  have "replicate 4 (0::byte) = [0, 0, 0, 0]" by (simp add: eval_nat_numeral)
  then have "KeyLengthAttr bits = be16 0x800e @ be16 bits"
    by (simp add: KeyLengthAttr_def putUint16_def be16_def)
  then show ?thesis by (simp add: ParseKeyLengthAttr_def Let_def subslice_def)
qed

text \<open>What a scan collected was among the transforms.\<close>

definition scanned :: "Transform list \<Rightarrow> childScan \<Rightarrow> bool" where
  "scanned ts c \<longleftrightarrow>
     (\<forall>i k. csEnc c = Some (i, k) \<longrightarrow> (\<exists>tr \<in> set ts. TType tr = TransformENC \<and> TID tr = i))
     \<and> (\<forall>i. csInteg c = Some i \<longrightarrow> (\<exists>tr \<in> set ts. TType tr = TransformINTEG \<and> TID tr = i))
     \<and> (\<forall>tr \<in> set ts. TType tr = TransformESN \<longrightarrow> csESN c = Some (TID tr))"

lemma scan_scanned:
  "scanChildTransforms ts c = Inr c' \<Longrightarrow> scanned pre c \<Longrightarrow> scanned (pre @ ts) c'"
proof (induction ts arbitrary: c pre)
  case (Cons tr ts)
  obtain c1 where step: "scanChildTransforms ts c1 = Inr c'" "scanned (pre @ [tr]) c1"
  proof -
    consider "TType tr = TransformDH" | "TType tr = TransformENC" | "TType tr = TransformINTEG" | "TType tr = TransformESN"
      using Cons.prems(1) by (auto split: if_splits)
    then show thesis
    proof cases
      case 1
      then show thesis using Cons.prems that [of "c\<lparr> csDH := TID tr \<rparr>"]
        by (auto simp: scanned_def split: if_splits)
    next
      case 2
      then obtain b where "scanChildTransforms ts (c\<lparr> csEnc := Some (TID tr, b div 8) \<rparr>) = Inr c'"
        using Cons.prems(1) by (auto split: if_splits)
      then show thesis using Cons.prems 2 that by (fastforce simp: scanned_def)
    next
      case 3
      then show thesis using Cons.prems that [of "c\<lparr> csInteg := Some (TID tr) \<rparr>"]
        by (auto simp: scanned_def split: if_splits)
    next
      case 4
      then show thesis using Cons.prems that [of "c\<lparr> csESN := Some (TID tr) \<rparr>"]
        by (auto simp: scanned_def split: if_splits)
    qed
  qed
  then show ?case using Cons.IH [OF step] by simp
qed simp

lemma checkChildScan_ok:
  assumes "checkChildScan state offer c = Inr sel"
  obtains e where "e \<in> set (OfEnc offer)" "csEnc c = Some (EIDTransformID e, EIDKeyLen e)"
    "NewEncryption (EIDTransformID e) (EIDKeyLen e) = Inr (SelEncryption sel)"
    "chosenIntegrity offer (SelEncryption sel) (csInteg c) = Inr (SelIntegrity sel)"
    "csESN c = None \<or> csESN c = Some 0"
    "map_option SelPRF (SelectedIKE state) = Some (SelPRF sel)"
  using assms
  by (auto simp: checkChildScan_def list_ex_iff split: option.splits if_splits)

section \<open>Lemmas: traffic selectors\<close>

lemma each_res_ok: "each_res f xs = Inr () \<longleftrightarrow> (\<forall>x \<in> set xs. f x = Inr ())"
proof (induction xs)
  case (Cons x xs)
  then show ?case by (cases "f x") auto
qed simp

lemma compareOctets_antisym:
  "length a = length b \<Longrightarrow> compareOctets a b \<le> 0 \<Longrightarrow> compareOctets b a \<le> 0 \<Longrightarrow> a = b"
  by (induction a b rule: list_induct2) (auto split: if_splits)

lemma IPEqual_16: "length a = 16 \<Longrightarrow> IPEqual a b \<Longrightarrow> To16 b = Some a"
  by (auto simp: IPEqual_def To16_def split: if_splits) (metis append_take_drop_id)

lemma ParseTS_addresses:
  assumes "ParseTS b = Inr ts" "s \<in> set ts"
  shows "length (StartAddr s) = 16 \<and> length (EndAddr s) = 16"
proof -
  obtain n rest where "parse_count parseTrafficSelector n (drop 4 b) [] = Inr (ts, rest)"
    using assms(1) by (auto simp: ParseTS_def Let_def split: if_splits)
  from parse_count_all [OF this, of "\<lambda>s. length (StartAddr s) = 16 \<and> length (EndAddr s) = 16"]
  show ?thesis using parseTrafficSelector_sound assms(2) by fastforce
qed

text \<open>The addresses a selector admits.\<close>

definition in_selector :: "Selector \<Rightarrow> bytes \<Rightarrow> bool" where
  "in_selector s a \<longleftrightarrow> length a = 16 \<and> compareIP (StartAddr s) a \<le> 0 \<and> compareIP a (EndAddr s) \<le> 0"

lemma in_point:
  assumes "in_selector s a" "length (StartAddr s) = 16" "EndAddr s = StartAddr s"
  shows "a = StartAddr s"
  using assms compareOctets_antisym by (auto simp: in_selector_def compareIP_def split: if_splits)

lemma checkTSi_ok:
  assumes "checkTSi assigned s = Inr ()" "length (StartAddr s) = 16" "length (EndAddr s) = 16" "in_selector s a"
  shows "(\<exists>ip. (InternalIPv4 assigned = Some ip \<or> InternalIPv6 assigned = Some ip) \<and> To16 ip = Some a)
    \<or> (\<exists>ip g. InternalIPv6 assigned = Some ip \<and> To16 ip = Some g \<and> IsLinkLocalUnicast a \<and> drop 8 a = drop 8 g)"
proof -
  have narrow: "To16 ip = Some a" if "IPEqual (StartAddr s) ip" "IPEqual (EndAddr s) ip" for ip
  proof -
    have "To16 ip = Some (StartAddr s)" "To16 ip = Some (EndAddr s)" using that assms IPEqual_16 by blast+
    then show ?thesis using in_point [OF assms(4,2)] by simp
  qed
  have windows: "\<exists>g. To16 ip = Some g \<and> IsLinkLocalUnicast a \<and> drop 8 a = drop 8 g"
    if "cesAcceptWindowsLinkLocalTS (StartAddr s) (EndAddr s) ip" for ip
  proof -
    have "IPEqual (StartAddr s) (EndAddr s)" "IsLinkLocalUnicast (StartAddr s)"
      using that by (auto simp: cesAcceptWindowsLinkLocalTS_def split: if_splits)
    then have eq: "EndAddr s = StartAddr s" using assms by (simp add: IPEqual_def)
    have "To16 (StartAddr s) = Some (StartAddr s)" using assms by (simp add: To16_def)
    then show ?thesis using that in_point [OF assms(4,2) eq] assms(2)
      by (auto simp: cesAcceptWindowsLinkLocalTS_def IPEqual_def To16_def split: if_splits option.splits)
  qed
  show ?thesis
    using assms(1) narrow windows by (fastforce simp: checkTSi_def split: if_splits option.splits)
qed

section \<open>Lemmas: the assigned configuration\<close>

definition v4_mapped :: "bytes \<Rightarrow> bool" where
  "v4_mapped ip \<longleftrightarrow> length ip = 16 \<and> take 12 ip = v4InV6Prefix"

definition wf_assigned :: "AssignedConfig \<Rightarrow> bool" where
  "wf_assigned a \<longleftrightarrow> (\<forall>ip. InternalIPv4 a = Some ip \<longrightarrow> v4_mapped ip) \<and> list_all v4_mapped (DNS4 a)
     \<and> (\<forall>ip. InternalIPv6 a = Some ip \<longrightarrow> length ip = 16) \<and> list_all (\<lambda>ip. length ip = 16) (DNS6 a)
     \<and> InternalIPv6Prefix a \<le> 128 \<and> (InternalIPv6 a = None \<longrightarrow> InternalIPv6Prefix a = 0)"

definition config_attrs :: "AssignedConfig \<Rightarrow> ConfigAttribute list" where
  "config_attrs a =
     (case InternalIPv4 a of None \<Rightarrow> [] | Some ip \<Rightarrow> [\<lparr> AttrType = ConfigAttrInternalIPv4Address, AttrValue = drop 12 ip \<rparr>])
     @ map (\<lambda>ip. \<lparr> AttrType = ConfigAttrInternalIPv4DNS, AttrValue = drop 12 ip \<rparr>) (DNS4 a)
     @ (case InternalIPv6 a of None \<Rightarrow> [] | Some ip \<Rightarrow>
          [\<lparr> AttrType = ConfigAttrInternalIPv6Address, AttrValue = ip @ [InternalIPv6Prefix a] \<rparr>])
     @ map (\<lambda>ip. \<lparr> AttrType = ConfigAttrInternalIPv6DNS, AttrValue = ip \<rparr>) (DNS6 a)
     @ (if AddressExpirySeconds a = 0 then []
        else [\<lparr> AttrType = ConfigAttrInternalAddressExpiry, AttrValue = be32 (AddressExpirySeconds a) \<rparr>])"

definition config_mask :: "AssignedConfig \<Rightarrow> cesAssignedMask" where
  "config_mask a = \<lparr> v4Addr = (InternalIPv4 a \<noteq> None), v4DNS = (DNS4 a \<noteq> []), v6Addr = (InternalIPv6 a \<noteq> None),
     v6DNS = (DNS6 a \<noteq> []), expiry = (AddressExpirySeconds a \<noteq> 0) \<rparr>"

lemma IPv4_mapped:
  assumes "v4_mapped ip"
  shows "length (drop 12 ip) = 4" "IPv4 (drop 12 ip ! 0) (drop 12 ip ! 1) (drop 12 ip ! 2) (drop 12 ip ! 3) = ip"
proof -
  show l: "length (drop 12 ip) = 4" using assms by (simp add: v4_mapped_def)
  then obtain x y z w where d: "drop 12 ip = [x, y, z, w]" by (auto simp only: length_4_conv)
  have "ip = take 12 ip @ drop 12 ip" by simp
  then show "IPv4 (drop 12 ip ! 0) (drop 12 ip ! 1) (drop 12 ip ! 2) (drop 12 ip ! 3) = ip"
    unfolding IPv4_def d using assms by (simp add: v4_mapped_def)
qed

lemma decodeAttributes_append:
  "decodeAttributes (xs @ ys) acc = bind_res (decodeAttributes xs acc) (decodeAttributes ys)"
proof (induction xs arbitrary: acc)
  case (Cons x xs)
  then have "decodeAttributes (xs @ ys) = (\<lambda>acc. bind_res (decodeAttributes xs acc) (decodeAttributes ys))"
    by (intro ext)
  then show ?case by (simp add: bind_res_assoc)
qed simp

lemma decode_dns4:
  "list_all v4_mapped ips \<Longrightarrow>
   decodeAttributes (map (\<lambda>ip. \<lparr> AttrType = ConfigAttrInternalIPv4DNS, AttrValue = drop 12 ip \<rparr>) ips) (out, msk)
     = Inr (out\<lparr> DNS4 := DNS4 out @ ips \<rparr>, msk\<lparr> v4DNS := v4DNS msk \<or> ips \<noteq> [] \<rparr>)"
proof (induction ips arbitrary: out msk)
  case (Cons ip ips)
  then have "v4_mapped ip" by simp
  note IPv4_mapped [OF this]
  then show ?case using Cons by (simp add: decodeAttribute_def Let_def)
qed simp

lemma decode_dns6:
  "list_all (\<lambda>ip. length ip = 16) ips \<Longrightarrow>
   decodeAttributes (map (\<lambda>ip. \<lparr> AttrType = ConfigAttrInternalIPv6DNS, AttrValue = ip \<rparr>) ips) (out, msk)
     = Inr (out\<lparr> DNS6 := DNS6 out @ ips \<rparr>, msk\<lparr> v6DNS := v6DNS msk \<or> ips \<noteq> [] \<rparr>)"
  by (induction ips arbitrary: out msk) (simp_all add: decodeAttribute_def Let_def)

lemma decode_config_attrs:
  assumes "wf_assigned a"
  shows "decodeAttributes (config_attrs a) (noAssigned, noMask) = Inr (a, config_mask a)"
proof -
  have v4: "v4_mapped ip" if "InternalIPv4 a = Some ip" for ip using assms that by (simp add: wf_assigned_def)
  have v6: "length ip = 16" if "InternalIPv6 a = Some ip" for ip using assms that by (simp add: wf_assigned_def)
  have dns: "list_all v4_mapped (DNS4 a)" "list_all (\<lambda>ip. length ip = 16) (DNS6 a)"
    "\<not> InternalIPv6Prefix a > 128" "InternalIPv6 a = None \<Longrightarrow> InternalIPv6Prefix a = 0"
    using assms by (auto simp: wf_assigned_def not_less)
  let ?a4 = "noAssigned\<lparr> InternalIPv4 := InternalIPv4 a \<rparr>" and ?m4 = "noMask\<lparr> v4Addr := InternalIPv4 a \<noteq> None \<rparr>"
  let ?d4 = "?a4\<lparr> DNS4 := DNS4 a \<rparr>" and ?n4 = "?m4\<lparr> v4DNS := DNS4 a \<noteq> [] \<rparr>"
  let ?a6 = "?d4\<lparr> InternalIPv6 := InternalIPv6 a, InternalIPv6Prefix := InternalIPv6Prefix a \<rparr>"
    and ?m6 = "?n4\<lparr> v6Addr := InternalIPv6 a \<noteq> None \<rparr>"
  let ?d6 = "?a6\<lparr> DNS6 := DNS6 a \<rparr>" and ?n6 = "?m6\<lparr> v6DNS := DNS6 a \<noteq> [] \<rparr>"
  have 1: "decodeAttributes (case InternalIPv4 a of None \<Rightarrow> [] | Some ip \<Rightarrow>
      [\<lparr> AttrType = ConfigAttrInternalIPv4Address, AttrValue = drop 12 ip \<rparr>]) (noAssigned, noMask) = Inr (?a4, ?m4)"
    using IPv4_mapped [OF v4]
    by (auto simp: decodeAttribute_def Let_def noAssigned_def noMask_def split: option.split)
  have 2: "decodeAttributes (case InternalIPv6 a of None \<Rightarrow> [] | Some ip \<Rightarrow>
      [\<lparr> AttrType = ConfigAttrInternalIPv6Address, AttrValue = ip @ [InternalIPv6Prefix a] \<rparr>]) (?d4, ?n4) = Inr (?a6, ?m6)"
    using v6 dns(3,4) by (auto simp: decodeAttribute_def Let_def noAssigned_def noMask_def nth_append split: option.split)
  have 3: "decodeAttributes (if AddressExpirySeconds a = 0 then []
      else [\<lparr> AttrType = ConfigAttrInternalAddressExpiry, AttrValue = be32 (AddressExpirySeconds a) \<rparr>]) (?d6, ?n6)
     = Inr (a, config_mask a)"
    by (simp add: decodeAttribute_def Let_def noAssigned_def noMask_def config_mask_def)
  have d4: "decodeAttributes (map (\<lambda>ip. \<lparr> AttrType = ConfigAttrInternalIPv4DNS, AttrValue = drop 12 ip \<rparr>) (DNS4 a))
      (?a4, ?m4) = Inr (?d4, ?n4)"
    unfolding decode_dns4 [OF dns(1)] by (simp add: noAssigned_def noMask_def)
  have d6: "decodeAttributes (map (\<lambda>ip. \<lparr> AttrType = ConfigAttrInternalIPv6DNS, AttrValue = ip \<rparr>) (DNS6 a))
      (?a6, ?m6) = Inr (?d6, ?n6)"
    unfolding decode_dns6 [OF dns(2)] by (simp add: noAssigned_def noMask_def)
  show ?thesis unfolding config_attrs_def decodeAttributes_append 1 bind_res_simps d4 2 d6 by (rule 3)
qed

section \<open>Properties\<close>

text \<open>The offer list of a configuration names every configured ESP variant, and no
  variant twice: two suites with the same encryption and integrity lists and the same
  treatment of ESN are one proposal. The proposal number of an accepted answer therefore
  identifies one variant.\<close>

theorem childOffers_once:
  assumes "childOffers cfg = Inr offers"
  shows "distinct (map offer_id offers)
    \<and> offer_id ` set offers = offer_id ` set (offer_variants cfg) \<and> set offers \<subseteq> set (offer_variants cfg)"
  using childOffers_spec [OF assms] by blast

definition sample_esp_gcm :: XProposal where
  "sample_esp_gcm = \<lparr> XEncryption = [\<lparr> EIDTransformID = 20, EIDKeyLen = 32 \<rparr>], XIntegrity = [], XPRF = [5], XDH = [31] \<rparr>"

definition sample_esp_cbc :: XProposal where
  "sample_esp_cbc = \<lparr> XEncryption = [\<lparr> EIDTransformID = 12, EIDKeyLen = 16 \<rparr>], XIntegrity = [12], XPRF = [5], XDH = [31] \<rparr>"

definition sample_child_config :: Config where
  "sample_child_config = sample_config\<lparr> CfgESP := [sample_esp_gcm, sample_esp_cbc, sample_esp_gcm\<lparr> XDH := [] \<rparr>],
     StrongswanCompatible := True \<rparr>"

definition sample_offers :: "cesOffer list" where
  "sample_offers = [mkOffer sample_esp_gcm False, mkOffer sample_esp_gcm True, mkOffer sample_esp_cbc False]"

lemma sample_childOffers: "childOffers sample_child_config = Inr sample_offers"
proof -
  have aead: "cesSuiteIsAEAD sample_esp_gcm" "\<not> cesSuiteIsAEAD sample_esp_cbc" "cesSuiteIsAEAD (sample_esp_gcm\<lparr> XDH := [] \<rparr>)"
    by (simp_all add: sample_esp_gcm_def sample_esp_cbc_def cesSuiteIsAEAD_def cesEncryptionListIsAEAD_def NewEncryption_def Let_def)
  have keys: "cesOfferKey sample_esp_cbc False \<noteq> cesOfferKey sample_esp_gcm b"
    "cesOfferKey (sample_esp_gcm\<lparr> XDH := [] \<rparr>) b = cesOfferKey sample_esp_gcm b"
    "cesOfferKey sample_esp_gcm False \<noteq> cesOfferKey sample_esp_gcm True" for b
    by (simp_all add: cesOfferKey_eq sample_esp_gcm_def sample_esp_cbc_def)
  have esp: "CfgESP sample_child_config = [sample_esp_gcm, sample_esp_cbc, sample_esp_gcm\<lparr> XDH := [] \<rparr>]"
    "StrongswanCompatible sample_child_config"
    by (simp_all add: sample_child_config_def)
  show ?thesis
    unfolding childOffers_def esp
    by (simp add: esp aead addOffer_def keys keys(3) [symmetric] Let_def sample_offers_def)
qed

theorem childOffers_once_witness:
  "childOffers sample_child_config = Inr sample_offers \<and> length (CfgESP sample_child_config) = 3
   \<and> distinct (map offer_id sample_offers)"
  using sample_childOffers childOffers_once [OF sample_childOffers]
  by (simp add: sample_child_config_def)


definition sample_state :: State where
  "sample_state = NewState\<lparr> SelectedIKE := Some sample_ike_selection \<rparr>"

definition sample_choice :: Proposal where
  "sample_choice = \<lparr> Num = 3, PropProtocolID = DeleteProtocolESP, PropSPI = [1, 2, 3, 4],
     Transforms = [\<lparr> TType = TransformENC, TID = 12, TAttrs = KeyLengthAttr 128 \<rparr>, plainTransform TransformINTEG 12,
                   plainTransform TransformESN 0] \<rparr>"

lemma sample_cbc_offer:
  "sample_offers ! 2 = mkOffer sample_esp_cbc False" "OfEnc (mkOffer sample_esp_cbc False) = [\<lparr> EIDTransformID = 12, EIDKeyLen = 16 \<rparr>]"
  "OfIntegrity (mkOffer sample_esp_cbc False) = [12]"
  by (simp_all add: sample_offers_def mkOffer_def sample_esp_cbc_def)

lemma sample_decode:
  "\<exists>sel. decodeChildSelection sample_child_config sample_state [sample_choice] = Inr (0x01020304, sel) \<and> \<not> AEAD (SelEncryption sel)"
proof -
  have "childOffers sample_child_config = Inr sample_offers" by (rule sample_childOffers)
  moreover have "length sample_offers = 3" by (simp add: sample_offers_def)
  moreover have "KeyLengthAttr 128 = KeyLengthAttr (128 :: 16 word)" by simp
  ultimately show ?thesis
    by (simp add: decodeChildSelection_def sample_choice_def Let_def plainTransform_def checkChildScan_def sample_cbc_offer
          NewEncryption_def chosenIntegrity_def NewIntegrity_def sample_state_def cesU32_def)
qed




text \<open>C10: after the traffic selector policy, the only source address the CHILD_SA
  admits is the one the gateway assigned: an address inside any accepted initiator
  selector is the assigned IPv4 or IPv6 address, or a link-local address with the
  interface identifier of the assigned IPv6 address.\<close>

theorem selectors_admit_assigned:
  assumes "ParseTS b = Inr tsi" "validateTrafficSelectors tsi tsr assigned = Inr ()"
    and "s \<in> set tsi" "in_selector s a"
  shows "(\<exists>ip. (InternalIPv4 assigned = Some ip \<or> InternalIPv6 assigned = Some ip) \<and> To16 ip = Some a)
    \<or> (\<exists>ip g. InternalIPv6 assigned = Some ip \<and> To16 ip = Some g \<and> IsLinkLocalUnicast a \<and> drop 8 a = drop 8 g)"
proof -
  have "each_res (checkTSi assigned) tsi = Inr ()"
    using assms(2) by (auto simp: validateTrafficSelectors_def split: if_splits)
  then have "checkTSi assigned s = Inr ()" using assms(3) by (simp add: each_res_ok)
  then show ?thesis using checkTSi_ok ParseTS_addresses [OF assms(1,3)] assms(4) by blast
qed

definition sample_assigned :: AssignedConfig where
  "sample_assigned = \<lparr> InternalIPv4 = Some (v4InV6Prefix @ [10, 0, 0, 7]), InternalIPv6 = None, InternalIPv6Prefix = 0,
     DNS4 = [v4InV6Prefix @ [10, 0, 0, 1]], DNS6 = [], AddressExpirySeconds = 3600 \<rparr>"

definition sample_selector :: Selector where
  "sample_selector = \<lparr> SelType = TSTypeIPv4AddrRange, SelProtocolID = 0, StartPort = 0, EndPort = 0xffff,
     StartAddr = v4InV6Prefix @ [10, 0, 0, 7], EndAddr = v4InV6Prefix @ [10, 0, 0, 7] \<rparr>"

theorem selectors_admit_assigned_witness:
  "\<exists>b. ParseTS b = Inr [sample_selector] \<and> validateTrafficSelectors [sample_selector] [sample_selector] sample_assigned = Inr ()
     \<and> in_selector sample_selector (v4InV6Prefix @ [10, 0, 0, 7])
     \<and> ((\<exists>ip. (InternalIPv4 sample_assigned = Some ip \<or> InternalIPv6 sample_assigned = Some ip)
            \<and> To16 ip = Some (v4InV6Prefix @ [10, 0, 0, 7]))
        \<or> (\<exists>ip g. InternalIPv6 sample_assigned = Some ip \<and> To16 ip = Some g
            \<and> IsLinkLocalUnicast (v4InV6Prefix @ [10, 0, 0, 7]) \<and> drop 8 (v4InV6Prefix @ [10, 0, 0, 7]) = drop 8 g))"
proof -
  have c: "compareIP (v4InV6Prefix @ [10, 0, 0, 7]) (v4InV6Prefix @ [10, 0, 0, 7]) \<le> 0"
    by (simp add: compareIP_def v4InV6Prefix_def)
  then have "valid_TS [sample_selector]"
    by (simp add: valid_TS_def valid_selector_def sample_selector_def valid_addr_def)
  then have parse: "ParseTS (TS_octets [sample_selector]) = Inr [sample_selector]" by (rule ParseTS_octets)
  have valid: "validateTrafficSelectors [sample_selector] [sample_selector] sample_assigned = Inr ()"
    by (simp add: validateTrafficSelectors_def checkTSi_def checkTSr_def cesCheckSelector_def sample_selector_def
          sample_assigned_def IPEqual_def)
  have mem: "sample_selector \<in> set [sample_selector]" by simp
  have adm: "in_selector sample_selector (v4InV6Prefix @ [10, 0, 0, 7])"
    using c by (simp add: in_selector_def sample_selector_def)
  show ?thesis
    by (rule exI [of _ "TS_octets [sample_selector]"])
       (intro conjI parse valid adm selectors_admit_assigned [OF parse valid mem adm])
qed

text \<open>C36: the configuration a gateway assigns reaches the client: encoding an address
  assignment (an IPv4 and an IPv6 address, DNS servers, a lease time) as the attributes of
  a CFG_REPLY or CFG_SET payload and decoding the payload body gives the assignment back,
  and the mask marks exactly the categories that were present.\<close>

theorem assigned_round_trip:
  assumes "wf_assigned a" "k \<in> {ConfigTypeReply, ConfigTypeSet}"
  shows "bind_res (AppendConfigPayload [] \<lparr> Kind = k, Attributes = config_attrs a \<rparr>) cesDecodeAssigned = Inr a
    \<and> cesDecodeAssignedCP \<lparr> Kind = k, Attributes = config_attrs a \<rparr> = Inr (a, config_mask a)"
proof -
  let ?cp = "\<lparr> Kind = k, Attributes = config_attrs a \<rparr>"
  have "\<forall>x \<in> set (config_attrs a). valid_attribute x"
    using assms(1) by (auto simp: config_attrs_def valid_attribute_def wf_assigned_def v4_mapped_def list_all_iff
        split: option.splits)
  then have "valid_CP ?cp" using assms(2) by (auto simp: valid_CP_def)
  then have "AppendConfigPayload [] ?cp = Inr (CP_octets ?cp)" "ParseConfigPayload (CP_octets ?cp) = Inr ?cp"
    using cp_codec.app_octets [of ?cp "[]"] cp_codec.parse_octets [of ?cp] by simp_all
  moreover have "cesDecodeAssignedCP ?cp = Inr (a, config_mask a)"
    using decode_config_attrs [OF assms(1)] by (simp add: cesDecodeAssignedCP_def)
  ultimately show ?thesis using assms(2) by (auto simp: cesDecodeAssigned_def)
qed

theorem assigned_round_trip_witness:
  "wf_assigned sample_assigned \<and>
   bind_res (AppendConfigPayload [] \<lparr> Kind = ConfigTypeReply, Attributes = config_attrs sample_assigned \<rparr>) cesDecodeAssigned
     = Inr sample_assigned"
proof
  show wf: "wf_assigned sample_assigned" by (simp add: wf_assigned_def sample_assigned_def v4_mapped_def)
  show "bind_res (AppendConfigPayload [] \<lparr> Kind = ConfigTypeReply, Attributes = config_attrs sample_assigned \<rparr>) cesDecodeAssigned
     = Inr sample_assigned"
    using assigned_round_trip [OF wf, of ConfigTypeReply] by simp
qed

end
