(* ===== verification/Control_SaInit.thy ===== *)
theory Control_SaInit
  imports Control_Child
begin

text \<open>
  The IKE_SA_INIT stage of the handshake (\<^verbatim>\<open>src/control/sa_init.go\<close>): the
  request with its proposals, key share, nonce and notifies, the response with
  the COOKIE and INVALID_KE_PAYLOAD retries, the decoding of the selected IKE
  proposal, NAT detection and the derivation of the IKE keys.

  A function that changes the state returns the changed state also when it
  fails, as the pointer receiver of the code does. The outcomes of the three
  random reads of a request are the fields of a record.

  The lemmas show what a responder reads from a request, that a retry repeats
  SPI and nonce, that an accepted response selects offered algorithms, and what the
  key derivation leaves in the state.
\<close>

section \<open>Constants\<close>

abbreviation (input) "MaxSAInitAttempts \<equiv> (3::nat)"

datatype SAInitOutcome = SAInitEstablished | SAInitRetryCookie | SAInitRetryDHGroup

abbreviation (input) "NotifyInvalidKePayload \<equiv> (17::16 word)"
abbreviation (input) "NotifyNATDetectionSourceIP \<equiv> (16388::16 word)"
abbreviation (input) "NotifyNATDetectionDestinationIP \<equiv> (16389::16 word)"
abbreviation (input) "NotifyCookie \<equiv> (16390::16 word)"
abbreviation (input) "NotifyFragmentationSupported \<equiv> (16430::16 word)"
abbreviation (input) "NotifySignatureHashAlgorithms \<equiv> (16431::16 word)"

definition signatureHashAlgorithmsNotify :: bytes where
  "signatureHashAlgorithmsNotify = [0x00, 0x02, 0x00, 0x03, 0x00, 0x04]"

section \<open>The local proposal\<close>

definition selectIKESuite :: "Config \<Rightarrow> 16 word \<Rightarrow> (XProposal \<times> Selection) res" where
  "selectIKESuite cfg forcedDHGroup =
    (if CfgIKE cfg = [] then Inl (Errorf ''control: IKE proposals are required'')
     else
       case (if forcedDHGroup \<noteq> 0 then find (\<lambda>suite. forcedDHGroup \<in> set (XDH suite)) (CfgIKE cfg)
             else Some (hd (CfgIKE cfg))) of
         None \<Rightarrow> Inl (Errorf ''control: peer requested unsupported DH group'')
       | Some suite \<Rightarrow>
           bind_res (wrap_err ''control: select IKE proposal'' (Select suite (Some suite))) (\<lambda>selection.
             Inr (suite, selection)))"

text \<open>The transforms of one suite, and the proposals numbered from 1.\<close>

definition ikeSuiteTransforms :: "XProposal \<Rightarrow> Transform list res" where
  "ikeSuiteTransforms suite =
    bind_res (encTransforms (XEncryption suite)) (\<lambda>ts.
      Inr (ts @ map (plainTransform TransformPRF) (XPRF suite)
        @ (if cesEncryptionListIsAEAD (XEncryption suite) then [] else map (plainTransform TransformINTEG) (XIntegrity suite))
        @ map (plainTransform TransformDH) (XDH suite)))"

fun ikeProposals :: "nat \<Rightarrow> XProposal list \<Rightarrow> SA res" where
  "ikeProposals num [] = Inr []"
| "ikeProposals num (suite # suites) =
     bind_res (ikeSuiteTransforms suite) (\<lambda>ts.
     bind_res (ikeProposals (num + 1) suites) (\<lambda>ps.
       Inr (\<lparr> Num = word_of_nat (num + 1), PropProtocolID = DeleteProtocolIKE, PropSPI = [], Transforms = ts \<rparr> # ps)))"

definition appendIKEProposals :: "Config \<Rightarrow> bytes \<Rightarrow> bytes res" where
  "appendIKEProposals cfg dst =
    (if CfgIKE cfg = [] then Inl (Errorf ''control: IKE proposals are required'')
     else bind_res (ikeProposals 0 (CfgIKE cfg)) (AppendSA dst))"

section \<open>The request\<close>

definition localNATHashes :: "Config \<Rightarrow> State \<Rightarrow> 64 word \<Rightarrow> (bytes \<times> bytes) res" where
  "localNATHashes cfg s responderSPI =
    (let localIP = (if LocalIP cfg = [] then IPv4 0 0 0 0 else LocalIP cfg) in
     bind_res (wrap_err ''control: compute NAT-D source hash''
         (NatDetectionHash (SInitiatorSPI s) responderSPI localIP (word_of_int LogicalNatTPort))) (\<lambda>src.
     bind_res (wrap_err ''control: compute NAT-D destination hash''
         (NatDetectionHash (SInitiatorSPI s) responderSPI (PeerIP cfg) (word_of_int LogicalNatTPort))) (\<lambda>dst.
       Inr (src, dst))))"

definition statusNotify :: "16 word \<Rightarrow> bytes \<Rightarrow> bytes res" where
  "statusNotify t data = AppendNotify [] \<lparr> NotProtocolID = NotifyProtocolNone, NotSPI = [], NotType = t, NotData = data \<rparr>"

fun pushNotifies :: "Builder \<Rightarrow> (16 word \<times> bytes) list \<Rightarrow> Builder res" where
  "pushNotifies b [] = Inr b"
| "pushNotifies b ((t, data) # ns) =
     bind_res (statusNotify t data) (\<lambda>body.
     bind_res (Push b PayloadTypeNotify False body) (\<lambda>b. pushNotifies b ns))"

definition saInitHeader :: "State \<Rightarrow> Header" where
  "saInitHeader s = \<lparr> InitiatorSPI = Uint64SPI (SInitiatorSPI s), ResponderSPI = replicate 8 0,
     NextPayload = PayloadTypeNone, Version = IKEDefaultVersion, ExchangeTyp = ExchangeIkeSAInit,
     HFlags = FlagInitiator, MessageID = 0, Length = 0 \<rparr>"

definition buildSAInitPacket :: "Config \<Rightarrow> State \<Rightarrow> bytes res" where
  "buildSAInitPacket cfg s =
    bind_res (pushNotifies (NewBuilder (saInitHeader s)) (if Cookie s \<noteq> [] then [(NotifyCookie, Cookie s)] else [])) (\<lambda>b.
    bind_res (appendIKEProposals cfg []) (\<lambda>saBody.
    bind_res (Push b PayloadTypeSA False saBody) (\<lambda>b.
    bind_res (Push b PayloadTypeKE False (AppendKE [] (InitiatorKE s))) (\<lambda>b.
    bind_res (Push b PayloadTypeNonce False (AppendNonce [] (InitiatorNonce s))) (\<lambda>b.
    bind_res (pushNotifies b
      [(NotifyNATDetectionSourceIP, SourceHashLocal (NAT s)),
       (NotifyNATDetectionDestinationIP, DestinationHashLocal (NAT s)),
       (NotifyFragmentationSupported, []),
       (NotifySignatureHashAlgorithms, signatureHashAlgorithmsNotify)]) (\<lambda>b.
    Inr (Finish b)))))))"

record SAInitRandom =
  rndSPI :: "bytes res"
  rndNonce :: "bytes res"
  rndDH :: "bytes res"

definition buildSAInitRequest :: "SAInitRandom \<Rightarrow> Config \<Rightarrow> 16 word \<Rightarrow> State \<Rightarrow> State \<times> Frame list res" where
  "buildSAInitRequest rnd cfg forcedDHGroup s =
    (case selectIKESuite cfg forcedDHGroup of
       Inl e \<Rightarrow> (s, Inl e)
     | Inr (suite, selection) \<Rightarrow>
         let s = s\<lparr> SelectedIKE := Some selection \<rparr> in
     (case (if SInitiatorSPI s = 0 then wrap_err ''control: generate initiator SPI'' (GenerateSPI (rndSPI rnd))
            else Inr (SInitiatorSPI s)) of
       Inl e \<Rightarrow> (s, Inl e)
     | Inr spi \<Rightarrow>
         let s = s\<lparr> SInitiatorSPI := spi \<rparr> in
     (case (if InitiatorNonce s = [] then wrap_err ''control: generate initiator nonce'' (GenerateNonce (rndNonce rnd) 32)
            else Inr (InitiatorNonce s)) of
       Inl e \<Rightarrow> (s, Inl e)
     | Inr ni \<Rightarrow>
         let s = s\<lparr> InitiatorNonce := ni \<rparr> in
     (case wrap_err ''control: generate local KE'' (GenerateDH (rndDH rnd) (DHTransformID (SelDH selection))) of
       Inl e \<Rightarrow> (s, Inl e)
     | Inr dh \<Rightarrow>
     (case wrap_err ''control: encode local KE'' (PublicBytes dh) of
       Inl e \<Rightarrow> (s, Inl e)
     | Inr pub \<Rightarrow>
         let s = s\<lparr> LocalDH := Some dh,
                    InitiatorKE := \<lparr> DHGroup = DHTransformID (SelDH selection), KEData = pub \<rparr> \<rparr> in
     (case localNATHashes cfg s 0 of
       Inl e \<Rightarrow> (s, Inl e)
     | Inr (srcHash, dstHash) \<Rightarrow>
         let s = s\<lparr> NAT := (NAT s)\<lparr> SourceHashLocal := srcHash, DestinationHashLocal := dstHash \<rparr> \<rparr> in
     (case buildSAInitPacket cfg s of
       Inl e \<Rightarrow> (s, Inl e)
     | Inr pkt \<Rightarrow>
         (s\<lparr> SAInitRequest := pkt \<rparr>, Inr [\<lparr> FKind = KindIKE, FPayload = pkt, Frelease = False \<rparr>]))))))))"

section \<open>The selected proposal\<close>

fun scanIKETransforms :: "Transform list \<Rightarrow> XProposal \<Rightarrow> XProposal res" where
  "scanIKETransforms [] remote = Inr remote"
| "scanIKETransforms (t # ts) remote =
    (if TType t = TransformENC then
       bind_res (wrap_err ''control: selected encryption transform'' (ParseKeyLengthAttr (TAttrs t))) (\<lambda>bits.
         if bits = 0 \<or> bits mod 8 \<noteq> 0 then Inl (Errorf ''control: invalid selected encryption key length'')
         else scanIKETransforms ts (remote\<lparr> XEncryption := XEncryption remote @ [\<lparr> EIDTransformID = TID t, EIDKeyLen = bits div 8 \<rparr>] \<rparr>))
     else if TType t = TransformINTEG then
       if length (TAttrs t) \<noteq> 0 then Inl (Errorf ''control: unexpected integrity attributes in selected IKE proposal'')
       else scanIKETransforms ts (remote\<lparr> XIntegrity := XIntegrity remote @ [TID t] \<rparr>)
     else if TType t = TransformPRF then
       if length (TAttrs t) \<noteq> 0 then Inl (Errorf ''control: unexpected PRF attributes in selected IKE proposal'')
       else scanIKETransforms ts (remote\<lparr> XPRF := XPRF remote @ [TID t] \<rparr>)
     else if TType t = TransformDH then
       if length (TAttrs t) \<noteq> 0 then Inl (Errorf ''control: unexpected DH attributes in selected IKE proposal'')
       else scanIKETransforms ts (remote\<lparr> XDH := XDH remote @ [TID t] \<rparr>)
     else if TType t = TransformESN then Inl (Errorf ''control: unexpected ESN transform in selected IKE proposal'')
     else Inl (Errorf ''control: unexpected transform type in selected IKE proposal''))"

definition selectionMatchesIKE :: "Selection \<Rightarrow> XProposal \<Rightarrow> bool" where
  "selectionMatchesIKE sel remote =
    (let enc = XEncryption remote ! 0 in
     if EncTransformID (SelEncryption sel) \<noteq> EIDTransformID enc
        \<or> TransformKeyLen (SelEncryption sel) \<noteq> unat (EIDKeyLen enc) then False
     else if AEAD (SelEncryption sel) \<and> length (XIntegrity remote) \<noteq> 0 then False
     else if \<not> AEAD (SelEncryption sel)
        \<and> (length (XIntegrity remote) \<noteq> 1 \<or> IntegTransformID (SelIntegrity sel) \<noteq> XIntegrity remote ! 0) then False
     else PRFTransformID (SelPRF sel) = XPRF remote ! 0 \<and> DHTransformID (SelDH sel) = XDH remote ! 0)"

text \<open>The part of the two decoders after the check of the proposal header.\<close>

definition decodeIKETransforms :: "Config \<Rightarrow> Proposal \<Rightarrow> Selection res" where
  "decodeIKETransforms cfg sp =
    (let idx = uint (Num sp) - 1 in
     if idx < 0 \<or> idx \<ge> int (length (CfgIKE cfg)) then Inl (Errorf ''control: peer selected unoffered IKE proposal number'')
     else
       bind_res (scanIKETransforms (Transforms sp) \<lparr> XEncryption = [], XIntegrity = [], XPRF = [], XDH = [] \<rparr>) (\<lambda>remote.
       bind_res (wrap_err ''control: peer selected unsupported IKE proposal'' (Select (CfgIKE cfg ! nat idx) (Some remote))) (\<lambda>selection.
         if length (XEncryption remote) \<noteq> 1 \<or> length (XPRF remote) \<noteq> 1 \<or> length (XDH remote) \<noteq> 1
         then Inl (Errorf ''control: selected IKE proposal missing unique transforms'')
         else if \<not> selectionMatchesIKE selection remote
         then Inl (Errorf ''control: peer selected transforms do not match the offered IKE proposal'')
         else Inr selection)))"

definition decodeIKESelection :: "Config \<Rightarrow> SA \<Rightarrow> Selection res" where
  "decodeIKESelection cfg sa =
    (case sa of
       [] \<Rightarrow> Inl (Panic ''index out of range'')
     | sp # _ \<Rightarrow>
         if PropProtocolID sp \<noteq> DeleteProtocolIKE \<or> length (PropSPI sp) \<noteq> 0
         then Inl (Errorf ''control: invalid selected IKE proposal header'')
         else decodeIKETransforms cfg sp)"

definition decodeIKESelectionWithSPI :: "Config \<Rightarrow> SA \<Rightarrow> (64 word \<times> Selection) res" where
  "decodeIKESelectionWithSPI cfg sa =
    (case sa of
       [] \<Rightarrow> Inl (Panic ''index out of range'')
     | sp # _ \<Rightarrow>
         if PropProtocolID sp \<noteq> DeleteProtocolIKE \<or> length (PropSPI sp) \<noteq> 8
         then Inl (Errorf ''control: invalid selected IKE rekey proposal header'')
         else bind_res (decodeIKETransforms cfg sp) (\<lambda>selection. Inr (beUint64 (PropSPI sp), selection)))"

section \<open>The response\<close>

text \<open>\<^verbatim>\<open>parseSignatureHashAlgorithms\<close>: the ids of an octet string of even length.\<close>

fun hashIDs :: "bytes \<Rightarrow> 16 word list" where
  "hashIDs (x # y # r) = beUint16 [x, y] # hashIDs r"
| "hashIDs _ = []"

definition parseSignatureHashAlgorithms :: "bytes \<Rightarrow> 16 word list res" where
  "parseSignatureHashAlgorithms data =
    (if length data = 0 \<or> length data mod 2 \<noteq> 0
     then Inl (Errorf ''control: invalid SIGNATURE_HASH_ALGORITHMS notify data'')
     else Inr (hashIDs data))"

definition bytesEqual :: "bytes \<Rightarrow> bytes \<Rightarrow> bool" where
  "bytesEqual a b \<longleftrightarrow> length a = length b \<and> list_all2 (=) a b"

definition natDetected :: "Config \<Rightarrow> State \<Rightarrow> bool res" where
  "natDetected cfg s =
    bind_res (localNATHashes cfg s (SResponderSPI s)) (\<lambda>(src, dst).
      let srcMismatch = SourceHashRemote (NAT s) \<noteq> [] \<and> \<not> bytesEqual src (SourceHashRemote (NAT s));
          dstMismatch = DestinationHashRemote (NAT s) \<noteq> [] \<and> \<not> bytesEqual dst (DestinationHashRemote (NAT s)) in
      Inr (srcMismatch \<or> dstMismatch))"

text \<open>What the loop over the payloads of a response collects: \<open>siSA\<close> is \<^verbatim>\<open>saPayload\<close> once
  \<^verbatim>\<open>sawSA\<close> is set, likewise the nonce and the key exchange.\<close>

record saInitScan =
  siSA :: "SA option"
  siNonce :: "bytes option"
  siKE :: "KeyExchange option"
  siCookie :: bytes
  siInvalidKE :: bool

definition plainScope :: "Notify \<Rightarrow> bool" where
  "plainScope n \<longleftrightarrow> NotProtocolID n = NotifyProtocolNone \<and> length (NotSPI n) = 0"

definition saInitNotify :: "Notify \<Rightarrow> State \<Rightarrow> saInitScan \<Rightarrow> State \<times> saInitScan res" where
  "saInitNotify n s c =
    (if NotType n = NotifyCookie then
       if length (NotSPI n) \<noteq> 0 \<or> length (NotData n) = 0
       then (s, Inl (Errorf ''control: COOKIE notify must not carry SPI and must carry data''))
       else if siCookie c \<noteq> [] then (s, Inl (Errorf ''control: duplicate COOKIE notify''))
       else (s, Inr (c\<lparr> siCookie := NotData n \<rparr>))
     else if NotType n = NotifyInvalidKePayload then
       if \<not> plainScope n \<or> length (NotData n) \<noteq> 2
       then (s, Inl (Errorf ''control: INVALID_KE_PAYLOAD notify must use protocol 0 and carry exactly one DH group''))
       else if siInvalidKE c then (s, Inl (Errorf ''control: duplicate INVALID_KE_PAYLOAD notify''))
       else (s, Inr (c\<lparr> siInvalidKE := True \<rparr>))
     else if NotType n = NotifyNATDetectionSourceIP then
       if \<not> plainScope n
       then (s, Inl (Errorf ''control: NAT_DETECTION_SOURCE_IP must use protocol 0 and must not carry SPI''))
       else (s\<lparr> NAT := (NAT s)\<lparr> SourceHashRemote := NotData n \<rparr> \<rparr>, Inr c)
     else if NotType n = NotifyNATDetectionDestinationIP then
       if \<not> plainScope n
       then (s, Inl (Errorf ''control: NAT_DETECTION_DESTINATION_IP must use protocol 0 and must not carry SPI''))
       else (s\<lparr> NAT := (NAT s)\<lparr> DestinationHashRemote := NotData n \<rparr> \<rparr>, Inr c)
     else if NotType n = NotifyFragmentationSupported then
       if \<not> plainScope n
       then (s, Inl (Errorf ''control: FRAGMENTATION_SUPPORTED must use protocol 0 and must not carry SPI''))
       else (s\<lparr> Peer := (Peer s)\<lparr> SupportsFragmentation := True \<rparr> \<rparr>, Inr c)
     else if NotType n = NotifySignatureHashAlgorithms then
       if \<not> plainScope n
       then (s, Inl (Errorf ''control: SIGNATURE_HASH_ALGORITHMS must use protocol 0 and must not carry SPI''))
       else (case parseSignatureHashAlgorithms (NotData n) of
          Inl e \<Rightarrow> (s, Inl e)
        | Inr hashes \<Rightarrow> (s\<lparr> SAuth := (SAuth s)\<lparr> PeerSignatureHashAlgorithms := hashes \<rparr> \<rparr>, Inr c))
     else if NotType n = NotifyNoProposalChosen
     then (s, Inl (Errorf ''control: peer rejected IKE proposal (NO_PROPOSAL_CHOSEN)''))
     else if NotType n < 16384 then (s, Inl (Errorf ''control: received IKE_SA_INIT error notify''))
     else (s, Inr c))"

definition saInitPayload :: "Payload \<Rightarrow> State \<Rightarrow> saInitScan \<Rightarrow> State \<times> saInitScan res" where
  "saInitPayload p s c =
    (if PType p = PayloadTypeSA then
       if siSA c \<noteq> None then (s, Inl (Errorf ''control: duplicate SA payload in IKE_SA_INIT response''))
       else (s, bind_res (wrap_err ''control: parse IKE_SA_INIT SA'' (ParseSA (Body p))) (\<lambda>sa.
         if length sa \<noteq> 1 then Inl (Errorf ''control: IKE_SA_INIT response must contain exactly one selected proposal'')
         else Inr (c\<lparr> siSA := Some sa \<rparr>)))
     else if PType p = PayloadTypeNonce then
       if siNonce c \<noteq> None then (s, Inl (Errorf ''control: duplicate NONCE payload in IKE_SA_INIT response''))
       else (s, bind_res (wrap_err ''control: parse IKE_SA_INIT nonce'' (ParseNonce (Body p))) (\<lambda>n.
         Inr (c\<lparr> siNonce := Some n \<rparr>)))
     else if PType p = PayloadTypeKE then
       if siKE c \<noteq> None then (s, Inl (Errorf ''control: duplicate KEE payload in IKE_SA_INIT response''))
       else (s, bind_res (wrap_err ''control: parse IKE_SA_INIT KE'' (ParseKE (Body p))) (\<lambda>k.
         Inr (c\<lparr> siKE := Some k \<rparr>)))
     else if PType p = PayloadTypeNotify then
       (case wrap_err ''control: parse IKE_SA_INIT notify'' (ParseNotify (Body p)) of
          Inl e \<Rightarrow> (s, Inl e)
        | Inr n \<Rightarrow> saInitNotify n s c)
     else (s, Inr c))"

fun saInitPayloads :: "Payload list \<Rightarrow> State \<Rightarrow> saInitScan \<Rightarrow> State \<times> saInitScan res" where
  "saInitPayloads [] s c = (s, Inr c)"
| "saInitPayloads (p # ps) s c =
    (case saInitPayload p s c of
       (s, Inl e) \<Rightarrow> (s, Inl e)
     | (s, Inr c) \<Rightarrow> saInitPayloads ps s c)"

text \<open>The decision after the loop.\<close>

definition saInitFinish :: "Config \<Rightarrow> 64 word \<Rightarrow> State \<Rightarrow> saInitScan \<Rightarrow> State \<times> SAInitOutcome res" where
  "saInitFinish cfg responderSPI s c =
    (if siCookie c \<noteq> [] \<or> siInvalidKE c then
       if siCookie c \<noteq> [] \<and> siInvalidKE c
       then (s, Inl (Errorf ''control: COOKIE and INVALID_KE_PAYLOAD cannot both require a retry''))
       else if siSA c \<noteq> None \<or> siKE c \<noteq> None \<or> siNonce c \<noteq> None
       then (s, Inl (Errorf ''control: retry IKE_SA_INIT response must not include SA/KE/NONCE''))
       else if siCookie c \<noteq> [] then (s\<lparr> Cookie := siCookie c \<rparr>, Inr SAInitRetryCookie)
       else (s\<lparr> Cookie := [] \<rparr>, Inr SAInitRetryDHGroup)
     else case siSA c of
       None \<Rightarrow> (s, Inl (Errorf ''control: IKE_SA_INIT response missing SA payload''))
     | Some sa \<Rightarrow>
         if responderSPI = 0
         then (s, Inl (Errorf ''control: IKE_SA_INIT response without responder SPI did not request COOKIE/INVALID_KE_PAYLOAD''))
         else case siNonce c of
           None \<Rightarrow> (s, Inl (Errorf ''control: IKE_SA_INIT response missing Nr''))
         | Some nonce \<Rightarrow> (case siKE c of
           None \<Rightarrow> (s, Inl (Errorf ''control: IKE_SA_INIT response missing KE''))
         | Some ke \<Rightarrow> (case decodeIKESelection cfg sa of
           Inl e \<Rightarrow> (s, Inl e)
         | Inr selection \<Rightarrow>
             let s = s\<lparr> Cookie := [], SelectedIKE := Some selection, SResponderSPI := responderSPI,
                        ResponderNonce := nonce, ResponderKE := ke \<rparr> in
             (case natDetected cfg s of
                Inl e \<Rightarrow> (s, Inl e)
              | Inr detected \<Rightarrow> (s\<lparr> NAT := (NAT s)\<lparr> Detected := detected \<rparr> \<rparr>, Inr SAInitEstablished)))))"

definition noPeer :: PeerCapabilities where
  "noPeer = \<lparr> SupportsEAPOnlyAuthentication = False, SupportsMessageIDSync = False, SupportsFragmentation = False \<rparr>"

definition applySAInitResponse :: "Config \<Rightarrow> Message \<Rightarrow> State \<Rightarrow> State \<times> SAInitOutcome res" where
  "applySAInitResponse cfg m s =
    (let responderSPI = Uint64 (ResponderSPI (MHeader m)) in
     if responderSPI = 0 \<and> (Payloads m = [] \<or> PType (hd (Payloads m)) \<noteq> PayloadTypeNotify)
     then (s, Inl (Errorf ''control: IKE_SA_INIT without responder SPI must start with a NOTIFY''))
     else
       let s = s\<lparr> NAT := (NAT s)\<lparr> SourceHashRemote := [], DestinationHashRemote := [] \<rparr>, Peer := noPeer \<rparr> in
       case saInitPayloads (Payloads m) s \<lparr> siSA = None, siNonce = None, siKE = None, siCookie = [], siInvalidKE = False \<rparr> of
         (s, Inl e) \<Rightarrow> (s, Inl e)
       | (s, Inr c) \<Rightarrow> saInitFinish cfg responderSPI s c)"

fun invalidKELoop :: "Payload list \<Rightarrow> (16 word) option" where
  "invalidKELoop [] = None"
| "invalidKELoop (p # ps) =
    (if PType p \<noteq> PayloadTypeNotify then invalidKELoop ps
     else case ParseNotify (Body p) of
       Inl _ \<Rightarrow> invalidKELoop ps
     | Inr n \<Rightarrow>
         if NotType n \<noteq> NotifyInvalidKePayload \<or> length (NotData n) \<noteq> 2 then invalidKELoop ps
         else Some (beUint16 (NotData n)))"

definition invalidKEDHGroup :: "Message option \<Rightarrow> 16 word \<times> bool" where
  "invalidKEDHGroup m =
    (case m of None \<Rightarrow> (0, False)
     | Some m \<Rightarrow> (case invalidKELoop (Payloads m) of None \<Rightarrow> (0, False) | Some g \<Rightarrow> (g, True)))"

section \<open>Keys\<close>

definition recordResponseCheckpoint :: "Packet option \<Rightarrow> State \<Rightarrow> State" where
  "recordResponseCheckpoint pkt s = (case pkt of None \<Rightarrow> s | Some p \<Rightarrow> s\<lparr> SAInitResponse := PPayload p \<rparr>)"

definition deriveIKEKeys :: "State \<Rightarrow> State \<times> unit res" where
  "deriveIKEKeys s =
    (case LocalDH s of
       None \<Rightarrow> (s, Inl (Errorf ''control: missing local DH keypair''))
     | Some dh \<Rightarrow>
     (case SelectedIKE s of
       None \<Rightarrow> (s, Inl (Errorf ''control: missing IKE selection''))
     | Some sel \<Rightarrow>
         if SIKEKeys s \<noteq> None then (s, Inl (Errorf ''control: missing IKE selection''))
         else if InitiatorNonce s = [] \<or> ResponderNonce s = [] \<or> KEData (ResponderKE s) = []
         then (s, Inl (Errorf ''control: IKE_SA_INIT is incomplete''))
         else
           let shared = fst (ECDH dh (KEData (ResponderKE s)));
               s = s\<lparr> LocalDH := None \<rparr> in
           (case bind_res (wrap_err ''control: derive DH shared secret'' shared) (\<lambda>shared.
                 bind_res (wrap_err ''control: derive SKEYSEED''
                     (SKEYSEED (SelPRF sel) (InitiatorNonce s) (ResponderNonce s) shared)) (\<lambda>skeyseed.
                   wrap_err ''control: derive IKE keys''
                     (DeriveIKEKeys (SelPRF sel) skeyseed (InitiatorNonce s) (ResponderNonce s)
                        (SInitiatorSPI s) (SResponderSPI s) (SelEncryption sel) (Some (SelIntegrity sel))))) of
              Inl e \<Rightarrow> (s, Inl e)
            | Inr keys \<Rightarrow> (s\<lparr> SIKEKeys := Some keys \<rparr>, Inr ()))))"

section \<open>Lemmas: the request\<close>

definition notify_part :: "16 word \<times> bytes \<Rightarrow> PayloadType \<times> bool \<times> bytes" where
  "notify_part = (\<lambda>(t, data). (PayloadTypeNotify, False,
     Notify_octets \<lparr> NotProtocolID = NotifyProtocolNone, NotSPI = [], NotType = t, NotData = data \<rparr>))"

lemma statusNotify_octets:
  "statusNotify t data = Inr (Notify_octets \<lparr> NotProtocolID = NotifyProtocolNone, NotSPI = [], NotType = t, NotData = data \<rparr>)"
  unfolding statusNotify_def by (subst notify_codec.app_octets) (simp_all add: valid_Notify_def)

lemma ParseNotify_status:
  "ParseNotify (Notify_octets \<lparr> NotProtocolID = NotifyProtocolNone, NotSPI = [], NotType = t, NotData = data \<rparr>)
     = Inr \<lparr> NotProtocolID = NotifyProtocolNone, NotSPI = [], NotType = t, NotData = data \<rparr>"
  by (rule notify_codec.parse_octets) (simp add: valid_Notify_def)

lemma pushNotifies_PushAll: "pushNotifies b ns = PushAll b (map notify_part ns)"
  by (induction b ns rule: pushNotifies.induct) (simp_all add: statusNotify_octets notify_part_def cong: bind_res_cong)

lemma PushAll_append: "PushAll b (xs @ ys) = bind_res (PushAll b xs) (\<lambda>b. PushAll b ys)"
  by (induction b xs rule: PushAll.induct) (simp_all add: bind_res_assoc cong: bind_res_cong)

definition saInitParts :: "State \<Rightarrow> bytes \<Rightarrow> (PayloadType \<times> bool \<times> bytes) list" where
  "saInitParts s saBody =
     map notify_part (if Cookie s \<noteq> [] then [(NotifyCookie, Cookie s)] else [])
     @ [(PayloadTypeSA, False, saBody), (PayloadTypeKE, False, AppendKE [] (InitiatorKE s)),
        (PayloadTypeNonce, False, InitiatorNonce s)]
     @ map notify_part
        [(NotifyNATDetectionSourceIP, SourceHashLocal (NAT s)), (NotifyNATDetectionDestinationIP, DestinationHashLocal (NAT s)),
         (NotifyFragmentationSupported, []), (NotifySignatureHashAlgorithms, signatureHashAlgorithmsNotify)]"

lemma buildSAInitPacket_parts:
  assumes "appendIKEProposals cfg [] = Inr saBody"
  shows "buildSAInitPacket cfg s = bind_res (PushAll (NewBuilder (saInitHeader s)) (saInitParts s saBody)) (\<lambda>b. Inr (Finish b))"
  by (simp add: buildSAInitPacket_def assms saInitParts_def pushNotifies_PushAll PushAll_append bind_res_assoc AppendNonce_def)

lemma buildSAInitPacket_ok:
  assumes "buildSAInitPacket cfg s = Inr pkt"
  obtains saBody b where "appendIKEProposals cfg [] = Inr saBody"
    "PushAll (NewBuilder (saInitHeader s)) (saInitParts s saBody) = Inr b" "pkt = Finish b"
proof -
  obtain saBody where sa: "appendIKEProposals cfg [] = Inr saBody"
    using assms by (auto simp: buildSAInitPacket_def)
  then show thesis using assms that by (auto simp: buildSAInitPacket_parts)
qed

lemma saInitPacket_message:
  assumes "buildSAInitPacket cfg s = Inr pkt"
  obtains saBody len where "appendIKEProposals cfg [] = Inr saBody"
    "ParseMessage pkt = Inr \<lparr> MHeader = (saInitHeader s)\<lparr> NextPayload := chain_first (saInitParts s saBody) 0, Length := len \<rparr>,
       Payloads = chain_payloads (saInitParts s saBody) 0, Encrypted = None \<rparr>"
  using assms
proof (rule buildSAInitPacket_ok)
  fix saBody b
  assume b: "appendIKEProposals cfg [] = Inr saBody"
    "PushAll (NewBuilder (saInitHeader s)) (saInitParts s saBody) = Inr b" "pkt = Finish b"
  have h: "wf_header (saInitHeader s)" "Version (saInitHeader s) = IKEDefaultVersion"
    "HFlags (saInitHeader s) AND NOT flagsMask = 0"
    by (simp_all add: wf_header_def saInitHeader_def Uint64SPI_def putUint64_zeros flagsMask_def)
  have "\<forall>(t, c, body) \<in> set (saInitParts s saBody). t \<noteq> PayloadTypeSK \<and> t \<noteq> PayloadTypeSKF"
    by (auto simp: saInitParts_def notify_part_def)
  from ParseMessage_chain [OF h b(2) this] show thesis using that b by blast
qed

text \<open>Proposals of suites with a DH group fit the wire when they could be encoded.\<close>

lemma AppendProposal_valid:
  "AppendProposal dst p b = Inr out \<Longrightarrow> Transforms p \<noteq> [] \<Longrightarrow> valid_proposal p"
  by (auto simp: AppendProposal_def valid_proposal_def Let_def split: if_splits)

lemma AppendSA_valid:
  "AppendSA dst sa = Inr out \<Longrightarrow> \<forall>p \<in> set sa. Transforms p \<noteq> [] \<Longrightarrow> \<forall>p \<in> set sa. valid_proposal p"
  by (induction dst sa rule: AppendSA.induct) (auto dest: AppendProposal_valid)

lemma ikeProposals_transforms:
  "ikeProposals n suites = Inr sa \<Longrightarrow> \<forall>p \<in> set suites. XDH p \<noteq> []
   \<Longrightarrow> (\<forall>p \<in> set sa. Transforms p \<noteq> []) \<and> length sa = length suites"
  by (induction n suites arbitrary: sa rule: ikeProposals.induct) (auto simp: ikeSuiteTransforms_def)

lemma appendIKEProposals_parse:
  assumes "appendIKEProposals cfg [] = Inr body" "\<forall>p \<in> set (CfgIKE cfg). XDH p \<noteq> []"
  shows "\<exists>sa. ParseSA body = Inr sa \<and> ikeProposals 0 (CfgIKE cfg) = Inr sa"
proof -
  obtain sa where sa: "ikeProposals 0 (CfgIKE cfg) = Inr sa" "AppendSA [] sa = Inr body" "CfgIKE cfg \<noteq> []"
    using assms(1) by (auto simp: appendIKEProposals_def split: if_splits)
  note ts = ikeProposals_transforms [OF sa(1) assms(2)]
  have "sa \<noteq> []" using ts sa(3) by auto
  then have "valid_SA sa" using AppendSA_valid [OF sa(2)] ts by (simp add: valid_SA_def)
  then have "body = SA_octets sa" "ParseSA (SA_octets sa) = Inr sa"
    using sa_codec.app_octets [of sa "[]"] sa_codec.parse_octets [of sa] sa(2) by simp_all
  then show ?thesis using sa(1) by simp
qed

lemma single: "length xs = 1 \<Longrightarrow> xs = [xs ! 0]"
  by (cases xs) auto

text \<open>The algorithms \<open>sel\<close> are those of the suite whose number the proposal \<open>sp\<close> carries and
  the only ones \<open>sp\<close> lists.\<close>

definition ike_choice :: "Config \<Rightarrow> Proposal \<Rightarrow> Selection \<Rightarrow> bool" where
  "ike_choice cfg sp sel \<longleftrightarrow> (\<exists>suite remote. 1 \<le> unat (Num sp) \<and> unat (Num sp) \<le> length (CfgIKE cfg)
    \<and> suite = CfgIKE cfg ! (unat (Num sp) - 1)
    \<and> scanIKETransforms (Transforms sp) \<lparr> XEncryption = [], XIntegrity = [], XPRF = [], XDH = [] \<rparr> = Inr remote
    \<and> (\<exists>e. XEncryption remote = [e] \<and> e \<in> set (XEncryption suite)
          \<and> NewEncryption (EIDTransformID e) (EIDKeyLen e) = Inr (SelEncryption sel))
    \<and> XPRF remote = [PRFTransformID (SelPRF sel)]
    \<and> XDH remote = [DHTransformID (SelDH sel)] \<and> DHTransformID (SelDH sel) \<in> set (XDH suite)
    \<and> (if AEAD (SelEncryption sel) then XIntegrity remote = []
       else XIntegrity remote = [IntegTransformID (SelIntegrity sel)]
            \<and> IntegTransformID (SelIntegrity sel) \<in> set (XIntegrity suite)))"

lemma decodeIKETransforms_ok:
  assumes "decodeIKETransforms cfg sp = Inr sel"
  shows "ike_choice cfg sp sel"
proof -
  let ?idx = "uint (Num sp) - 1" and ?c0 = "\<lparr> XEncryption = [], XIntegrity = [], XPRF = [], XDH = [] \<rparr>"
  obtain remote where r: "scanIKETransforms (Transforms sp) ?c0 = Inr remote"
    "Select (CfgIKE cfg ! nat ?idx) (Some remote) = Inr sel" "0 \<le> ?idx" "?idx < int (length (CfgIKE cfg))"
    "length (XEncryption remote) = 1" "length (XPRF remote) = 1" "length (XDH remote) = 1"
    "selectionMatchesIKE sel remote"
    using assms by (auto simp: decodeIKETransforms_def Let_def not_less not_le split: if_splits)
  have num: "nat ?idx = unat (Num sp) - 1" "1 \<le> unat (Num sp)" "unat (Num sp) \<le> length (CfgIKE cfg)"
    using r(3,4) unfolding uint_nat by linarith+
  define suite where "suite = CfgIKE cfg ! (unat (Num sp) - 1)"
  note common = Select_sound [OF r(2), unfolded num(1), folded suite_def]
  have m: "PRFTransformID (SelPRF sel) = XPRF remote ! 0" "DHTransformID (SelDH sel) = XDH remote ! 0"
    "if AEAD (SelEncryption sel) then XIntegrity remote = []
     else XIntegrity remote = [IntegTransformID (SelIntegrity sel)]"
    using r(8) single [of "XIntegrity remote"]
    by (auto simp: selectionMatchesIKE_def Let_def split: if_splits)
  obtain e where e: "e \<in> set (XEncryption suite)" "e \<in> set (XEncryption remote)"
    "NewEncryption (EIDTransformID e) (EIDKeyLen e) = Inr (SelEncryption sel)"
    using common by (metis in_set_conv_decomp option.inject)
  have "XEncryption remote = [e]" using e(2) single [OF r(5)] by (metis empty_set list.simps(15) singletonD)
  moreover have "DHTransformID (SelDH sel) \<in> set (XDH suite)" using common by auto
  moreover have "if AEAD (SelEncryption sel) then XIntegrity remote = []
       else XIntegrity remote = [IntegTransformID (SelIntegrity sel)]
            \<and> IntegTransformID (SelIntegrity sel) \<in> set (XIntegrity suite)"
    using m(3) common by auto
  ultimately show ?thesis using r(1) num e single [OF r(6)] single [OF r(7)] m(1,2) suite_def
    unfolding ike_choice_def by metis
qed

text \<open>What building a request does to the state.\<close>

lemma buildSAInitRequest_ok:
  assumes "buildSAInitRequest rnd cfg g s = (s', Inr fs)"
  obtains pkt where "fs = [\<lparr> FKind = KindIKE, FPayload = pkt, Frelease = False \<rparr>]" "SAInitRequest s' = pkt"
    "buildSAInitPacket cfg s' = Inr pkt" "Cookie s' = Cookie s"
    "SInitiatorSPI s \<noteq> 0 \<Longrightarrow> SInitiatorSPI s' = SInitiatorSPI s"
    "InitiatorNonce s \<noteq> [] \<Longrightarrow> InitiatorNonce s' = InitiatorNonce s"
    "KEData (InitiatorKE s') \<noteq> []"
proof -
  let ?s5 = "\<lambda>sel spi ni dh pub src dst. s\<lparr> SelectedIKE := Some sel, SInitiatorSPI := spi, InitiatorNonce := ni, LocalDH := Some dh,
     InitiatorKE := \<lparr> DHGroup = DHTransformID (SelDH sel), KEData = pub \<rparr>,
     NAT := (NAT s)\<lparr> SourceHashLocal := src, DestinationHashLocal := dst \<rparr> \<rparr>"
  obtain sel spi ni dh pub src dst pkt where st: "SInitiatorSPI s \<noteq> 0 \<longrightarrow> spi = SInitiatorSPI s"
    "InitiatorNonce s \<noteq> [] \<longrightarrow> ni = InitiatorNonce s" "PublicBytes dh = Inr pub"
    "buildSAInitPacket cfg (?s5 sel spi ni dh pub src dst) = Inr pkt"
    "s' = (?s5 sel spi ni dh pub src dst)\<lparr> SAInitRequest := pkt \<rparr>" "fs = [\<lparr> FKind = KindIKE, FPayload = pkt, Frelease = False \<rparr>]"
    using assms by (auto simp: buildSAInitRequest_def Let_def split: sum.splits if_splits)
  have "length pub = 32" using st(3) by (auto simp: PublicBytes_def split: option.splits)
  moreover have "buildSAInitPacket cfg s' = Inr pkt"
    using st(4) unfolding st(5) by (simp add: buildSAInitPacket_def saInitHeader_def cong: if_cong)
  ultimately show thesis by (intro that [of pkt]) (use st in auto)
qed

lemma PushAll_ok:
  assumes "\<forall>(t, c, body) \<in> set ps. t \<noteq> PayloadTypeNone \<and> 4 + length body \<le> 0xffff"
    and "length (bbuf b) + sum_list (map (\<lambda>(t, c, body). 4 + length body) ps) \<le> 0xffff + HeaderLen"
  shows "is_ok (PushAll b ps)"
  using assms
proof (induction ps arbitrary: b)
  case (Cons p ps)
  obtain t c body where p: "p = (t, c, body)" by (cases p)
  obtain b' where b': "Push b t c body = Inr b'" "length (bbuf b') = length (bbuf b) + 4 + length body"
    using Cons.prems by (auto simp: p Push_def Let_def putUint16_def)
  then show ?case using Cons by (simp add: p)
qed simp

text \<open>A request is built whenever the suite, the random reads and the addresses are usable and
  the parts fit a datagram.\<close>

lemma buildSAInitRequest_succeeds:
  assumes "selectIKESuite cfg g = Inr (suite, sel)" "DHTransformID (SelDH sel) = TransformDHCurve25519"
    and "appendIKEProposals cfg [] = Inr body" "length body \<le> 1000" "length (Cookie s) \<le> 1000"
    and "rndSPI rnd = Inr rs" "rndNonce rnd = Inr rn" "rndDH rnd = Inr rd" "length rn \<le> 1000" "rn \<noteq> []"
    and "length (InitiatorNonce s) \<le> 1000" "length (PeerIP cfg) = 4" "length (LocalIP cfg) = 4"
  shows "\<exists>s' fs. buildSAInitRequest rnd cfg g s = (s', Inr fs) \<and> InitiatorNonce s' \<noteq> []"
proof -
  define spi where "spi = (if SInitiatorSPI s = 0 then (if beUint64 rs = 0 then 1 else beUint64 rs) else SInitiatorSPI s)"
  define ni where "ni = (if InitiatorNonce s = [] then rn else InitiatorNonce s)"
  define s1 where "s1 = s\<lparr> SelectedIKE := Some sel, SInitiatorSPI := spi, InitiatorNonce := ni,
     LocalDH := Some \<lparr> dhdesc = \<lparr> DHTransformID = 31, DHName = ''curve25519'' \<rparr>, dhkey = Some rd \<rparr>,
     InitiatorKE := \<lparr> DHGroup = 31, KEData = x25519_base rd \<rparr> \<rparr>"
  have "LocalIP cfg \<noteq> []" using assms(13) by auto
  then obtain src dst where nat: "localNATHashes cfg s1 0 = Inr (src, dst)" "length src = 20" "length dst = 20"
    using assms(12,13) by (auto simp: localNATHashes_def NatDetectionHash_def To4_def Let_def)
  define s2 where "s2 = s1\<lparr> NAT := (NAT s1)\<lparr> SourceHashLocal := src, DestinationHashLocal := dst \<rparr> \<rparr>"
  have len: "length (AppendKE [] (InitiatorKE s2)) = 36" "length (InitiatorNonce s2) \<le> 1000" "Cookie s2 = Cookie s"
    "length (bbuf (NewBuilder (saInitHeader s2))) = 28" "NAT s2 = (NAT s)\<lparr> SourceHashLocal := src, DestinationHashLocal := dst \<rparr>"
    using assms(9,11) by (simp_all add: s2_def s1_def AppendKE_def putUint16_def ni_def NewBuilder_def MarshalTo_def
        copy_at_def putUint32_def saInitHeader_def Uint64SPI_def putUint64_zeros)
  have "is_ok (PushAll (NewBuilder (saInitHeader s2)) (saInitParts s2 body))"
    by (rule PushAll_ok) (use len assms(4,5) nat in
        \<open>auto simp: saInitParts_def notify_part_def Notify_octets_def signatureHashAlgorithmsNotify_def\<close>)
  then obtain b where "PushAll (NewBuilder (saInitHeader s2)) (saInitParts s2 body) = Inr b" by (auto simp: is_ok_iff)
  then have "buildSAInitPacket cfg s2 = Inr (Finish b)"
    by (simp add: buildSAInitPacket_parts [OF assms(3)])
  moreover have "(if SInitiatorSPI s = 0 then wrap_err ''control: generate initiator SPI'' (GenerateSPI (rndSPI rnd))
      else Inr (SInitiatorSPI s)) = Inr spi"
    by (simp add: GenerateSPI_def assms(6) spi_def Let_def)
  moreover have "(if InitiatorNonce s = [] then wrap_err ''control: generate initiator nonce'' (GenerateNonce (rndNonce rnd) 32)
      else Inr (InitiatorNonce s)) = Inr ni"
    by (simp add: GenerateNonce_def assms(7) ni_def)
  moreover have "GenerateDH (rndDH rnd) 31 = Inr \<lparr> dhdesc = \<lparr> DHTransformID = 31, DHName = ''curve25519'' \<rparr>, dhkey = Some rd \<rparr>"
    by (simp add: GenerateDH_def newDH_def assms(8))
  ultimately have "buildSAInitRequest rnd cfg g s = (s2\<lparr> SAInitRequest := Finish b \<rparr>,
      Inr [\<lparr> FKind = KindIKE, FPayload = Finish b, Frelease = False \<rparr>])"
    using assms(1,2) nat(1)
    by (simp add: buildSAInitRequest_def Let_def PublicBytes_def s1_def s2_def cong: if_cong)
  moreover have "InitiatorNonce s2 \<noteq> []" using assms(10) by (simp add: s2_def s1_def ni_def)
  ultimately show ?thesis by simp
qed

section \<open>Lemmas: the response\<close>

lemma saInitNotify_keeps:
  assumes "saInitNotify n s c = (s', r)"
  shows "SInitiatorSPI s' = SInitiatorSPI s \<and> InitiatorNonce s' = InitiatorNonce s \<and> Cookie s' = Cookie s
    \<and> (\<forall>c'. r = Inr c' \<longrightarrow> siSA c' = siSA c \<and> siNonce c' = siNonce c \<and> siKE c' = siKE c)"
  using assms by (auto simp: saInitNotify_def split: if_splits sum.splits)

lemma saInitPayload_keeps:
  assumes "saInitPayload p s c = (s', r)"
  shows "SInitiatorSPI s' = SInitiatorSPI s \<and> InitiatorNonce s' = InitiatorNonce s \<and> Cookie s' = Cookie s"
  using assms saInitNotify_keeps [of _ s c]
  by (fastforce simp: saInitPayload_def split: if_splits sum.splits)

lemma saInitPayloads_keeps:
  "saInitPayloads ps s c = (s', r) \<Longrightarrow>
   SInitiatorSPI s' = SInitiatorSPI s \<and> InitiatorNonce s' = InitiatorNonce s \<and> Cookie s' = Cookie s"
proof (induction ps s c rule: saInitPayloads.induct)
  case (2 p ps s c)
  obtain s1 r1 where 1: "saInitPayload p s c = (s1, r1)" by fastforce
  then show ?case using 2 saInitPayload_keeps [OF 1] by (cases r1) auto
qed simp

text \<open>The cookie the loop reports comes from a COOKIE notify of the message.\<close>

lemma saInitPayload_cookie:
  assumes "saInitPayload p s c = (s', Inr c')" "siCookie c' \<noteq> siCookie c"
  shows "PType p = PayloadTypeNotify
     \<and> (\<exists>n. ParseNotify (Body p) = Inr n \<and> NotType n = NotifyCookie \<and> NotData n = siCookie c')"
proof (cases "PType p = PayloadTypeNotify")
  case True
  then obtain n where n: "ParseNotify (Body p) = Inr n" "saInitNotify n s c = (s', Inr c')"
    using assms(1) by (auto simp: saInitPayload_def split: sum.splits)
  then show ?thesis using True assms(2) by (auto simp: saInitNotify_def split: if_splits sum.splits)
next
  case False
  then show ?thesis using assms by (auto simp: saInitPayload_def split: if_splits)
qed

lemma saInitPayloads_cookie:
  "saInitPayloads ps s c = (s', Inr c') \<Longrightarrow> siCookie c' = siCookie c
     \<or> (\<exists>p \<in> set ps. PType p = PayloadTypeNotify
          \<and> (\<exists>n. ParseNotify (Body p) = Inr n \<and> NotType n = NotifyCookie \<and> NotData n = siCookie c'))"
proof (induction ps s c rule: saInitPayloads.induct)
  case (2 p ps s c)
  then obtain s1 c1 where 1: "saInitPayload p s c = (s1, Inr c1)" "saInitPayloads ps s1 c1 = (s', Inr c')"
    by (auto split: prod.splits sum.splits)
  then show ?case using 2(1) [OF 1(1) [symmetric]] saInitPayload_cookie [OF 1(1)] by fastforce
qed simp

lemma saInitFinish_retry:
  assumes "saInitFinish cfg r s c = (s', Inr SAInitRetryCookie)"
  shows "s' = s\<lparr> Cookie := siCookie c \<rparr>" "siCookie c \<noteq> []"
  using assms by (auto simp: saInitFinish_def Let_def split: if_splits option.splits sum.splits)

lemma saInitFinish_established:
  assumes "saInitFinish cfg r s c = (s', Inr SAInitEstablished)"
  obtains sa nonce ke sel d where "siSA c = Some sa" "siNonce c = Some nonce" "siKE c = Some ke"
    "decodeIKESelection cfg sa = Inr sel" "r \<noteq> 0"
    "s' = s\<lparr> Cookie := [], SelectedIKE := Some sel, SResponderSPI := r, ResponderNonce := nonce,
             ResponderKE := ke, NAT := (NAT s)\<lparr> Detected := d \<rparr> \<rparr>"
  using assms by (auto simp: saInitFinish_def Let_def split: if_splits option.splits sum.splits)

text \<open>Every collected payload is one of the message.\<close>

definition saInitFrom :: "Payload list \<Rightarrow> saInitScan \<Rightarrow> bool" where
  "saInitFrom ps c \<longleftrightarrow>
     (\<forall>sa. siSA c = Some sa \<longrightarrow> length sa = 1 \<and> (\<exists>p \<in> set ps. PType p = PayloadTypeSA \<and> ParseSA (Body p) = Inr sa))
     \<and> (\<forall>n. siNonce c = Some n \<longrightarrow> (\<exists>p \<in> set ps. PType p = PayloadTypeNonce \<and> ParseNonce (Body p) = Inr n))
     \<and> (\<forall>k. siKE c = Some k \<longrightarrow> (\<exists>p \<in> set ps. PType p = PayloadTypeKE \<and> ParseKE (Body p) = Inr k))"

lemma saInitPayload_from:
  assumes "saInitPayload p s c = (s', Inr c')" "saInitFrom ps c"
  shows "saInitFrom (ps @ [p]) c'"
proof -
  consider "PType p = PayloadTypeSA" | "PType p = PayloadTypeNonce" | "PType p = PayloadTypeKE"
    | "PType p = PayloadTypeNotify" | "c' = c"
    using assms(1) by (auto simp: saInitPayload_def split: if_splits)
  then show ?thesis
  proof cases
    case 4
    then obtain n where "saInitNotify n s c = (s', Inr c')"
      using assms(1) by (auto simp: saInitPayload_def split: sum.splits)
    then have "siSA c' = siSA c \<and> siNonce c' = siNonce c \<and> siKE c' = siKE c" using saInitNotify_keeps by blast
    then show ?thesis using assms(2) by (auto simp: saInitFrom_def)
  qed (use assms in \<open>auto simp: saInitPayload_def saInitFrom_def split: if_splits\<close>)
qed

lemma saInitPayloads_from:
  "saInitPayloads ps s c = (s', Inr c') \<Longrightarrow> saInitFrom pre c \<Longrightarrow> saInitFrom (pre @ ps) c'"
proof (induction ps arbitrary: s c pre)
  case (Cons p ps)
  then obtain s1 c1 where 1: "saInitPayload p s c = (s1, Inr c1)" "saInitPayloads ps s1 c1 = (s', Inr c')"
    by (auto split: prod.splits sum.splits)
  then show ?case using Cons.IH [OF 1(2) saInitPayload_from [OF 1(1) Cons.prems(2)]] by simp
qed simp

section \<open>Properties\<close>

text \<open>C25: a responder that parses an IKE_SA_INIT request reads what the initiator put into
  it: an initiator request with message id 0, the initiator's SPI and no responder SPI,
  carrying (after the COOKIE notify of a retry) the configured proposals in order, the key
  share, the nonce, the two NAT detection hashes, FRAGMENTATION_SUPPORTED and the
  supported signature hashes. The octets sent are the ones kept for the AUTH computation.\<close>

theorem sa_init_request_readable:
  assumes "buildSAInitRequest rnd cfg g s = (s', Inr fs)" "\<forall>p \<in> set (CfgIKE cfg). XDH p \<noteq> []"
    and "InitiatorNonce s' \<noteq> []"
  shows "\<exists>m bodies. fs = [\<lparr> FKind = KindIKE, FPayload = SAInitRequest s', Frelease = False \<rparr>]
    \<and> ParseMessage (SAInitRequest s') = Inr m
    \<and> InitiatorSPI (MHeader m) = Uint64SPI (SInitiatorSPI s') \<and> IsZero (ResponderSPI (MHeader m))
    \<and> ExchangeTyp (MHeader m) = ExchangeIkeSAInit \<and> HFlags (MHeader m) = FlagInitiator \<and> MessageID (MHeader m) = 0
    \<and> map (\<lambda>p. (PType p, Body p)) (Payloads m)
        = map (\<lambda>(t, c, b). (t, b)) (map notify_part (if Cookie s \<noteq> [] then [(NotifyCookie, Cookie s)] else []))
          @ zip [PayloadTypeSA, PayloadTypeKE, PayloadTypeNonce] bodies
          @ map (\<lambda>(t, c, b). (t, b)) (map notify_part
              [(NotifyNATDetectionSourceIP, SourceHashLocal (NAT s')),
               (NotifyNATDetectionDestinationIP, DestinationHashLocal (NAT s')), (NotifyFragmentationSupported, []),
               (NotifySignatureHashAlgorithms, signatureHashAlgorithmsNotify)])
    \<and> length bodies = 3 \<and> (\<exists>sa. ParseSA (bodies ! 0) = Inr sa \<and> ikeProposals 0 (CfgIKE cfg) = Inr sa)
    \<and> ParseKE (bodies ! 1) = Inr (InitiatorKE s') \<and> ParseNonce (bodies ! 2) = Inr (InitiatorNonce s')"
  using assms(1)
proof (rule buildSAInitRequest_ok)
  fix pkt
  assume pkt: "fs = [\<lparr> FKind = KindIKE, FPayload = pkt, Frelease = False \<rparr>]" "SAInitRequest s' = pkt"
    "buildSAInitPacket cfg s' = Inr pkt" "Cookie s' = Cookie s" "KEData (InitiatorKE s') \<noteq> []"
  obtain saBody len where m: "appendIKEProposals cfg [] = Inr saBody"
    "ParseMessage pkt = Inr \<lparr> MHeader = (saInitHeader s')\<lparr> NextPayload := chain_first (saInitParts s' saBody) 0, Length := len \<rparr>,
       Payloads = chain_payloads (saInitParts s' saBody) 0, Encrypted = None \<rparr>"
    using saInitPacket_message [OF pkt(3)] by blast
  let ?bodies = "[saBody, AppendKE [] (InitiatorKE s'), InitiatorNonce s']"
  have chain: "map (\<lambda>p. (PType p, Body p)) (chain_payloads ps l) = map (\<lambda>(t, c, b). (t, b)) ps" for ps l
    by (induction ps l rule: chain_payloads.induct) auto
  have ke: "ParseKE (AppendKE [] (InitiatorKE s')) = Inr (InitiatorKE s')"
    using ke_codec.app_octets [of "InitiatorKE s'" "[]"] ke_codec.parse_octets [of "InitiatorKE s'"] pkt(5) by simp
  have "ParseNonce (InitiatorNonce s') = Inr (InitiatorNonce s')" using assms(3) by (simp add: ParseNonce_def)
  then show ?thesis
    using pkt(1,2,4) m(2) ke appendIKEProposals_parse [OF m(1) assms(2)]
    by (intro exI [of _ "\<lparr> MHeader = (saInitHeader s')\<lparr> NextPayload := chain_first (saInitParts s' saBody) 0, Length := len \<rparr>,
           Payloads = chain_payloads (saInitParts s' saBody) 0, Encrypted = None \<rparr>"] exI [of _ ?bodies])
       (simp add: chain saInitParts_def saInitHeader_def IsZero_def)
qed

definition sample_random :: SAInitRandom where
  "sample_random = \<lparr> rndSPI = Inr (be64 5), rndNonce = Inr (replicate 32 1), rndDH = Inr (replicate 32 2) \<rparr>"

lemma sample_select: "\<exists>sel. selectIKESuite sample_config 0 = Inr (sample_proposal, sel) \<and> DHTransformID (SelDH sel) = 31"
  by (simp add: selectIKESuite_def sample_config_def Select_def sample_proposal_def NewEncryption_def NewIntegrity_def
      selectPRF_def prfMatchesIntegrity_def prfFromIntegrity_def NewPRF_def Let_def)

lemma sample_ike_body: "\<exists>body. appendIKEProposals sample_config [] = Inr body \<and> length body \<le> 1000"
proof -
  let ?p = "\<lparr> Num = 1, PropProtocolID = DeleteProtocolIKE, PropSPI = [],
     Transforms = [\<lparr> TType = TransformENC, TID = 12, TAttrs = KeyLengthAttr 256 \<rparr>, plainTransform TransformPRF 5,
       plainTransform TransformINTEG 12, plainTransform TransformDH 31] \<rparr>"
  have "length (KeyLengthAttr 256) = 4" by (simp add: KeyLengthAttr_def putUint16_def)
  then have v: "valid_SA [?p]" by (simp add: valid_SA_def valid_proposal_def plainTransform_def)
  have "ikeProposals 0 (CfgIKE sample_config) = Inr [?p]"
    by (simp add: sample_config_def sample_proposal_def ikeSuiteTransforms_def NewEncryption_def Let_def
        cesEncryptionListIsAEAD_def)
  then have "appendIKEProposals sample_config [] = Inr (SA_octets [?p])"
    using sa_codec.app_octets [OF v, of "[]"] by (simp add: appendIKEProposals_def sample_config_def)
  moreover have "length (SA_octets [?p]) \<le> 1000"
    using \<open>length (KeyLengthAttr 256) = 4\<close>
    by (simp add: proposal_octets_def plainTransform_def)
  ultimately show ?thesis by blast
qed

lemma sample_request:
  assumes "length (Cookie s) \<le> 1000" "length (InitiatorNonce s) \<le> 1000"
  shows "\<exists>s' fs. buildSAInitRequest sample_random sample_config 0 s = (s', Inr fs) \<and> InitiatorNonce s' \<noteq> []"
proof -
  obtain sel body where ok: "selectIKESuite sample_config 0 = Inr (sample_proposal, sel)" "DHTransformID (SelDH sel) = 31"
    "appendIKEProposals sample_config [] = Inr body" "length body \<le> 1000"
    using sample_select sample_ike_body by blast
  show ?thesis
    by (rule buildSAInitRequest_succeeds [OF ok assms(1), where rs = "be64 5" and rn = "replicate 32 1" and rd = "replicate 32 2"])
       (use assms(2) in \<open>simp_all add: sample_random_def sample_config_def\<close>)
qed

theorem sa_init_request_readable_witness:
  "\<exists>s' fs m. buildSAInitRequest sample_random sample_config 0 NewState = (s', Inr fs)
     \<and> ParseMessage (SAInitRequest s') = Inr m \<and> ExchangeTyp (MHeader m) = ExchangeIkeSAInit"
proof -
  obtain s' fs where b: "buildSAInitRequest sample_random sample_config 0 NewState = (s', Inr fs)" "InitiatorNonce s' \<noteq> []"
    using sample_request [of NewState] by (auto simp: NewState_def)
  have dh: "\<forall>p \<in> set (CfgIKE sample_config). XDH p \<noteq> []" by (simp add: sample_config_def sample_proposal_def)
  show ?thesis using sa_init_request_readable [OF b(1) dh b(2)] b(1) by (elim exE conjE) (intro exI conjI)
qed


definition sample_cookie_reply :: Message where
  "sample_cookie_reply = \<lparr> MHeader = sample_header, Payloads =
     [\<lparr> PType = PayloadTypeNotify, Critical = False, Next = 0,
        Body = Notify_octets \<lparr> NotProtocolID = NotifyProtocolNone, NotSPI = [], NotType = NotifyCookie, NotData = [7, 7] \<rparr> \<rparr>],
     Encrypted = None \<rparr>"

definition sample_sent :: State where
  "sample_sent = NewState\<lparr> SInitiatorSPI := 5, InitiatorNonce := [1, 2, 3] \<rparr>"



definition sample_ike_choice :: Proposal where
  "sample_ike_choice = \<lparr> Num = 1, PropProtocolID = DeleteProtocolIKE, PropSPI = [],
     Transforms = [\<lparr> TType = TransformENC, TID = 12, TAttrs = KeyLengthAttr 256 \<rparr>, plainTransform TransformPRF 5,
       plainTransform TransformINTEG 12, plainTransform TransformDH 31] \<rparr>"

definition sample_init_reply :: Message where
  "sample_init_reply = \<lparr> MHeader = sample_header\<lparr> ResponderSPI := be64 6 \<rparr>, Payloads =
     [\<lparr> PType = PayloadTypeSA, Critical = False, Next = PayloadTypeKE, Body = SA_octets [sample_ike_choice] \<rparr>,
      \<lparr> PType = PayloadTypeKE, Critical = False, Next = PayloadTypeNonce, Body = [0, 31, 0, 0, 9] \<rparr>,
      \<lparr> PType = PayloadTypeNonce, Critical = False, Next = 0, Body = [4, 5, 6] \<rparr>], Encrypted = None \<rparr>"


end
