(* ===== verification/Xcrypto_X509.thy ===== *)
theory Xcrypto_X509
  imports Xcrypto_Cipher Payload_Codecs
begin

text \<open>
  Certificate-based verification of the responder (\<^verbatim>\<open>src/xcrypto/x509.go\<close>): the
  AUTH method 14 data format, the identity a certificate must carry, and the
  order of the checks.

  X.509 parsing, path validation, host name matching and the two signature
  schemes are operations of an environment record \<open>x509\<close>, a parameter of the
  functions that use them; \<open>'c\<close> is the type of certificates and \<open>'r\<close> of root
  pools.
\<close>

section \<open>The environment\<close>

record ('c, 'r) x509 =
  ParseCertificate :: "bytes \<Rightarrow> 'c res"
  SystemCertPool :: "'r option res"
  VerifyChain :: "'r option \<Rightarrow> 'c list \<Rightarrow> 'c \<Rightarrow> unit res"
  VerifyHostname :: "'c \<Rightarrow> string \<Rightarrow> unit res"
  VerifyPKCS1v15 :: "'c \<Rightarrow> (HashKind \<Rightarrow> bytes \<Rightarrow> bytes \<Rightarrow> bool) option"
  VerifyASN1 :: "'c \<Rightarrow> (bytes \<Rightarrow> bytes \<Rightarrow> bool) option"

text \<open>The last two fields are None for a certificate whose key is not of that type.\<close>

section \<open>AUTH method 14 data\<close>

datatype PublicKeyType = PublicKeyUnset | PublicKeyRSA | PublicKeyECDSA

record SignatureAlgorithm =
  SigHashID :: "16 word"
  SigHash :: "HashKind option"
  SigKeyType :: PublicKeyType

text \<open>The six supported identifiers: PKCS 1 arcs 11 to 13 and ECDSA arcs 2 to 4.\<close>

definition rsaAlgID :: "byte \<Rightarrow> bytes" where
  "rsaAlgID arc = [0x30, 0x0d, 0x06, 0x09, 0x2a, 0x86, 0x48, 0x86, 0xf7, 0x0d, 0x01, 0x01, arc, 0x05, 0x00]"

definition ecdsaAlgID :: "byte \<Rightarrow> bytes" where
  "ecdsaAlgID arc = [0x30, 0x0a, 0x06, 0x08, 0x2a, 0x86, 0x48, 0xce, 0x3d, 0x04, 0x03, arc]"

definition signatureAlgIDs :: "(bytes \<times> SignatureAlgorithm) list" where
  "signatureAlgIDs =
    [(rsaAlgID 0x0b, \<lparr> SigHashID = 2, SigHash = Some HashSHA256, SigKeyType = PublicKeyRSA \<rparr>),
     (rsaAlgID 0x0c, \<lparr> SigHashID = 3, SigHash = Some HashSHA384, SigKeyType = PublicKeyRSA \<rparr>),
     (rsaAlgID 0x0d, \<lparr> SigHashID = 4, SigHash = Some HashSHA512, SigKeyType = PublicKeyRSA \<rparr>),
     (ecdsaAlgID 0x02, \<lparr> SigHashID = 2, SigHash = Some HashSHA256, SigKeyType = PublicKeyECDSA \<rparr>),
     (ecdsaAlgID 0x03, \<lparr> SigHashID = 3, SigHash = Some HashSHA384, SigKeyType = PublicKeyECDSA \<rparr>),
     (ecdsaAlgID 0x04, \<lparr> SigHashID = 4, SigHash = Some HashSHA512, SigKeyType = PublicKeyECDSA \<rparr>)]"

definition ParseSignatureAuthData :: "bytes \<Rightarrow> (SignatureAlgorithm \<times> bytes) res" where
  "ParseSignatureAuthData data =
    (if length data < 2 then Inl (Errorf ''xcrypto: AUTH method 14 data too short'')
     else let algLen = unat (data ! 0) in
       if algLen = 0 \<or> length data \<le> 1 + algLen then Inl (Errorf ''xcrypto: AUTH method 14 missing AlgorithmIdentifier'')
       else case map_of signatureAlgIDs (subslice data 1 (1 + algLen)) of
         None \<Rightarrow> Inl (Errorf ''xcrypto: unsupported AUTH method 14 AlgorithmIdentifier'')
       | Some alg \<Rightarrow> Inr (alg, drop (1 + algLen) data))"

section \<open>Text of an identity\<close>

text \<open>\<^verbatim>\<open>utf8.Valid\<close> of the standard library.\<close>

definition cont :: "byte \<Rightarrow> bool" where
  "cont b \<longleftrightarrow> 0x80 \<le> b \<and> b \<le> 0xbf"

function utf8_valid :: "bytes \<Rightarrow> bool" where
  "utf8_valid s =
    (case s of
       [] \<Rightarrow> True
     | b # r \<Rightarrow>
         if b < 0x80 then utf8_valid r
         else if 0xc2 \<le> b \<and> b \<le> 0xdf then length r \<ge> 1 \<and> cont (r ! 0) \<and> utf8_valid (drop 1 r)
         else if 0xe0 \<le> b \<and> b \<le> 0xef then
           length r \<ge> 2 \<and> (if b = 0xe0 then 0xa0 else 0x80) \<le> r ! 0 \<and> r ! 0 \<le> (if b = 0xed then 0x9f else 0xbf)
             \<and> cont (r ! 1) \<and> utf8_valid (drop 2 r)
         else if 0xf0 \<le> b \<and> b \<le> 0xf4 then
           length r \<ge> 3 \<and> (if b = 0xf0 then 0x90 else 0x80) \<le> r ! 0 \<and> r ! 0 \<le> (if b = 0xf4 then 0x8f else 0xbf)
             \<and> cont (r ! 1) \<and> cont (r ! 2) \<and> utf8_valid (drop 3 r)
         else False)"
  by pat_completeness auto
termination
  by (relation "measure length") auto

declare utf8_valid.simps [simp del]

text \<open>\<^verbatim>\<open>net.IP.String\<close>: dotted decimal, or eight groups with the longest run of zero
  groups (the first of equal ones, at least two) replaced by two colons.\<close>

definition hexDigit :: "nat \<Rightarrow> char" where
  "hexDigit n = char_of (if n < 10 then 48 + n else 87 + n)"

fun hexText :: "nat \<Rightarrow> string" where
  "hexText n = (if n < 16 then [] else hexText (n div 16)) @ [hexDigit (n mod 16)]"

declare hexText.simps [simp del]

fun groups16 :: "bytes \<Rightarrow> nat list" where
  "groups16 (x # y # r) = (unat x * 256 + unat y) # groups16 r"
| "groups16 _ = []"

definition zeroRun :: "nat list \<Rightarrow> nat \<times> nat" where
  "zeroRun gs = fold (\<lambda>i (start, len).
     let l = length (takeWhile (\<lambda>g. g = 0) (drop i gs)) in if l \<ge> 2 \<and> l > len then (i, l) else (start, len))
     [0..<length gs] (0, 0)"

fun joinColon :: "string list \<Rightarrow> string" where
  "joinColon [] = []"
| "joinColon [s] = s"
| "joinColon (s # t # ss) = s @ '':'' @ joinColon (t # ss)"

definition ip6String :: "bytes \<Rightarrow> string" where
  "ip6String ip =
    (let gs = groups16 ip; (start, len) = zeroRun gs in
     if len = 0 then joinColon (map hexText gs)
     else joinColon (map hexText (take start gs)) @ ''::'' @ joinColon (map hexText (drop (start + len) gs)))"

definition ip4String :: "bytes \<Rightarrow> string" where
  "ip4String ip = decimal (unat (ip ! 0)) @ ''.'' @ decimal (unat (ip ! 1)) @ ''.''
     @ decimal (unat (ip ! 2)) @ ''.'' @ decimal (unat (ip ! 3))"

definition IPString :: "bytes \<Rightarrow> string" where
  "IPString ip = (case To4 ip of Some v4 \<Rightarrow> ip4String v4 | None \<Rightarrow> ip6String ip)"

section \<open>Verification\<close>

definition VerifyCertificateChain ::
  "('c, 'r) x509 \<Rightarrow> 'c \<Rightarrow> 'c list \<Rightarrow> 'r option \<Rightarrow> bool \<Rightarrow> unit res" where
  "VerifyCertificateChain env leaf intermediates roots skipVerify =
    (if skipVerify then Inr ()
     else
       bind_res (case roots of Some r \<Rightarrow> Inr (Some r)
                 | None \<Rightarrow> wrap_err ''xcrypto: load system trust anchors'' (SystemCertPool env)) (\<lambda>roots.
         wrap_err ''xcrypto: verify responder certificate chain'' (VerifyChain env roots intermediates leaf)))"

definition verifyCertIdentity :: "('c, 'r) x509 \<Rightarrow> 'c \<Rightarrow> 8 word \<Rightarrow> bytes \<Rightarrow> unit res" where
  "verifyCertIdentity env leaf idType idData =
    (if idType = IDFqdn then
       if \<not> utf8_valid idData then Inl (Errorf ''xcrypto: IDr FQDN is not valid UTF-8'')
       else wrap_err ''xcrypto: responder certificate does not match IDr FQDN'' (VerifyHostname env leaf (map (char_of \<circ> unat) idData))
     else if idType = IDIPv4Addr then
       if length idData \<noteq> 4 then Inl (Errorf ''xcrypto: invalid IDr IPv4 address length'')
       else wrap_err ''xcrypto: responder certificate does not match IDr IP address''
              (VerifyHostname env leaf (IPString (v4InV6Prefix @ idData)))
     else if idType = IDIPv6Addr then
       if length idData \<noteq> 16 then Inl (Errorf ''xcrypto: invalid IDr IPv6 address length'')
       else wrap_err ''xcrypto: responder certificate does not match IDr IP address'' (VerifyHostname env leaf (IPString idData))
     else if idType = IDRfc822Addr
     then Inl (Errorf ''xcrypto: certificate identity verification does not support RFC822 IDr for MVP'')
     else if idType = IDKeyID
     then Inl (Errorf ''xcrypto: certificate identity verification does not support KEY_ID IDr for MVP'')
     else Inl (Errorf ''xcrypto: unsupported IDr type for certificate identity verification''))"

definition verifySignature :: "('c, 'r) x509 \<Rightarrow> 'c \<Rightarrow> bytes \<Rightarrow> bytes \<Rightarrow> SignatureAlgorithm \<Rightarrow> unit res" where
  "verifySignature env leaf octets signature alg =
    (case SigHash alg of
       None \<Rightarrow> Inl (Errorf ''xcrypto: signature algorithm has no assigned hash'')
     | Some h \<Rightarrow>
         let digest = hash_sum h octets in
         (case SigKeyType alg of
            PublicKeyRSA \<Rightarrow> (case VerifyPKCS1v15 env leaf of
                None \<Rightarrow> Inl (Errorf ''xcrypto: AUTH method 14 declared RSA, peer certificate is not RSA'')
              | Some verify \<Rightarrow> if verify h digest signature then Inr ()
                               else Inl (Errorf ''xcrypto: AUTH RSA signature verification failed''))
          | PublicKeyECDSA \<Rightarrow> (case VerifyASN1 env leaf of
                None \<Rightarrow> Inl (Errorf ''xcrypto: AUTH method 14 declared ECDSA, peer certificate is not ECDSA'')
              | Some verify \<Rightarrow> if verify digest signature then Inr ()
                               else Inl (Errorf ''xcrypto: AUTH ECDSA signature verification failed''))
          | PublicKeyUnset \<Rightarrow> Inl (Errorf ''xcrypto: unsupported AUTH method 14 public key type'')))"

definition VerifyPeerAuthSignature ::
  "('c, 'r) x509 \<Rightarrow> 'c list \<Rightarrow> 8 word \<Rightarrow> bytes \<Rightarrow> bytes \<Rightarrow> bytes \<Rightarrow> SignatureAlgorithm \<Rightarrow> 'r option \<Rightarrow> bool \<Rightarrow> unit res" where
  "VerifyPeerAuthSignature env certs idType idData octets signature alg roots skipChainVerify =
    (case certs of
       [] \<Rightarrow> Inl (Errorf ''xcrypto: responder AUTH used a certificate signature without CERT payload'')
     | leaf # intermediates \<Rightarrow>
         bind_res (VerifyCertificateChain env leaf intermediates roots skipChainVerify) (\<lambda>_.
         bind_res (verifyCertIdentity env leaf idType idData) (\<lambda>_.
           verifySignature env leaf octets signature alg)))"

section \<open>Lemmas\<close>

text \<open>What an accepted signature guarantees.\<close>

definition signed_by :: "('c, 'r) x509 \<Rightarrow> 'c \<Rightarrow> bytes \<Rightarrow> bytes \<Rightarrow> SignatureAlgorithm \<Rightarrow> bool" where
  "signed_by env leaf octets signature alg \<longleftrightarrow> (\<exists>h. SigHash alg = Some h \<and>
     ((SigKeyType alg = PublicKeyRSA \<and> (\<exists>v. VerifyPKCS1v15 env leaf = Some v \<and> v h (hash_sum h octets) signature))
      \<or> (SigKeyType alg = PublicKeyECDSA \<and> (\<exists>v. VerifyASN1 env leaf = Some v \<and> v (hash_sum h octets) signature))))"

definition identifies :: "('c, 'r) x509 \<Rightarrow> 'c \<Rightarrow> 8 word \<Rightarrow> bytes \<Rightarrow> bool" where
  "identifies env leaf idType idData \<longleftrightarrow> (\<exists>name. VerifyHostname env leaf name = Inr () \<and>
     ((idType = IDFqdn \<and> utf8_valid idData \<and> name = map (char_of \<circ> unat) idData)
      \<or> (idType = IDIPv4Addr \<and> length idData = 4 \<and> name = IPString (v4InV6Prefix @ idData))
      \<or> (idType = IDIPv6Addr \<and> length idData = 16 \<and> name = IPString idData)))"

lemma verifySignature_ok: "verifySignature env leaf octets signature alg = Inr () \<longleftrightarrow> signed_by env leaf octets signature alg"
  by (auto simp: verifySignature_def signed_by_def Let_def split: option.splits PublicKeyType.splits if_splits)

lemma verifyCertIdentity_ok: "verifyCertIdentity env leaf t d = Inr () \<longleftrightarrow> identifies env leaf t d"
  by (auto simp: verifyCertIdentity_def identifies_def)

lemma VerifyPeerAuthSignature_ok:
  assumes "VerifyPeerAuthSignature env certs t d octets signature alg roots skip = Inr ()"
  obtains leaf intermediates where "certs = leaf # intermediates" "identifies env leaf t d" "signed_by env leaf octets signature alg"
    "skip \<or> (\<exists>r. VerifyChain env r intermediates leaf = Inr ())"
  using assms
  by (auto simp: VerifyPeerAuthSignature_def VerifyCertificateChain_def verifySignature_ok verifyCertIdentity_ok
      split: list.splits if_splits) blast

lemma ParseSignatureAuthData_data:
  assumes "der \<in> fst ` set signatureAlgIDs" "sig \<noteq> []"
  shows "ParseSignatureAuthData (word_of_nat (length der) # der @ sig) = Inr (the (map_of signatureAlgIDs der), sig)"
proof -
  obtain alg where alg: "map_of signatureAlgIDs der = Some alg"
    using assms(1) by (metis domIff dom_map_of_conv_image_fst option.exhaust)
  have len: "0 < length der" "length der < 256"
    using assms(1) by (auto simp: signatureAlgIDs_def rsaAlgID_def ecdsaAlgID_def)
  then have n: "unat (word_of_nat (length der) :: 8 word) = length der" by simp
  have "subslice (word_of_nat (length der) # der @ sig) 1 (1 + length der) = der"
    "drop (1 + length der) (word_of_nat (length der) # der @ sig) = sig"
    by (simp_all add: subslice_def)
  then show ?thesis
    using len assms(2) alg unfolding ParseSignatureAuthData_def Let_def nth_Cons_0 n by simp
qed

end
