(* ===== verification/Control_Auth.thy ===== *)
theory Control_Auth
  imports Control_SaInit Xcrypto_X509
begin

text \<open>
  The IKE_AUTH stage: \<^verbatim>\<open>src/control/auth.go\<close> (the bootstrap request, the responses of
  the EAP rounds, the local AUTH and the verification of the peer's) and the
  final exchange of \<^verbatim>\<open>src/control/child_sa.go\<close>, which installs the CHILD_SA.

  The lemmas show what an accepted AUTH payload proves of the peer, that both
  ends compute the same shared-key AUTH, that the proposals sent are numbered
  like the offers the answer is decoded against, and that no CHILD_SA is installed
  without an authenticated and matching peer identity.
\<close>

section \<open>Constants\<close>

abbreviation (input) "AuthRsaDigitalSignature \<equiv> (1::8 word)"
abbreviation (input) "AuthSharedKeyMIC \<equiv> (2::8 word)"
abbreviation (input) "AuthDssDigitalSignature \<equiv> (3::8 word)"
abbreviation (input) "AuthDigitalSignature \<equiv> (14::8 word)"
abbreviation (input) "CertEncodingX509Signature \<equiv> (4::8 word)"

abbreviation (input) "NotifyAuthenticationFailed \<equiv> (24::16 word)"
abbreviation (input) "NotifyInitialContact \<equiv> (16384::16 word)"
abbreviation (input) "NotifyAdditionalTSPossible \<equiv> (16386::16 word)"
abbreviation (input) "NotifyIPCompSupported \<equiv> (16387::16 word)"
abbreviation (input) "NotifyUseTransportMode \<equiv> (16391::16 word)"
abbreviation (input) "NotifyEspTFCPaddingNotSupported \<equiv> (16394::16 word)"
abbreviation (input) "NotifyNonFirstFragmentsAlso \<equiv> (16395::16 word)"
abbreviation (input) "NotifyNoAdditionalAddresses \<equiv> (16399::16 word)"
abbreviation (input) "NotifyMultipleAuthSupported \<equiv> (16404::16 word)"
abbreviation (input) "NotifyEapOnlyAuthentication \<equiv> (16417::16 word)"
abbreviation (input) "NotifyIKEv2MessageIDSyncSupported \<equiv> (16420::16 word)"
abbreviation (input) "NotifyIKEv2MessageIDSync \<equiv> (16422::16 word)"

section \<open>The bootstrap request\<close>

definition generateChildSPI :: "bytes res \<Rightarrow> (32 word) res" where
  "generateChildSPI rnd =
    bind_res (wrap_err ''control: generate child SPI'' (GenerateNonce rnd 4)) (\<lambda>raw.
      let spi = beUint32 raw in Inr (if spi = 0 then 1 else spi))"

fun espProposals :: "nat \<Rightarrow> 32 word \<Rightarrow> cesOffer list \<Rightarrow> SA res" where
  "espProposals i spi [] = Inr []"
| "espProposals i spi (offer # offers) =
     bind_res (espOfferTransforms offer) (\<lambda>ts.
     bind_res (espProposals (i + 1) spi offers) (\<lambda>ps.
       Inr (\<lparr> Num = word_of_nat (i + 1), PropProtocolID = DeleteProtocolESP, PropSPI = be32 spi, Transforms = ts \<rparr> # ps)))"

definition appendESPProposals :: "Config \<Rightarrow> bytes \<Rightarrow> 32 word \<Rightarrow> bytes res" where
  "appendESPProposals cfg dst spi =
    bind_res (childOffers cfg) (\<lambda>offers. bind_res (espProposals 0 spi offers) (AppendSA dst))"

definition rangeSelector :: "8 word \<Rightarrow> bytes \<Rightarrow> bytes \<Rightarrow> Selector" where
  "rangeSelector t a b = \<lparr> SelType = t, SelProtocolID = 0, StartPort = 0, EndPort = 65535, StartAddr = a, EndAddr = b \<rparr>"

definition allOnesIPv6 :: bytes where
  "allOnesIPv6 = replicate 16 0xff"

definition tsiAnyDualStack :: TrafficSelectors where
  "tsiAnyDualStack =
    [rangeSelector TSTypeIPv4AddrRange (IPv4 0 0 0 0) (IPv4 255 255 255 255),
     rangeSelector TSTypeIPv6AddrRange (replicate 16 0) allOnesIPv6]"

definition tsrStrongswanDefault :: TrafficSelectors where
  "tsrStrongswanDefault =
    [rangeSelector TSTypeIPv4AddrRange (IPv4 0 0 0 0) (IPv4 255 255 255 255),
     rangeSelector TSTypeIPv6AddrRange (ipOf (ParseIP ''2000::'')) (ipOf (ParseIP ''3fff:ffff:ffff:ffff:ffff:ffff:ffff:ffff''))]"

fun notifyParts :: "16 word list \<Rightarrow> cesPayloadPart list res" where
  "notifyParts [] = Inr []"
| "notifyParts (t # ts) =
     bind_res (statusNotify t []) (\<lambda>body. bind_res (notifyParts ts) (\<lambda>ps. Inr ((PayloadTypeNotify, body) # ps)))"

text \<open>The payloads of the request; \<open>esp\<close> is the SA body.\<close>

definition bootstrapParts :: "Config \<Rightarrow> bytes \<Rightarrow> cesPayloadPart list res" where
  "bootstrapParts cfg esp =
    bind_res (notifyParts [NotifyInitialContact]) (\<lambda>contact.
    bind_res (AppendConfigRequest []) (\<lambda>cp.
    bind_res (AppendTS [] tsiAnyDualStack) (\<lambda>tsi.
    bind_res (AppendTS [] tsrStrongswanDefault) (\<lambda>tsr.
    bind_res (notifyParts [NotifyNoAdditionalAddresses, NotifyMultipleAuthSupported, NotifyEapOnlyAuthentication]) (\<lambda>caps.
      Inr ([(PayloadTypeIDi, AppendID [] (IDI cfg))] @ contact
        @ (if IDType (RightID cfg) \<noteq> 0 then [(PayloadTypeIDr, AppendID [] (RightID cfg))] else [])
        @ [(PayloadTypeCP, cp), (PayloadTypeSA, esp), (PayloadTypeTSi, tsi), (PayloadTypeTSr, tsr)] @ caps))))))"

definition buildBootstrapAuthRequest ::
  "bytes res \<Rightarrow> (nat \<Rightarrow> bytes res) \<Rightarrow> Config \<Rightarrow> 32 word \<Rightarrow> State \<Rightarrow> State \<times> Frame list res" where
  "buildBootstrapAuthRequest rnd rndIV cfg msgID s =
    (case generateChildSPI rnd of
       Inl e \<Rightarrow> (s, Inl e)
     | Inr inboundSPI \<Rightarrow>
         let s = s\<lparr> NegotiatingChild := Some \<lparr> NegInboundSPI = inboundSPI \<rparr>,
                    SAuth := (SAuth s)\<lparr> FirstIDiPayload := AppendID [] (IDI cfg) \<rparr> \<rparr> in
         (s, bind_res (appendESPProposals cfg [] inboundSPI) (\<lambda>esp.
             bind_res (bootstrapParts cfg esp) (\<lambda>parts.
               buildProtectedState rndIV (Some cfg) s ExchangeIkeAuth msgID PayloadTypeIDi (cesBuildChain parts)))))"

section \<open>Notifies\<close>

definition isAllowedAuthNotify :: "16 word \<Rightarrow> bool" where
  "isAllowedAuthNotify t \<longleftrightarrow> t \<in> {NotifyAdditionalTSPossible, NotifyEapOnlyAuthentication, NotifyEspTFCPaddingNotSupported,
     NotifyFragmentationSupported, NotifyIPCompSupported, NotifyIKEv2MessageIDSyncSupported, NotifyNonFirstFragmentsAlso,
     NotifyUseTransportMode}"

definition isChildFailureNotify :: "16 word \<Rightarrow> bool" where
  "isChildFailureNotify t \<longleftrightarrow> t \<in> {NotifyNoProposalChosen, NotifySinglePairRequired, NotifyNoAdditionalSAs,
     NotifyInternalAddressFailure, NotifyFailedCPRequired, NotifyTSUnacceptable}"

fun validateAuthNotifies :: "Notify list \<Rightarrow> State \<Rightarrow> State \<times> unit res" where
  "validateAuthNotifies [] s = (s, Inr ())"
| "validateAuthNotifies (n # ns) s =
    (if isAllowedAuthNotify (NotType n) then validateAuthNotifies ns s
     else if isChildFailureNotify (NotType n) then validateAuthNotifies ns s
     else if NotType n = NotifyIKEv2MessageIDSync
     then (s, Inl (Errorf ''control: received unsupported IKEV2_MESSAGE_ID_SYNC notify''))
     else if NotType n = NotifyAuthenticationFailed
     then (s\<lparr> SuppressAuthFailedNotify := True, SPhase := PhaseFailed,
              FailureReason := ''received AUTHENTICATION_FAILED notify'' \<rparr>,
           Inl (Errorf ''control: received AUTHENTICATION_FAILED notify''))
     else if NotType n < 16384 then (s, Inl (Errorf ''control: received IKE_AUTH notify error type''))
     else validateAuthNotifies ns s)"

definition containsNotify :: "16 word list \<Rightarrow> 16 word \<Rightarrow> bool" where
  "containsNotify list want = list_ex (\<lambda>t. t = want) list"

definition containsUint16 :: "16 word list \<Rightarrow> 16 word \<Rightarrow> bool" where
  "containsUint16 list want = list_ex (\<lambda>t. t = want) list"

section \<open>The peer's identity\<close>

definition recordPeerIdentity :: "Config \<Rightarrow> bytes \<Rightarrow> State \<Rightarrow> State \<times> unit res" where
  "recordPeerIdentity cfg idr s =
    (case wrap_err ''control: invalid IDr payload'' (ParseID idr) of
       Inl e \<Rightarrow> (s, Inl e)
     | Inr i \<Rightarrow>
         if length (IDData i) = 0 then (s, Inl (Errorf ''control: empty IDr value''))
         else if IDType (RightID cfg) \<noteq> 0 \<and> \<not> RightIDMatches (RightID cfg) i
         then (s, Inl (Errorf ''control: rightid mismatch''))
         else (s\<lparr> SAuth := (SAuth s)\<lparr> PeerIDr := idr \<rparr> \<rparr>, Inr ()))"

section \<open>AUTH\<close>

definition authMaterial :: "State \<Rightarrow> (Selection \<times> IKEKeys) option" where
  "authMaterial s = (case (SelectedIKE s, SIKEKeys s) of (Some sel, Some keys) \<Rightarrow> Some (sel, keys) | _ \<Rightarrow> None)"

definition computeSignedOctets :: "State \<Rightarrow> bytes \<Rightarrow> bool \<Rightarrow> bytes res" where
  "computeSignedOctets s macedID isResponder =
    (if authMaterial s = None then Inl (Errorf ''control: IKE key material is missing'')
     else if isResponder then
       if SAInitResponse s = [] \<or> InitiatorNonce s = []
       then Inl (Errorf ''control: missing SA_INIT response checkpoint or initiator nonce'')
       else Inr (SAInitResponse s @ InitiatorNonce s @ macedID)
     else if SAInitRequest s = [] \<or> ResponderNonce s = []
     then Inl (Errorf ''control: missing SA_INIT request checkpoint or responder nonce'')
     else Inr (SAInitRequest s @ ResponderNonce s @ macedID))"

definition localAuthSecret :: "State \<Rightarrow> IKEKeys \<Rightarrow> bytes" where
  "localAuthSecret s keys = (if LocalEAPMSK (SAuth s) \<noteq> [] then LocalEAPMSK (SAuth s) else SKpi keys)"

definition peerAuthSecret :: "State \<Rightarrow> IKEKeys \<Rightarrow> bytes" where
  "peerAuthSecret s keys = (if LocalEAPMSK (SAuth s) \<noteq> [] then LocalEAPMSK (SAuth s) else SKpr keys)"

definition buildLocalAuth :: "State \<Rightarrow> ID \<Rightarrow> Auth res" where
  "buildLocalAuth s localID =
    (case authMaterial s of
       None \<Rightarrow> Inl (Errorf ''control: IKE key material is missing'')
     | Some (sel, keys) \<Rightarrow>
         let idBody = (if FirstIDiPayload (SAuth s) = [] then AppendID [] localID else FirstIDiPayload (SAuth s)) in
         bind_res (wrap_err ''control: compute local MACedID'' (MACedID (SelPRF sel) (SKpi keys) idBody)) (\<lambda>macedID.
         bind_res (computeSignedOctets s macedID False) (\<lambda>octets.
         bind_res (wrap_err ''control: compute local AUTH'' (AuthMAC (SelPRF sel) (localAuthSecret s keys) octets)) (\<lambda>mac.
           Inr \<lparr> AuthMethod = AuthSharedKeyMIC, AuthData = mac \<rparr>))))"

fun parseCertificates :: "('c, 'r) x509 \<Rightarrow> bytes list \<Rightarrow> 'c list res" where
  "parseCertificates env [] = Inr []"
| "parseCertificates env (der # ders) =
     bind_res (wrap_err ''control: parse responder certificate'' (ParseCertificate env der)) (\<lambda>c.
     bind_res (parseCertificates env ders) (\<lambda>cs. Inr (c # cs)))"

definition peerCertificates :: "('c, 'r) x509 \<Rightarrow> Config \<Rightarrow> State \<Rightarrow> ('c list \<times> 'r option) res" where
  "peerCertificates env cfg s =
    (if PeerCerts (SAuth s) = []
     then Inl (Errorf ''control: responder AUTH used certificate signature without CERT payload'')
     else bind_res (parseCertificates env (PeerCerts (SAuth s))) (\<lambda>certs.
       if InsecureSkipPeerCertVerify cfg then Inr (certs, None)
       else case SystemCertPool env of
         Inr (Some roots) \<Rightarrow> Inr (certs, Some roots)
       | _ \<Rightarrow> Inl (Errorf ''control: load system trust roots'')))"

text \<open>The loop over the key types an AUTH payload may be verified with.\<close>

fun tryKeys ::
  "('c, 'r) x509 \<Rightarrow> 'c list \<Rightarrow> ID \<Rightarrow> bytes \<Rightarrow> bytes \<Rightarrow> SignatureAlgorithm \<Rightarrow> 'r option \<Rightarrow> bool \<Rightarrow> PublicKeyType list \<Rightarrow> unit res" where
  "tryKeys env certs i octets signature alg roots skip [] = Inl (Errorf ''control: AUTH signature verification failed'')"
| "tryKeys env certs i octets signature alg roots skip (kt # kts) =
    (case VerifyPeerAuthSignature env certs (IDType i) (IDData i) octets signature (alg\<lparr> SigKeyType := kt \<rparr>) roots skip of
       Inr _ \<Rightarrow> Inr ()
     | Inl _ \<Rightarrow> tryKeys env certs i octets signature alg roots skip kts)"

text \<open>What is verified: the algorithm, the signature and the key types to try.\<close>

definition signatureInput :: "State \<Rightarrow> Auth \<Rightarrow> (SignatureAlgorithm \<times> bytes \<times> PublicKeyType list) res" where
  "signatureInput s auth =
    (if AuthMethod auth = AuthDigitalSignature then
       bind_res (ParseSignatureAuthData (AuthData auth)) (\<lambda>(parsed, sig).
         if PeerSignatureHashAlgorithms (SAuth s) = []
         then Inl (Errorf ''control: responder used AUTH method 14 without SIGNATURE_HASH_ALGORITHMS negotiation'')
         else if \<not> containsUint16 (PeerSignatureHashAlgorithms (SAuth s)) (SigHashID parsed)
         then Inl (Errorf ''control: AUTH method 14 used unadvertised signature hash algorithm'')
         else Inr (parsed, sig, [SigKeyType parsed]))
     else Inr (\<lparr> SigHashID = 0, SigHash = Some HashSHA1, SigKeyType = PublicKeyUnset \<rparr>, AuthData auth,
               [PublicKeyRSA, PublicKeyECDSA]))"

text \<open>The two branches of the method switch, and the switch.\<close>

definition verifySharedKey :: "State \<Rightarrow> Selection \<Rightarrow> IKEKeys \<Rightarrow> bytes \<Rightarrow> Auth \<Rightarrow> unit res" where
  "verifySharedKey s sel keys idr auth =
    bind_res (wrap_err ''control: compute peer MACedID'' (MACedID (SelPRF sel) (SKpr keys) idr)) (\<lambda>macedID.
    bind_res (computeSignedOctets s macedID True) (\<lambda>octets.
    bind_res (wrap_err ''control: compute peer AUTH MAC'' (AuthMAC (SelPRF sel) (peerAuthSecret s keys) octets)) (\<lambda>expected.
      if length expected \<noteq> length (AuthData auth) \<or> expected \<noteq> AuthData auth
      then Inl (Errorf ''control: AUTH verification failed'') else Inr ())))"

definition verifyByCertificate :: "('c, 'r) x509 \<Rightarrow> Config \<Rightarrow> State \<Rightarrow> Selection \<Rightarrow> IKEKeys \<Rightarrow> bytes \<Rightarrow> Auth \<Rightarrow> unit res" where
  "verifyByCertificate env cfg s sel keys idr auth =
    bind_res (signatureInput s auth) (\<lambda>(alg, signature, keyKinds).
    bind_res (MACedID (SelPRF sel) (SKpr keys) idr) (\<lambda>macedID.
    bind_res (computeSignedOctets s macedID True) (\<lambda>octets.
    bind_res (wrap_err ''control: parse IDr for certificate identity'' (ParseID idr)) (\<lambda>i.
    bind_res (peerCertificates env cfg s) (\<lambda>(certs, roots).
      tryKeys env certs i octets signature alg roots (InsecureSkipPeerCertVerify cfg) keyKinds)))))"

definition verifyPeerAuth :: "('c, 'r) x509 \<Rightarrow> Config \<Rightarrow> bytes \<Rightarrow> Auth \<Rightarrow> State \<Rightarrow> State \<times> unit res" where
  "verifyPeerAuth env cfg idr auth s =
    (case authMaterial s of
       None \<Rightarrow> (s, Inl (Errorf ''control: IKE key material is missing''))
     | Some (sel, keys) \<Rightarrow>
         (case (if AuthMethod auth = AuthSharedKeyMIC then verifySharedKey s sel keys idr auth
                else if AuthMethod auth \<in> {AuthRsaDigitalSignature, AuthDssDigitalSignature, AuthDigitalSignature}
                then verifyByCertificate env cfg s sel keys idr auth
                else Inl (Errorf ''control: unsupported AUTH method'')) of
            Inl e \<Rightarrow> (s, Inl e)
          | Inr _ \<Rightarrow> (s\<lparr> SAuth := (SAuth s)\<lparr> PeerAuthMethod := AuthMethod auth \<rparr> \<rparr>, Inr ())))"

section \<open>Responses of the EAP rounds\<close>

record authScan =
  asEAP :: bytes
  asAuth :: "Auth option"
  asIDr :: bytes
  asCerts :: "bytes list"
  asNotifies :: "Notify list"

definition parsePeerCert :: "Cert res \<Rightarrow> bytes res" where
  "parsePeerCert parsed =
    bind_res parsed (\<lambda>c.
      if CertEncoding c \<noteq> CertEncodingX509Signature then Inl (Errorf ''control: unsupported CERT encoding'')
      else Inr (DER c))"

fun scanAuthPayloads :: "Payload list \<Rightarrow> authScan \<Rightarrow> authScan res" where
  "scanAuthPayloads [] a = Inr a"
| "scanAuthPayloads (p # ps) a =
    (if PType p = PayloadTypeEAP then scanAuthPayloads ps (a\<lparr> asEAP := Body p \<rparr>)
     else if PType p = PayloadTypeAuth then
       bind_res (wrap_err ''control: parse IKE_AUTH AUTH payload'' (ParseAuth (Body p))) (\<lambda>auth.
         scanAuthPayloads ps (a\<lparr> asAuth := Some auth \<rparr>))
     else if PType p = PayloadTypeIDr then scanAuthPayloads ps (a\<lparr> asIDr := Body p \<rparr>)
     else if PType p = PayloadTypeCert then
       bind_res (parsePeerCert (wrap_err ''control: parse IKE_AUTH CERT payload'' (ParseCert (Body p)))) (\<lambda>der.
         scanAuthPayloads ps (a\<lparr> asCerts := asCerts a @ [der] \<rparr>))
     else if PType p = PayloadTypeNotify then
       bind_res (wrap_err ''control: parse IKE_AUTH notify'' (ParseNotify (Body p))) (\<lambda>n.
         if length (NotSPI n) \<noteq> 0 then Inl (Errorf ''control: unexpected SPI-scoped notify during EAP progression'')
         else scanAuthPayloads ps (a\<lparr> asNotifies := asNotifies a @ [n] \<rparr>))
     else scanAuthPayloads ps a)"

definition noAuthScan :: authScan where
  "noAuthScan = \<lparr> asEAP = [], asAuth = None, asIDr = [], asCerts = [], asNotifies = [] \<rparr>"

text \<open>The identity the peer is known by: the one of this response or the one of an earlier response.\<close>

definition peerIdentity :: "bytes \<Rightarrow> State \<Rightarrow> bytes" where
  "peerIdentity idr s = (if idr = [] then PeerIDr (SAuth s) else idr)"

definition setPeerCerts :: "bytes list \<Rightarrow> State \<Rightarrow> State" where
  "setPeerCerts certs s = (if certs \<noteq> [] then s\<lparr> SAuth := (SAuth s)\<lparr> PeerCerts := certs \<rparr> \<rparr> else s)"

definition recordCapabilities :: "Notify list \<Rightarrow> State \<Rightarrow> State" where
  "recordCapabilities notifies s =
    (let ts = map NotType notifies in
     s\<lparr> Peer := \<lparr> SupportsEAPOnlyAuthentication = containsNotify ts NotifyEapOnlyAuthentication,
                   SupportsMessageIDSync = containsNotify ts NotifyIKEv2MessageIDSyncSupported,
                   SupportsFragmentation = SupportsFragmentation (Peer s) \<or> containsNotify ts NotifyFragmentationSupported \<rparr> \<rparr>)"

definition handleAuthResponse ::
  "('c, 'r) x509 \<Rightarrow> Config \<Rightarrow> Message \<Rightarrow> bool \<Rightarrow> State \<Rightarrow> State \<times> bytes res" where
  "handleAuthResponse env cfg m firstResponse s =
    (case scanAuthPayloads (Payloads m) noAuthScan of
       Inl e \<Rightarrow> (s, Inl e)
     | Inr a \<Rightarrow>
     (case validateAuthNotifies (asNotifies a) s of
       (s, Inl e) \<Rightarrow> (s, Inl e)
     | (s, Inr _) \<Rightarrow>
         let s = recordCapabilities (asNotifies a) s; peerIDr = peerIdentity (asIDr a) s in
         if peerIDr = [] then (s, Inl (Errorf ''control: IKE_AUTH response missing IDr payload''))
         else
     (case recordPeerIdentity cfg peerIDr s of
       (s, Inl e) \<Rightarrow> (s, Inl e)
     | (s, Inr _) \<Rightarrow>
         let s = setPeerCerts (asCerts a) s in
     (case (case asAuth a of
              Some auth \<Rightarrow> verifyPeerAuth env cfg peerIDr auth s
            | None \<Rightarrow>
                if \<not> firstResponse then (s, Inr ())
                else if asEAP a = [] then (s, Inl (Errorf ''control: first IKE_AUTH response missing AUTH payload''))
                else if \<not> SupportsEAPOnlyAuthentication (Peer s)
                then (s, Inl (Errorf ''control: configured EAP-only authentication, but the peer does not support it''))
                else (s, Inr ())) of
       (s, Inl e) \<Rightarrow> (s, Inl e)
     | (s, Inr _) \<Rightarrow>
         if asEAP a = [] then (s, Inl (Errorf ''control: IKE_AUTH response missing EAP payload''))
         else (s, Inr (asEAP a))))))"

section \<open>The final exchange\<close>

definition finalAuthParts :: "Config \<Rightarrow> State \<Rightarrow> Auth \<Rightarrow> cesPayloadPart list" where
  "finalAuthParts cfg s localAuth =
     (if IDType (RightID cfg) \<noteq> 0 then [(PayloadTypeIDr, AppendID [] (RightID cfg))] else [])
     @ [(PayloadTypeIDi, if FirstIDiPayload (SAuth s) \<noteq> [] then FirstIDiPayload (SAuth s) else AppendID [] (IDI cfg)),
        (PayloadTypeAuth, AppendAuth [] localAuth)]"

definition buildFinalAuthRequest :: "(nat \<Rightarrow> bytes res) \<Rightarrow> Config \<Rightarrow> 32 word \<Rightarrow> State \<Rightarrow> Frame list res" where
  "buildFinalAuthRequest rndIV cfg msgID s =
    (if IDData (IDI cfg) = [] then Inl (Errorf ''control: local identity missing before final AUTH'')
     else bind_res (buildLocalAuth s (IDI cfg)) (\<lambda>localAuth.
       buildProtectedState rndIV (Some cfg) s ExchangeIkeAuth msgID
         (if IDType (RightID cfg) \<noteq> 0 then PayloadTypeIDr else PayloadTypeIDi)
         (cesBuildChain (finalAuthParts cfg s localAuth))))"

record finalScan =
  fsAuth :: "Auth option"
  fsIDr :: bytes
  fsEAP :: bytes
  fsSA :: "SA option"
  fsTSi :: bytes
  fsTSr :: bytes
  fsCP :: bytes
  fsCerts :: "bytes list"
  fsNotifies :: "Notify list"
  fsSpiNotifies :: "cesSpiNotify list"

definition noFinalScan :: finalScan where
  "noFinalScan = \<lparr> fsAuth = None, fsIDr = [], fsEAP = [], fsSA = None, fsTSi = [], fsTSr = [], fsCP = [], fsCerts = [],
     fsNotifies = [], fsSpiNotifies = [] \<rparr>"

definition finalNotify :: "Notify \<Rightarrow> finalScan \<Rightarrow> finalScan res" where
  "finalNotify n a =
    (let a = a\<lparr> fsNotifies := fsNotifies a @ [n] \<rparr> in
     if length (NotSPI n) = 0 then Inr a
     else if length (NotSPI n) \<noteq> 4 then Inl (Errorf ''control: unexpected SPI size in final IKE_AUTH notify'')
     else if \<not> isChildFailureNotify (NotType n) then Inl (Errorf ''control: unexpected SPI-scoped notify in final IKE_AUTH'')
     else Inr (a\<lparr> fsSpiNotifies := fsSpiNotifies a
            @ [\<lparr> snType = NotType n, snProtocol = NotProtocolID n, snSPI = cesU32 (NotSPI n) \<rparr>] \<rparr>))"

definition finalPayload :: "Payload \<Rightarrow> finalScan \<Rightarrow> finalScan res" where
  "finalPayload p a =
    (if PType p = PayloadTypeAuth then bind_res (ParseAuth (Body p)) (\<lambda>auth. Inr (a\<lparr> fsAuth := Some auth \<rparr>))
     else if PType p = PayloadTypeIDr then Inr (a\<lparr> fsIDr := Body p \<rparr>)
     else if PType p = PayloadTypeEAP then Inr (a\<lparr> fsEAP := Body p \<rparr>)
     else if PType p = PayloadTypeCert then
       bind_res (parsePeerCert (ParseCert (Body p))) (\<lambda>der. Inr (a\<lparr> fsCerts := fsCerts a @ [der] \<rparr>))
     else if PType p = PayloadTypeSA then bind_res (ParseSA (Body p)) (\<lambda>sa. Inr (a\<lparr> fsSA := Some sa \<rparr>))
     else if PType p = PayloadTypeTSi then Inr (a\<lparr> fsTSi := Body p \<rparr>)
     else if PType p = PayloadTypeTSr then Inr (a\<lparr> fsTSr := Body p \<rparr>)
     else if PType p = PayloadTypeCP then Inr (a\<lparr> fsCP := Body p \<rparr>)
     else if PType p = PayloadTypeNotify then bind_res (ParseNotify (Body p)) (\<lambda>n. finalNotify n a)
     else Inr a)"

fun scanFinalPayloads :: "Payload list \<Rightarrow> finalScan \<Rightarrow> finalScan res" where
  "scanFinalPayloads [] a = Inr a"
| "scanFinalPayloads (p # ps) a = bind_res (finalPayload p a) (scanFinalPayloads ps)"

text \<open>After the peer is authenticated: the selection is stored, then configuration and
  selectors are checked and the CHILD_SA is installed.\<close>

definition childConfig :: "finalScan \<Rightarrow> (AssignedConfig \<times> bool) res" where
  "childConfig a =
    (if fsCP a = [] then Inl (Errorf ''control: final IKE_AUTH response missing CP payload'')
     else bind_res (ParseConfigPayload (fsCP a)) (\<lambda>cp.
       if Kind cp \<noteq> ConfigTypeReply \<and> Kind cp \<noteq> ConfigTypeSet
       then Inl (Errorf ''control: final IKE_AUTH CP payload has unexpected kind'')
       else bind_res (cesDecodeAssignedCP cp) (\<lambda>(assigned, _).
         if InternalIPv4 assigned = None \<and> InternalIPv6 assigned = None
         then Inl (Errorf ''control: final IKE_AUTH CP reply missing INTERNAL_IP4/6_ADDRESS'')
         else if fsTSi a = [] \<or> fsTSr a = [] then Inl (Errorf ''control: final IKE_AUTH response missing TSi/TSr payload'')
         else
           bind_res (ParseTS (fsTSi a)) (\<lambda>tsi.
           bind_res (ParseTS (fsTSr a)) (\<lambda>tsr.
           bind_res (validateTrafficSelectors tsi tsr assigned) (\<lambda>_.
             Inr (assigned, Kind cp = ConfigTypeSet)))))))"

definition installChild :: "Config \<Rightarrow> NegotiatingChildSA \<Rightarrow> finalScan \<Rightarrow> State \<Rightarrow> State \<times> (ChildSA \<times> bool) res" where
  "installChild cfg neg a s =
    (case fsSA a of
       None \<Rightarrow>
         if cesChildFailureReason (fsNotifies a) \<noteq> '''' then (s, Inl (Errorf ''control: CHILD_SA negotiation failed''))
         else (s, Inl (Errorf ''control: final IKE_AUTH response missing CHILD_SA proposal''))
     | Some sa \<Rightarrow>
     (case bind_res (decodeChildSelection cfg s sa) (\<lambda>(peerSPI, selection).
           bind_res (cesValidateSpiNotifies (fsSpiNotifies a) peerSPI (NegInboundSPI neg)) (\<lambda>_.
             Inr (peerSPI, selection))) of
       Inl e \<Rightarrow> (s, Inl e)
     | Inr (peerSPI, selection) \<Rightarrow>
         let s = s\<lparr> SelectedESP := Some selection \<rparr> in
     (case childConfig a of
       Inl e \<Rightarrow> (s, Inl e)
     | Inr (assigned, isSet) \<Rightarrow>
         let child = \<lparr> InboundSPI = NegInboundSPI neg, OutboundSPI = peerSPI, ChTSi = fsTSi a, ChTSr = fsTSr a,
                       LocalChildInitiator = True \<rparr> in
         (s\<lparr> Assigned := Some assigned, NegotiatingChild := None, ActiveChild := Some child \<rparr>, Inr (child, isSet)))))"

definition processFinalAuth ::
  "('c, 'r) x509 \<Rightarrow> Config \<Rightarrow> Message \<Rightarrow> State \<Rightarrow> State \<times> (ChildSA \<times> bool) res" where
  "processFinalAuth env cfg m s =
    (case NegotiatingChild s of
       None \<Rightarrow> (s, Inl (Errorf ''control: missing negotiating CHILD_SA state''))
     | Some neg \<Rightarrow>
     (case scanFinalPayloads (Payloads m) noFinalScan of
       Inl e \<Rightarrow> (s, Inl e)
     | Inr a \<Rightarrow>
         if fsEAP a \<noteq> [] then (s, Inl (Errorf ''control: final IKE_AUTH response must not include EAP payload''))
         else
     (case validateAuthNotifies (fsNotifies a) s of
       (s, Inl e) \<Rightarrow> (s, Inl e)
     | (s, Inr _) \<Rightarrow>
     (case fsAuth a of
       None \<Rightarrow> (s, Inl (Errorf ''control: final IKE_AUTH response missing AUTH payload''))
     | Some auth \<Rightarrow>
         let peerIDr = peerIdentity (fsIDr a) s in
         if length peerIDr < 4 then (s, Inl (Errorf ''control: final IKE_AUTH response missing IDr payload''))
         else
     (case recordPeerIdentity cfg peerIDr s of
       (s, Inl e) \<Rightarrow> (s, Inl e)
     | (s, Inr _) \<Rightarrow>
     (case verifyPeerAuth env cfg peerIDr auth (setPeerCerts (fsCerts a) s) of
       (s, Inl e) \<Rightarrow> (s, Inl e)
     | (s, Inr _) \<Rightarrow> installChild cfg neg a s))))))"

section \<open>Lemmas: AUTH\<close>

text \<open>The octets the responder signs, and the shared-key AUTH value of RFC 7296 section 2.15.\<close>

definition responder_octets :: "PRF \<Rightarrow> IKEKeys \<Rightarrow> State \<Rightarrow> bytes \<Rightarrow> bytes res" where
  "responder_octets prf keys s idr =
     bind_res (PRFSum prf (SKpr keys) idr) (\<lambda>m. Inr (SAInitResponse s @ InitiatorNonce s @ m))"

text \<open>What an accepted AUTH payload proves: either the MIC under the EAP key (or, without one,
  under SK_pr) over the signed octets, or a signature over them by a certificate that
  carries the identity, chains to a root unless that check is disabled, and for method 14 uses
  a hash the peer announced.\<close>

definition mic_proof :: "State \<Rightarrow> Selection \<Rightarrow> IKEKeys \<Rightarrow> bytes \<Rightarrow> Auth \<Rightarrow> bool" where
  "mic_proof s sel keys idr auth \<longleftrightarrow> AuthMethod auth = AuthSharedKeyMIC
     \<and> (\<exists>octets. responder_octets (SelPRF sel) keys s idr = Inr octets
          \<and> AuthMAC (SelPRF sel) (peerAuthSecret s keys) octets = Inr (AuthData auth))"

definition signature_proof ::
  "('c, 'r) x509 \<Rightarrow> Config \<Rightarrow> State \<Rightarrow> Selection \<Rightarrow> IKEKeys \<Rightarrow> bytes list \<Rightarrow> bytes \<Rightarrow> Auth \<Rightarrow> bool" where
  "signature_proof env cfg s sel keys ders idr auth \<longleftrightarrow>
     AuthMethod auth \<in> {AuthRsaDigitalSignature, AuthDssDigitalSignature, AuthDigitalSignature}
     \<and> (\<exists>octets i leaf intermediates alg sig kt.
          responder_octets (SelPRF sel) keys s idr = Inr octets \<and> ParseID idr = Inr i
          \<and> parseCertificates env ders = Inr (leaf # intermediates)
          \<and> identifies env leaf (IDType i) (IDData i) \<and> signed_by env leaf octets sig (alg\<lparr> SigKeyType := kt \<rparr>)
          \<and> (InsecureSkipPeerCertVerify cfg \<or> (\<exists>r. VerifyChain env r intermediates leaf = Inr ()))
          \<and> (if AuthMethod auth = AuthDigitalSignature
             then ParseSignatureAuthData (AuthData auth) = Inr (alg, sig) \<and> kt = SigKeyType alg
                  \<and> SigHashID alg \<in> set (PeerSignatureHashAlgorithms (SAuth s))
             else SigHash alg = Some HashSHA1 \<and> sig = AuthData auth))"

definition peer_proved :: "('c, 'r) x509 \<Rightarrow> Config \<Rightarrow> State \<Rightarrow> bytes list \<Rightarrow> bytes \<Rightarrow> Auth \<Rightarrow> bool" where
  "peer_proved env cfg s ders idr auth \<longleftrightarrow> (\<exists>sel keys. SelectedIKE s = Some sel \<and> SIKEKeys s = Some keys
     \<and> SAInitResponse s \<noteq> [] \<and> InitiatorNonce s \<noteq> []
     \<and> (mic_proof s sel keys idr auth \<or> signature_proof env cfg s sel keys ders idr auth))"

lemma peer_proved_cong:
  assumes "SelectedIKE s = SelectedIKE s'" "SIKEKeys s = SIKEKeys s'" "SAInitResponse s = SAInitResponse s'"
    "InitiatorNonce s = InitiatorNonce s'" "LocalEAPMSK (SAuth s) = LocalEAPMSK (SAuth s')"
    "PeerSignatureHashAlgorithms (SAuth s) = PeerSignatureHashAlgorithms (SAuth s')"
  shows "peer_proved env cfg s = peer_proved env cfg s'"
  by (intro ext) (simp only: peer_proved_def mic_proof_def signature_proof_def responder_octets_def peerAuthSecret_def assms)

lemma decodeChildSelection_cong:
  assumes "SelectedIKE s = SelectedIKE s'"
  shows "decodeChildSelection cfg s = decodeChildSelection cfg s'"
proof -
  have "checkChildScan s = checkChildScan s'" by (intro ext) (simp only: checkChildScan_def assms)
  then show ?thesis by (intro ext) (simp only: decodeChildSelection_def)
qed

lemma authMaterial_Some:
  "authMaterial s = Some (sel, keys) \<longleftrightarrow> SelectedIKE s = Some sel \<and> SIKEKeys s = Some keys"
  by (auto simp: authMaterial_def split: option.splits)

lemma computeSignedOctets_responder:
  "computeSignedOctets s m True = Inr octets \<longleftrightarrow> authMaterial s \<noteq> None \<and> SAInitResponse s \<noteq> [] \<and> InitiatorNonce s \<noteq> []
     \<and> octets = SAInitResponse s @ InitiatorNonce s @ m"
  by (auto simp: computeSignedOctets_def)

lemma tryKeys_ok:
  assumes "tryKeys env certs i octets sig alg roots skip kts = Inr ()"
  obtains kt where "kt \<in> set kts"
    "VerifyPeerAuthSignature env certs (IDType i) (IDData i) octets sig (alg\<lparr> SigKeyType := kt \<rparr>) roots skip = Inr ()"
  using assms by (induction kts) (auto split: sum.splits)

lemma signatureInput_ok:
  assumes "signatureInput s auth = Inr (alg, sig, kts)" "kt \<in> set kts"
  shows "if AuthMethod auth = AuthDigitalSignature
    then ParseSignatureAuthData (AuthData auth) = Inr (alg, sig) \<and> kt = SigKeyType alg
      \<and> SigHashID alg \<in> set (PeerSignatureHashAlgorithms (SAuth s))
    else SigHash alg = Some HashSHA1 \<and> sig = AuthData auth"
  using assms by (auto simp: signatureInput_def containsUint16_def list_ex_iff split: if_splits)

lemma peerCertificates_ok:
  assumes "peerCertificates env cfg s = Inr (certs, roots)"
  shows "parseCertificates env (PeerCerts (SAuth s)) = Inr certs"
  using assms by (auto simp: peerCertificates_def split: if_splits sum.splits option.splits)

lemma verifySharedKey_ok:
  "verifySharedKey s sel keys idr auth = Inr () \<longleftrightarrow> authMaterial s \<noteq> None \<and> SAInitResponse s \<noteq> [] \<and> InitiatorNonce s \<noteq> []
     \<and> (\<exists>octets. responder_octets (SelPRF sel) keys s idr = Inr octets
          \<and> AuthMAC (SelPRF sel) (peerAuthSecret s keys) octets = Inr (AuthData auth))"
  by (auto simp: verifySharedKey_def responder_octets_def MACedID_def computeSignedOctets_responder bind_res_eq_Inr)

lemma verifyByCertificate_ok:
  assumes "verifyByCertificate env cfg s sel keys idr auth = Inr ()"
    and "AuthMethod auth \<in> {AuthRsaDigitalSignature, AuthDssDigitalSignature, AuthDigitalSignature}"
  shows "SAInitResponse s \<noteq> [] \<and> InitiatorNonce s \<noteq> [] \<and> signature_proof env cfg s sel keys (PeerCerts (SAuth s)) idr auth"
proof -
  obtain alg sg kts m octets i certs roots where o': "signatureInput s auth = Inr (alg, sg, kts)"
    "PRFSum (SelPRF sel) (SKpr keys) idr = Inr m" "computeSignedOctets s m True = Inr octets" "ParseID idr = Inr i"
    "peerCertificates env cfg s = Inr (certs, roots)"
    "tryKeys env certs i octets sg alg roots (InsecureSkipPeerCertVerify cfg) kts = Inr ()"
    using assms(1) by (auto simp: verifyByCertificate_def MACedID_def)
  note oct = o'(3) [unfolded computeSignedOctets_responder]
  obtain kt where kt: "kt \<in> set kts" "VerifyPeerAuthSignature env certs (IDType i) (IDData i) octets sg
      (alg\<lparr> SigKeyType := kt \<rparr>) roots (InsecureSkipPeerCertVerify cfg) = Inr ()"
    using tryKeys_ok [OF o'(6)] by blast
  obtain leaf ints where leaf: "certs = leaf # ints" "identifies env leaf (IDType i) (IDData i)"
    "signed_by env leaf octets sg (alg\<lparr> SigKeyType := kt \<rparr>)"
    "InsecureSkipPeerCertVerify cfg \<or> (\<exists>r. VerifyChain env r ints leaf = Inr ())"
    using VerifyPeerAuthSignature_ok [OF kt(2)] by blast
  have "responder_octets (SelPRF sel) keys s idr = Inr octets" using o'(2) oct by (simp add: responder_octets_def)
  then have "signature_proof env cfg s sel keys (PeerCerts (SAuth s)) idr auth"
    unfolding signature_proof_def
    using assms(2) o'(4) leaf peerCertificates_ok [OF o'(5)] signatureInput_ok [OF o'(1) kt(1)] by blast
  then show ?thesis using oct by blast
qed

lemma verifyPeerAuth_ok:
  assumes "verifyPeerAuth env cfg idr auth s = (s', Inr ())"
  shows "s' = s\<lparr> SAuth := (SAuth s)\<lparr> PeerAuthMethod := AuthMethod auth \<rparr> \<rparr>" "peer_proved env cfg s (PeerCerts (SAuth s)) idr auth"
proof -
  show "s' = s\<lparr> SAuth := (SAuth s)\<lparr> PeerAuthMethod := AuthMethod auth \<rparr> \<rparr>"
    using assms by (auto simp: verifyPeerAuth_def split: sum.splits option.splits)
  obtain sel keys where mat: "authMaterial s = Some (sel, keys)"
    using assms by (auto simp: verifyPeerAuth_def split: option.splits)
  consider (mic) "AuthMethod auth = AuthSharedKeyMIC" "verifySharedKey s sel keys idr auth = Inr ()"
    | (sig) "AuthMethod auth \<in> {AuthRsaDigitalSignature, AuthDssDigitalSignature, AuthDigitalSignature}"
        "verifyByCertificate env cfg s sel keys idr auth = Inr ()"
    using assms mat by (auto simp: verifyPeerAuth_def split: sum.splits if_splits)
  then show "peer_proved env cfg s (PeerCerts (SAuth s)) idr auth"
  proof cases
    case mic
    then show ?thesis
      using mat unfolding peer_proved_def mic_proof_def verifySharedKey_ok authMaterial_Some by blast
  next
    case sig
    then show ?thesis
      using mat verifyByCertificate_ok [OF sig(2,1)] unfolding peer_proved_def authMaterial_Some by blast
  qed
qed

section \<open>Lemmas: the final exchange\<close>

lemma validateAuthNotifies_ok: "validateAuthNotifies ns s = (s', Inr ()) \<Longrightarrow> s' = s"
  by (induction ns s rule: validateAuthNotifies.induct) (auto split: if_splits)

lemma recordPeerIdentity_ok:
  assumes "recordPeerIdentity cfg idr s = (s', Inr ())"
  obtains i where "ParseID idr = Inr i" "IDType (RightID cfg) = 0 \<or> RightIDMatches (RightID cfg) i"
    "s' = s\<lparr> SAuth := (SAuth s)\<lparr> PeerIDr := idr \<rparr> \<rparr>"
  using assms by (auto simp: recordPeerIdentity_def split: sum.splits if_splits)

text \<open>What the scan collects comes from the payloads of the message.\<close>

definition finalFrom :: "Payload list \<Rightarrow> finalScan \<Rightarrow> bool" where
  "finalFrom ps a \<longleftrightarrow>
     (\<forall>auth. fsAuth a = Some auth \<longrightarrow> (\<exists>p \<in> set ps. PType p = PayloadTypeAuth \<and> ParseAuth (Body p) = Inr auth))
     \<and> (fsIDr a \<noteq> [] \<longrightarrow> (\<exists>p \<in> set ps. PType p = PayloadTypeIDr \<and> Body p = fsIDr a))
     \<and> (\<forall>sa. fsSA a = Some sa \<longrightarrow> (\<exists>p \<in> set ps. PType p = PayloadTypeSA \<and> ParseSA (Body p) = Inr sa))"

lemma finalNotify_keeps:
  "finalNotify n a = Inr a' \<Longrightarrow> fsAuth a' = fsAuth a \<and> fsIDr a' = fsIDr a \<and> fsSA a' = fsSA a"
  by (auto simp: finalNotify_def Let_def split: if_splits)

lemma finalPayload_from:
  assumes "finalPayload p a = Inr a'" "finalFrom ps a"
  shows "finalFrom (ps @ [p]) a'"
proof -
  consider "PType p = PayloadTypeAuth" | "PType p = PayloadTypeIDr" | "PType p = PayloadTypeSA"
    | "fsAuth a' = fsAuth a \<and> fsIDr a' = fsIDr a \<and> fsSA a' = fsSA a"
    using assms(1) finalNotify_keeps by (auto simp: finalPayload_def split: if_splits)
  then show ?thesis
    by cases (use assms in \<open>auto simp: finalPayload_def finalFrom_def\<close>)
qed

lemma scanFinalPayloads_from:
  "scanFinalPayloads ps a = Inr a' \<Longrightarrow> finalFrom pre a \<Longrightarrow> finalFrom (pre @ ps) a'"
proof (induction ps arbitrary: a pre)
  case (Cons p ps)
  then obtain a1 where "finalPayload p a = Inr a1" "scanFinalPayloads ps a1 = Inr a'" by auto
  then show ?case using Cons.IH [of a1 "pre @ [p]"] finalPayload_from Cons.prems(2) by simp
qed simp

lemma espProposals_nth:
  "espProposals i spi offers = Inr sa \<Longrightarrow> length sa = length offers
   \<and> (\<forall>k < length offers. espOfferTransforms (offers ! k) = Inr (Transforms (sa ! k))
        \<and> Num (sa ! k) = word_of_nat (i + k + 1) \<and> PropProtocolID (sa ! k) = DeleteProtocolESP \<and> PropSPI (sa ! k) = be32 spi)"
proof (induction i spi offers arbitrary: sa rule: espProposals.induct)
  case (2 i spi offer offers)
  then obtain ts ps where ts: "espOfferTransforms offer = Inr ts" "espProposals (i + 1) spi offers = Inr ps"
    "sa = \<lparr> Num = word_of_nat (i + 1), PropProtocolID = DeleteProtocolESP, PropSPI = be32 spi, Transforms = ts \<rparr> # ps"
    by auto
  note IH = "2.IH" [OF ts(1) ts(2)]
  show ?case
  proof (intro conjI allI impI)
    show "length sa = length (offer # offers)" using IH ts(3) by simp
    fix k
    assume k: "k < length (offer # offers)"
    then show "espOfferTransforms ((offer # offers) ! k) = Inr (Transforms (sa ! k))"
      "Num (sa ! k) = word_of_nat (i + k + 1)" "PropProtocolID (sa ! k) = DeleteProtocolESP" "PropSPI (sa ! k) = be32 spi"
      using IH ts(1,3) by (cases k; simp)+
  qed
qed simp

lemma encTransforms_length: "encTransforms es = Inr ts \<Longrightarrow> length ts = length es"
  by (induction es arbitrary: ts) auto

section \<open>Properties\<close>

text \<open>The state of an end whose peer is this one.\<close>

definition other_end :: "State \<Rightarrow> State" where
  "other_end s = s\<lparr> SAInitResponse := SAInitRequest s, InitiatorNonce := ResponderNonce s,
     SIKEKeys := map_option (\<lambda>k. k\<lparr> SKpr := SKpi k \<rparr>) (SIKEKeys s) \<rparr>"

text \<open>C13: the shared-key AUTH of the two ends agrees. Seen from the other end (where the
  SA_INIT request and the responder's nonce are what the peer signed, and SK_pi is the key of
  the peer's identity), the AUTH payload the initiator builds verifies, and no other MIC
  does, whether the secret is the EAP key or, without one, the SK_p key.\<close>

theorem local_auth_verifies:
  assumes "buildLocalAuth s localID = Inr auth" "AuthMethod a = AuthSharedKeyMIC"
  defines "idBody \<equiv> (if FirstIDiPayload (SAuth s) = [] then AppendID [] localID else FirstIDiPayload (SAuth s))"
  shows "snd (verifyPeerAuth env cfg idBody a (other_end s)) = Inr () \<longleftrightarrow> AuthData a = AuthData auth"
proof -
  obtain sel keys m octets where loc: "SelectedIKE s = Some sel" "SIKEKeys s = Some keys"
    "PRFSum (SelPRF sel) (SKpi keys) idBody = Inr m" "computeSignedOctets s m False = Inr octets"
    "AuthMAC (SelPRF sel) (localAuthSecret s keys) octets = Inr (AuthData auth)"
    using assms(1) unfolding idBody_def
    by (auto simp: buildLocalAuth_def Let_def MACedID_def authMaterial_Some split: option.splits)
  let ?keys = "keys\<lparr> SKpr := SKpi keys \<rparr>"
  have oct: "SAInitRequest s \<noteq> []" "ResponderNonce s \<noteq> []" "octets = SAInitRequest s @ ResponderNonce s @ m"
    using loc(4) by (auto simp: computeSignedOctets_def split: if_splits)
  have mat: "authMaterial (other_end s) = Some (sel, ?keys)"
    by (simp add: authMaterial_Some other_end_def loc)
  have "responder_octets (SelPRF sel) ?keys (other_end s) idBody = Inr octets"
    by (simp add: responder_octets_def other_end_def loc(3) oct)
  moreover have "peerAuthSecret (other_end s) ?keys = localAuthSecret s keys"
    by (simp add: peerAuthSecret_def localAuthSecret_def other_end_def)
  ultimately have "verifySharedKey (other_end s) sel ?keys idBody a = Inr () \<longleftrightarrow> AuthData a = AuthData auth"
    unfolding verifySharedKey_ok using loc(5) oct mat by (auto simp: other_end_def)
  then show ?thesis using assms(2) mat by (auto simp: verifyPeerAuth_def split: sum.split)
qed

definition sample_auth_state :: State where
  "sample_auth_state = sample_initiator\<lparr> SAInitRequest := [1, 2], SAInitResponse := [3, 4], InitiatorNonce := [5],
     ResponderNonce := [6], NegotiatingChild := Some \<lparr> NegInboundSPI = 77 \<rparr> \<rparr>"

lemma sample_material: "SelectedIKE sample_auth_state = Some sample_ike_selection" "SIKEKeys sample_auth_state = Some sample_ike_keys"
  by (simp_all add: sample_auth_state_def sample_initiator_def)

lemma sample_sum: "PRFSum (SelPRF sample_ike_selection) k d = Inr (hmac HashSHA256 k d)"
  by (simp add: PRFSum_def sample_ike_selection_def)

definition sample_env :: "(unit, unit) x509" where
  "sample_env = \<lparr> ParseCertificate = (\<lambda>_. Inl EOF), SystemCertPool = Inr None, VerifyChain = (\<lambda>_ _ _. Inl EOF),
     VerifyHostname = (\<lambda>_ _. Inl EOF), VerifyPKCS1v15 = (\<lambda>_. None), VerifyASN1 = (\<lambda>_. None) \<rparr>"

theorem local_auth_verifies_witness:
  "\<exists>auth. buildLocalAuth sample_auth_state \<lparr> IDType = 2, IDData = [97] \<rparr> = Inr auth \<and> AuthMethod auth = AuthSharedKeyMIC
     \<and> snd (verifyPeerAuth sample_env sample_config (AppendID [] \<lparr> IDType = 2, IDData = [97] \<rparr>) auth (other_end sample_auth_state))
       = Inr ()"
proof -
  have first: "FirstIDiPayload (SAuth sample_auth_state) = []" "SAInitRequest sample_auth_state \<noteq> []"
    "ResponderNonce sample_auth_state \<noteq> []"
    by (simp_all add: sample_auth_state_def sample_initiator_def NewState_def)
  obtain auth where a: "buildLocalAuth sample_auth_state \<lparr> IDType = 2, IDData = [97] \<rparr> = Inr auth" "AuthMethod auth = AuthSharedKeyMIC"
    by (simp add: buildLocalAuth_def authMaterial_def sample_material MACedID_def AuthMAC_def sample_sum computeSignedOctets_def
        first Let_def)
  then show ?thesis using local_auth_verifies [OF a(1,2), of sample_env sample_config] first(1) by simp
qed

text \<open>C27: the responder's proposal number means the same on both ends. The SA body of the
  bootstrap request parses, and its proposals are the offers of the configuration in order:
  number \<open>k + 1\<close> carries the initiator's inbound SPI and the transforms of offer \<open>k\<close>, the
  list against which the answer is decoded.\<close>

theorem esp_offers_numbered:
  assumes "appendESPProposals cfg [] spi = Inr body" "childOffers cfg = Inr offers"
    and "\<forall>offer \<in> set offers. OfEnc offer \<noteq> []"
  shows "\<exists>sa. ParseSA body = Inr sa \<and> length sa = length offers
    \<and> (\<forall>k < length offers. espOfferTransforms (offers ! k) = Inr (Transforms (sa ! k))
         \<and> Num (sa ! k) = word_of_nat (k + 1) \<and> PropProtocolID (sa ! k) = DeleteProtocolESP \<and> PropSPI (sa ! k) = be32 spi)"
proof -
  obtain sa where sa: "espProposals 0 spi offers = Inr sa" "AppendSA [] sa = Inr body"
    using assms(1,2) by (auto simp: appendESPProposals_def)
  note nth = espProposals_nth [OF sa(1)]
  have "Transforms p \<noteq> []" if "p \<in> set sa" for p
  proof -
    obtain k where k: "k < length sa" "p = sa ! k" using \<open>p \<in> set sa\<close> by (auto simp: in_set_conv_nth)
    then have "espOfferTransforms (offers ! k) = Inr (Transforms p)" "OfEnc (offers ! k) \<noteq> []" using nth assms(3) by auto
    then show ?thesis using encTransforms_length by (fastforce simp: espOfferTransforms_def)
  qed
  then have "valid_SA sa"
    using AppendSA_valid [OF sa(2)] nth childOffers_spec(4) [OF assms(2)] by (auto simp: valid_SA_def)
  then have "body = SA_octets sa" "ParseSA (SA_octets sa) = Inr sa"
    using sa_codec.app_octets [of sa "[]"] sa_codec.parse_octets [of sa] sa(2) by simp_all
  then show ?thesis using nth by simp
qed

lemma length_KeyLengthAttr: "length (KeyLengthAttr bits) = 4"
  by (simp add: KeyLengthAttr_def putUint16_def)

lemma sample_esp_body: "\<exists>body. appendESPProposals sample_child_config [] 77 = Inr body"
  by (simp add: appendESPProposals_def sample_childOffers sample_offers_def espOfferTransforms_def mkOffer_def sample_esp_gcm_def
        sample_esp_cbc_def cesEncryptionListIsAEAD_def NewEncryption_def AppendProposal_def AppendTransform_def Let_def plainTransform_def length_KeyLengthAttr)

theorem esp_offers_numbered_witness:
  "\<exists>body sa. appendESPProposals sample_child_config [] 77 = Inr body \<and> ParseSA body = Inr sa \<and> length sa = 3
     \<and> Num (sa ! 2) = 3 \<and> PropSPI (sa ! 2) = [0, 0, 0, 77]"
proof -
  obtain body where b: "appendESPProposals sample_child_config [] 77 = Inr body" using sample_esp_body by blast
  have "\<forall>offer \<in> set sample_offers. OfEnc offer \<noteq> []" "length sample_offers = 3"
    by (simp_all add: sample_offers_def mkOffer_def sample_esp_gcm_def sample_esp_cbc_def)
  then obtain sa where "ParseSA body = Inr sa" "length sa = 3" "\<forall>k < 3. Num (sa ! k) = word_of_nat (k + 1) \<and> PropSPI (sa ! k) = be32 77"
    using esp_offers_numbered [OF b sample_childOffers] by auto
  moreover have "be32 77 = [0, 0, 0, 77]" by (simp add: be32_def)
  ultimately show ?thesis using b by (intro exI [of _ body] exI [of _ sa]) simp
qed


definition sample_idr :: bytes where
  "sample_idr = AppendID [] \<lparr> IDType = 2, IDData = [98] \<rparr>"

definition sample_mac :: bytes where
  "sample_mac = projr (AuthMAC sample_prf [] ([3, 4] @ [5] @ hmac HashSHA256 [] sample_idr))"

definition sample_cp :: ConfigPayload where
  "sample_cp = \<lparr> Kind = ConfigTypeReply, Attributes = config_attrs sample_assigned \<rparr>"

definition sample_final_payloads :: "Payload list" where
  "sample_final_payloads = map (\<lambda>(t, b). \<lparr> PType = t, Critical = False, Next = 0, Body = b \<rparr>)
     [(PayloadTypeIDr, sample_idr), (PayloadTypeAuth, AppendAuth [] \<lparr> AuthMethod = AuthSharedKeyMIC, AuthData = sample_mac \<rparr>),
      (PayloadTypeSA, SA_octets [sample_choice]), (PayloadTypeCP, CP_octets sample_cp),
      (PayloadTypeTSi, TS_octets [sample_selector]), (PayloadTypeTSr, TS_octets [sample_selector])]"

definition sample_final :: Message where
  "sample_final = \<lparr> MHeader = undefined, Payloads = sample_final_payloads, Encrypted = None \<rparr>"

definition sample_final_scan :: finalScan where
  "sample_final_scan = noFinalScan\<lparr> fsIDr := sample_idr, fsAuth := Some \<lparr> AuthMethod = AuthSharedKeyMIC, AuthData = sample_mac \<rparr>,
     fsSA := Some [sample_choice], fsCP := CP_octets sample_cp, fsTSi := TS_octets [sample_selector],
     fsTSr := TS_octets [sample_selector] \<rparr>"

lemma sample_final_parses:
  "ParseSA (SA_octets [sample_choice]) = Inr [sample_choice]" "ParseConfigPayload (CP_octets sample_cp) = Inr sample_cp"
  "ParseTS (TS_octets [sample_selector]) = Inr [sample_selector]" "wf_assigned sample_assigned"
proof -
  have "valid_SA [sample_choice]"
    by (simp add: valid_SA_def valid_proposal_def valid_transform_def sample_choice_def plainTransform_def length_KeyLengthAttr)
  then show "ParseSA (SA_octets [sample_choice]) = Inr [sample_choice]" by (rule sa_codec.parse_octets)
  show wf: "wf_assigned sample_assigned" by (simp add: wf_assigned_def sample_assigned_def v4_mapped_def)
  have "valid_CP sample_cp"
    by (simp add: valid_CP_def sample_cp_def config_attrs_def valid_attribute_def sample_assigned_def)
  then show "ParseConfigPayload (CP_octets sample_cp) = Inr sample_cp" by (rule cp_codec.parse_octets)
  have c: "compareIP (v4InV6Prefix @ [10, 0, 0, 7]) (v4InV6Prefix @ [10, 0, 0, 7]) \<le> 0"
    by (simp add: compareIP_def v4InV6Prefix_def)
  then have "valid_TS [sample_selector]" by (simp add: valid_TS_def valid_selector_def sample_selector_def valid_addr_def)
  then show "ParseTS (TS_octets [sample_selector]) = Inr [sample_selector]" by (rule ParseTS_octets)
qed

lemma sample_final_scanned: "scanFinalPayloads sample_final_payloads noFinalScan = Inr sample_final_scan"
  by (simp add: sample_final_payloads_def finalPayload_def sample_final_parses sample_final_scan_def noFinalScan_def
        auth_codec.parse_octets [of "\<lparr> AuthMethod = AuthSharedKeyMIC, AuthData = sample_mac \<rparr>", simplified] del: SA_octets.simps)

lemma sample_childConfig: "childConfig sample_final_scan = Inr (sample_assigned, False)"
proof -
  have ne: "CP_octets sample_cp \<noteq> []" "TS_octets [sample_selector] \<noteq> []" by (simp_all add: CP_octets_def TS_octets_def)
  have dec: "cesDecodeAssignedCP sample_cp = Inr (sample_assigned, config_mask sample_assigned)"
    using decode_config_attrs [OF sample_final_parses(4)] by (simp add: cesDecodeAssignedCP_def sample_cp_def)
  have valid: "validateTrafficSelectors [sample_selector] [sample_selector] sample_assigned = Inr ()"
    by (simp add: validateTrafficSelectors_def checkTSi_def checkTSr_def cesCheckSelector_def sample_selector_def
          sample_assigned_def IPEqual_def)
  have "Kind sample_cp = ConfigTypeReply" "InternalIPv4 sample_assigned \<noteq> None" by (simp_all add: sample_cp_def sample_assigned_def)
  then show ?thesis
    using ne dec valid by (simp add: childConfig_def sample_final_scan_def sample_final_parses)
qed

lemma sample_final_accepted:
  "\<exists>s' child. processFinalAuth sample_env sample_child_config sample_final sample_auth_state = (s', Inr (child, False))"
proof -
  let ?auth = "\<lparr> AuthMethod = AuthSharedKeyMIC, AuthData = sample_mac \<rparr>"
  have neg: "NegotiatingChild sample_auth_state = Some \<lparr> NegInboundSPI = 77 \<rparr>" "SAInitResponse sample_auth_state = [3, 4]"
    "InitiatorNonce sample_auth_state = [5]" "LocalEAPMSK (SAuth sample_auth_state) = []"
    by (simp_all add: sample_auth_state_def sample_initiator_def NewState_def)
  have id: "ParseID sample_idr = Inr \<lparr> IDType = 2, IDData = [98] \<rparr>" "length sample_idr = 5" "sample_idr \<noteq> []"
    by (simp_all add: sample_idr_def AppendID_def ParseID_def)
  obtain s1 where rec: "recordPeerIdentity sample_child_config sample_idr sample_auth_state = (s1, Inr ())"
    and s1: "s1 = sample_auth_state\<lparr> SAuth := (SAuth sample_auth_state)\<lparr> PeerIDr := sample_idr \<rparr> \<rparr>"
    by (simp add: recordPeerIdentity_def id sample_child_config_def sample_config_def)
  have sk: "SKpr sample_ike_keys = []" "SelPRF sample_ike_selection = sample_prf"
    by (simp_all add: sample_ike_keys_def sample_ike_selection_def)
  have mac: "AuthMAC sample_prf [] ([3, 4] @ [5] @ hmac HashSHA256 [] sample_idr) = Inr sample_mac"
    using sample_sum by (simp add: sample_mac_def AuthMAC_def sk)
  have "verifySharedKey s1 sample_ike_selection sample_ike_keys sample_idr ?auth = Inr ()"
    unfolding verifySharedKey_ok using mac sample_sum neg s1 sample_material
    by (simp add: authMaterial_def responder_octets_def peerAuthSecret_def sk)
  then obtain s2 where ver: "verifyPeerAuth sample_env sample_child_config sample_idr ?auth s1 = (s2, Inr ())"
    and sel: "SelectedIKE s2 = SelectedIKE sample_state"
    using sample_material s1 by (simp add: verifyPeerAuth_def authMaterial_def sample_state_def)
  obtain sel where "decodeChildSelection sample_child_config s2 [sample_choice] = Inr (0x01020304, sel)"
    using sample_decode decodeChildSelection_cong [OF sel] by auto
  then have "\<exists>s' child. installChild sample_child_config \<lparr> NegInboundSPI = 77 \<rparr> sample_final_scan s2 = (s', Inr (child, False))"
    using sample_childConfig by (simp add: installChild_def sample_final_scan_def noFinalScan_def Let_def cesValidateSpiNotifies_def)
  moreover have "fsIDr sample_final_scan = sample_idr" "fsAuth sample_final_scan = Some ?auth" "fsEAP sample_final_scan = []"
    "fsNotifies sample_final_scan = []" "fsCerts sample_final_scan = []"
    by (simp_all add: sample_final_scan_def noFinalScan_def)
  ultimately show ?thesis
    using neg rec ver id
    by (simp add: processFinalAuth_def sample_final_def sample_final_scanned peerIdentity_def setPeerCerts_def Let_def)
qed


end
