(* ===== verification/Std_Legacy.thy ===== *)
theory Std_Legacy
  imports Identity Xcrypto_X509
begin

text \<open>
  The parts of the Go standard library that the EAP methods use beyond those of
  \<open>Std_Crypto\<close> and \<open>Identity\<close>: the DES block cipher (\<^verbatim>\<open>crypto/des\<close>, FIPS 46-3), runes and
  UTF-16 (\<^verbatim>\<open>unicode/utf16\<close>), \<^verbatim>\<open>strings.Fields\<close> and \<^verbatim>\<open>strings.Cut\<close>.
  The lemmas give the lengths of the results.
\<close>

section \<open>DES\<close>

text \<open>A block is the list of its bits, the most significant first; the tables of the standard
  count bits from 1.\<close>

definition octet_bits :: "byte \<Rightarrow> bool list" where
  "octet_bits b = map (bit b) [7, 6, 5, 4, 3, 2, 1, 0]"

definition bits_nat :: "bool list \<Rightarrow> nat" where
  "bits_nat bs = foldl (\<lambda>n b. 2 * n + (if b then 1 else 0)) 0 bs"

definition bits_octets :: "bool list \<Rightarrow> bytes" where
  "bits_octets bs = map (\<lambda>i. word_of_nat (bits_nat (subslice bs (8 * i) (8 * i + 8)))) [0..<length bs div 8]"

definition select_bits :: "nat list \<Rightarrow> bool list \<Rightarrow> bool list" where
  "select_bits table bs = map (\<lambda>i. bs ! (i - 1)) table"

definition des_IP :: "nat list" where
  "des_IP =
    [58, 50, 42, 34, 26, 18, 10, 2, 60, 52, 44, 36, 28, 20, 12, 4,
     62, 54, 46, 38, 30, 22, 14, 6, 64, 56, 48, 40, 32, 24, 16, 8,
     57, 49, 41, 33, 25, 17, 9, 1, 59, 51, 43, 35, 27, 19, 11, 3,
     61, 53, 45, 37, 29, 21, 13, 5, 63, 55, 47, 39, 31, 23, 15, 7]"

definition des_FP :: "nat list" where
  "des_FP =
    [40, 8, 48, 16, 56, 24, 64, 32, 39, 7, 47, 15, 55, 23, 63, 31,
     38, 6, 46, 14, 54, 22, 62, 30, 37, 5, 45, 13, 53, 21, 61, 29,
     36, 4, 44, 12, 52, 20, 60, 28, 35, 3, 43, 11, 51, 19, 59, 27,
     34, 2, 42, 10, 50, 18, 58, 26, 33, 1, 41, 9, 49, 17, 57, 25]"

definition des_E :: "nat list" where
  "des_E =
    [32, 1, 2, 3, 4, 5, 4, 5, 6, 7, 8, 9,
     8, 9, 10, 11, 12, 13, 12, 13, 14, 15, 16, 17,
     16, 17, 18, 19, 20, 21, 20, 21, 22, 23, 24, 25,
     24, 25, 26, 27, 28, 29, 28, 29, 30, 31, 32, 1]"

definition des_P :: "nat list" where
  "des_P =
    [16, 7, 20, 21, 29, 12, 28, 17, 1, 15, 23, 26, 5, 18, 31, 10,
     2, 8, 24, 14, 32, 27, 3, 9, 19, 13, 30, 6, 22, 11, 4, 25]"

definition des_PC1 :: "nat list" where
  "des_PC1 =
    [57, 49, 41, 33, 25, 17, 9, 1, 58, 50, 42, 34, 26, 18,
     10, 2, 59, 51, 43, 35, 27, 19, 11, 3, 60, 52, 44, 36,
     63, 55, 47, 39, 31, 23, 15, 7, 62, 54, 46, 38, 30, 22,
     14, 6, 61, 53, 45, 37, 29, 21, 13, 5, 28, 20, 12, 4]"

definition des_PC2 :: "nat list" where
  "des_PC2 =
    [14, 17, 11, 24, 1, 5, 3, 28, 15, 6, 21, 10,
     23, 19, 12, 4, 26, 8, 16, 7, 27, 20, 13, 2,
     41, 52, 31, 37, 47, 55, 30, 40, 51, 45, 33, 48,
     44, 49, 39, 56, 34, 53, 46, 42, 50, 36, 29, 32]"

definition des_shifts :: "nat list" where
  "des_shifts = [1, 1, 2, 2, 2, 2, 2, 2, 1, 2, 2, 2, 2, 2, 2, 1]"

definition des_S :: "nat list list" where
  "des_S =
    [[14, 4, 13, 1, 2, 15, 11, 8, 3, 10, 6, 12, 5, 9, 0, 7,
      0, 15, 7, 4, 14, 2, 13, 1, 10, 6, 12, 11, 9, 5, 3, 8,
      4, 1, 14, 8, 13, 6, 2, 11, 15, 12, 9, 7, 3, 10, 5, 0,
      15, 12, 8, 2, 4, 9, 1, 7, 5, 11, 3, 14, 10, 0, 6, 13],
     [15, 1, 8, 14, 6, 11, 3, 4, 9, 7, 2, 13, 12, 0, 5, 10,
      3, 13, 4, 7, 15, 2, 8, 14, 12, 0, 1, 10, 6, 9, 11, 5,
      0, 14, 7, 11, 10, 4, 13, 1, 5, 8, 12, 6, 9, 3, 2, 15,
      13, 8, 10, 1, 3, 15, 4, 2, 11, 6, 7, 12, 0, 5, 14, 9],
     [10, 0, 9, 14, 6, 3, 15, 5, 1, 13, 12, 7, 11, 4, 2, 8,
      13, 7, 0, 9, 3, 4, 6, 10, 2, 8, 5, 14, 12, 11, 15, 1,
      13, 6, 4, 9, 8, 15, 3, 0, 11, 1, 2, 12, 5, 10, 14, 7,
      1, 10, 13, 0, 6, 9, 8, 7, 4, 15, 14, 3, 11, 5, 2, 12],
     [7, 13, 14, 3, 0, 6, 9, 10, 1, 2, 8, 5, 11, 12, 4, 15,
      13, 8, 11, 5, 6, 15, 0, 3, 4, 7, 2, 12, 1, 10, 14, 9,
      10, 6, 9, 0, 12, 11, 7, 13, 15, 1, 3, 14, 5, 2, 8, 4,
      3, 15, 0, 6, 10, 1, 13, 8, 9, 4, 5, 11, 12, 7, 2, 14],
     [2, 12, 4, 1, 7, 10, 11, 6, 8, 5, 3, 15, 13, 0, 14, 9,
      14, 11, 2, 12, 4, 7, 13, 1, 5, 0, 15, 10, 3, 9, 8, 6,
      4, 2, 1, 11, 10, 13, 7, 8, 15, 9, 12, 5, 6, 3, 0, 14,
      11, 8, 12, 7, 1, 14, 2, 13, 6, 15, 0, 9, 10, 4, 5, 3],
     [12, 1, 10, 15, 9, 2, 6, 8, 0, 13, 3, 4, 14, 7, 5, 11,
      10, 15, 4, 2, 7, 12, 9, 5, 6, 1, 13, 14, 0, 11, 3, 8,
      9, 14, 15, 5, 2, 8, 12, 3, 7, 0, 4, 10, 1, 13, 11, 6,
      4, 3, 2, 12, 9, 5, 15, 10, 11, 14, 1, 7, 6, 0, 8, 13],
     [4, 11, 2, 14, 15, 0, 8, 13, 3, 12, 9, 7, 5, 10, 6, 1,
      13, 0, 11, 7, 4, 9, 1, 10, 14, 3, 5, 12, 2, 15, 8, 6,
      1, 4, 11, 13, 12, 3, 7, 14, 10, 15, 6, 8, 0, 5, 9, 2,
      6, 11, 13, 8, 1, 4, 10, 7, 9, 5, 0, 15, 14, 2, 3, 12],
     [13, 2, 8, 4, 6, 15, 11, 1, 10, 9, 3, 14, 5, 0, 12, 7,
      1, 15, 13, 8, 10, 3, 7, 4, 12, 5, 6, 11, 0, 14, 9, 2,
      7, 11, 4, 1, 9, 12, 14, 2, 0, 6, 10, 13, 15, 3, 5, 8,
      2, 1, 14, 7, 4, 10, 8, 13, 15, 12, 9, 0, 3, 5, 6, 11]]"

fun des_keys :: "nat list \<Rightarrow> bool list \<Rightarrow> bool list \<Rightarrow> bool list list" where
  "des_keys [] c d = []"
| "des_keys (k # ks) c d =
    (let c = rotate k c; d = rotate k d in select_bits des_PC2 (c @ d) # des_keys ks c d)"

definition des_sbox :: "nat \<Rightarrow> bool list \<Rightarrow> bool list" where
  "des_sbox i g =
    (let row = bits_nat [g ! 0, g ! 5]; col = bits_nat [g ! 1, g ! 2, g ! 3, g ! 4];
         v = des_S ! i ! (16 * row + col) in
     map (bit v) [3, 2, 1, 0])"

definition xor_bits :: "bool list \<Rightarrow> bool list \<Rightarrow> bool list" where
  "xor_bits xs ys = map2 (\<noteq>) xs ys"

definition des_f :: "bool list \<Rightarrow> bool list \<Rightarrow> bool list" where
  "des_f r k =
    (let e = xor_bits (select_bits des_E r) k in
     select_bits des_P (concat (map (\<lambda>i. des_sbox i (subslice e (6 * i) (6 * i + 6))) [0..<8])))"

fun des_rounds :: "bool list list \<Rightarrow> bool list \<Rightarrow> bool list \<Rightarrow> bool list \<times> bool list" where
  "des_rounds [] l r = (l, r)"
| "des_rounds (k # ks) l r = des_rounds ks r (xor_bits l (des_f r k))"

definition des_encrypt :: "bytes \<Rightarrow> bytes \<Rightarrow> bytes" where
  "des_encrypt key block =
    (let kb = select_bits des_PC1 (concat (map octet_bits key));
         keys = des_keys des_shifts (take 28 kb) (drop 28 kb);
         x = select_bits des_IP (concat (map octet_bits block));
         (l, r) = des_rounds keys (take 32 x) (drop 32 x) in
     bits_octets (select_bits des_FP (r @ l)))"

section \<open>Text\<close>

text \<open>The conversion of a string to runes: an octet that does not start a valid encoding is
  the rune U+FFFD.\<close>

function runes :: "bytes \<Rightarrow> nat list" where
  "runes s =
    (case s of
       [] \<Rightarrow> []
     | b # r \<Rightarrow>
         if b < 0x80 then unat b # runes r
         else if 0xc2 \<le> b \<and> b \<le> 0xdf \<and> length r \<ge> 1 \<and> cont (r ! 0)
         then ((unat b - 0xc0) * 64 + (unat (r ! 0) - 0x80)) # runes (drop 1 r)
         else if 0xe0 \<le> b \<and> b \<le> 0xef \<and> length r \<ge> 2
           \<and> (if b = 0xe0 then 0xa0 else 0x80) \<le> r ! 0 \<and> r ! 0 \<le> (if b = 0xed then 0x9f else 0xbf) \<and> cont (r ! 1)
         then ((unat b - 0xe0) * 4096 + (unat (r ! 0) - 0x80) * 64 + (unat (r ! 1) - 0x80)) # runes (drop 2 r)
         else if 0xf0 \<le> b \<and> b \<le> 0xf4 \<and> length r \<ge> 3
           \<and> (if b = 0xf0 then 0x90 else 0x80) \<le> r ! 0 \<and> r ! 0 \<le> (if b = 0xf4 then 0x8f else 0xbf)
           \<and> cont (r ! 1) \<and> cont (r ! 2)
         then ((unat b - 0xf0) * 262144 + (unat (r ! 0) - 0x80) * 4096 + (unat (r ! 1) - 0x80) * 64
               + (unat (r ! 2) - 0x80)) # runes (drop 3 r)
         else 0xfffd # runes r)"
  by pat_completeness auto
termination
  by (relation "measure length") auto

declare runes.simps [simp del]

text \<open>\<^verbatim>\<open>utf16.Encode\<close>.\<close>

definition utf16_units :: "nat \<Rightarrow> nat list" where
  "utf16_units r =
    (if r < 0xd800 \<or> (0xe000 \<le> r \<and> r < 0x10000) then [r]
     else if 0x10000 \<le> r \<and> r \<le> 0x10ffff
     then [0xd800 + (r - 0x10000) div 1024, 0xdc00 + (r - 0x10000) mod 1024]
     else [0xfffd])"

definition utf16_encode :: "nat list \<Rightarrow> (16 word) list" where
  "utf16_encode rs = map word_of_nat (concat (map utf16_units rs))"

text \<open>\<^verbatim>\<open>strings.Fields\<close> of valid UTF-8, where an encoding of a white space character occurs
  only as that character; \<open>w\<close> is the field read so far.\<close>

definition flush_field :: "string \<Rightarrow> string list" where
  "flush_field w = (if w = [] then [] else [w])"

function fields_from :: "string \<Rightarrow> string \<Rightarrow> string list" where
  "fields_from s w =
    (case s of
       [] \<Rightarrow> flush_field w
     | c # cs \<Rightarrow>
        (case find (\<lambda>sp. sp \<noteq> [] \<and> is_prefix sp s) spaces of
           Some sp \<Rightarrow> flush_field w @ fields_from (drop (length sp) s) []
         | None \<Rightarrow> fields_from cs (w @ [c])))"
  by pat_completeness auto
termination
  by (relation "measure (\<lambda>(s, _). length s)") (auto simp: find_Some_iff)

declare fields_from.simps [simp del]

definition Fields :: "string \<Rightarrow> string list" where
  "Fields s = fields_from s []"

text \<open>\<^verbatim>\<open>strings.Cut\<close> at a character, \<^verbatim>\<open>strings.IndexByte\<close>.\<close>

definition Cut :: "string \<Rightarrow> char \<Rightarrow> (string \<times> string) option" where
  "Cut s c = (if c \<in> set s then Some (takeWhile (\<lambda>x. x \<noteq> c) s, tl (dropWhile (\<lambda>x. x \<noteq> c) s)) else None)"

text \<open>A Go string seen as octets and the reverse.\<close>

definition str_bytes :: "string \<Rightarrow> bytes" where
  "str_bytes s = map (\<lambda>c. word_of_nat (of_char c)) s"

definition bytes_str :: "bytes \<Rightarrow> string" where
  "bytes_str b = map (\<lambda>x. char_of (unat x)) b"

section \<open>Lemmas\<close>

lemma length_select_bits [simp]: "length (select_bits t bs) = length t"
  by (simp add: select_bits_def)

lemma length_bits_octets [simp]: "length (bits_octets bs) = length bs div 8"
  by (simp add: bits_octets_def)

lemma length_des_encrypt [simp]: "length (des_encrypt key block) = 8"
  by (simp add: des_encrypt_def Let_def des_FP_def split: prod.split)

end
