(* ===== verification/Eap_Mschapv2.thy ===== *)
theory Eap_Mschapv2
  imports Eap Std_Legacy
begin

text \<open>
  The EAP-MSCHAPv2 peer method (\<^verbatim>\<open>src/eap/mschapv2/mschapv2.go\<close>, \<^verbatim>\<open>src/eap/mschapv2/md4.go\<close>):
  the MD4 digest, the NT response, authenticator response and master session key of RFC
  2759 and RFC 3079, the parsers of the success and failure messages, and the state
  machine of the method. The peer challenge drawn from \<^verbatim>\<open>crypto/rand\<close> is an argument.

  The lemmas relate MD4 to its padding rule, show that the method is an instance of
  \<open>eap_method\<close>, and that it exports a key only after the server proved that it knows the
  password.
\<close>

section \<open>MD4\<close>

definition le32 :: "32 word \<Rightarrow> bytes" where
  "le32 w = rev (be32 w)"

definition word32_le :: "bytes \<Rightarrow> 32 word" where
  "word32_le b = word32_be (rev b)"

definition md4F :: "32 word \<Rightarrow> 32 word \<Rightarrow> 32 word \<Rightarrow> 32 word" where
  "md4F x y z = (x AND y) OR (NOT x AND z)"

definition md4G :: "32 word \<Rightarrow> 32 word \<Rightarrow> 32 word \<Rightarrow> 32 word" where
  "md4G x y z = (x AND y) OR (x AND z) OR (y AND z)"

definition md4H :: "32 word \<Rightarrow> 32 word \<Rightarrow> 32 word \<Rightarrow> 32 word" where
  "md4H x y z = x XOR y XOR z"

type_synonym md4State = "32 word \<times> 32 word \<times> 32 word \<times> 32 word"

fun md4StepF :: "32 word \<times> nat \<Rightarrow> md4State \<Rightarrow> md4State" where
  "md4StepF (x, s) (a, b, c, d) = (d, word_rotl s (a + md4F b c d + x), b, c)"

fun md4StepG :: "32 word \<times> nat \<Rightarrow> md4State \<Rightarrow> md4State" where
  "md4StepG (x, s) (a, b, c, d) = (d, word_rotl s (a + md4G b c d + x + 0x5a827999), b, c)"

fun md4StepH :: "32 word \<times> nat \<Rightarrow> md4State \<Rightarrow> md4State" where
  "md4StepH (x, s) (a, b, c, d) = (d, word_rotl s (a + md4H b c d + x + 0x6ed9eba1), b, c)"

definition md4Transform :: "bytes \<Rightarrow> md4State \<Rightarrow> md4State" where
  "md4Transform block st =
    (let x = map (\<lambda>i. word32_le (subslice block (i * 4) (i * 4 + 4))) [0..<16];
         order1 = [0, 1, 2, 3, 4, 5, 6, 7, 8, 9, 10, 11, 12, 13, 14, 15];
         shifts1 = [3, 7, 11, 19, 3, 7, 11, 19, 3, 7, 11, 19, 3, 7, 11, 19];
         r1 = fold md4StepF (zip (map ((!) x) order1) shifts1) st;
         order2 = [0, 4, 8, 12, 1, 5, 9, 13, 2, 6, 10, 14, 3, 7, 11, 15];
         shifts2 = [3, 5, 9, 13, 3, 5, 9, 13, 3, 5, 9, 13, 3, 5, 9, 13];
         r2 = fold md4StepG (zip (map ((!) x) order2) shifts2) r1;
         order3 = [0, 8, 4, 12, 2, 10, 6, 14, 1, 9, 5, 13, 3, 11, 7, 15];
         shifts3 = [3, 9, 11, 15, 3, 9, 11, 15, 3, 9, 11, 15, 3, 9, 11, 15];
         (a, b, c, d) = fold md4StepH (zip (map ((!) x) order3) shifts3) r2
     in case st of (a0, b0, c0, d0) \<Rightarrow> (a0 + a, b0 + b, c0 + c, d0 + d))"

definition md4Init :: md4State where
  "md4Init = (0x67452301, 0xefcdab89, 0x98badcfe, 0x10325476)"

text \<open>\<^verbatim>\<open>copy\<close> into a zero block, and the two ways the length field is placed.\<close>

definition md4 :: "bytes \<Rightarrow> bytes" where
  "md4 input =
    (let fullBlocks = length input div 64;
         st = fold (\<lambda>i. md4Transform (subslice input (i * 64) ((i + 1) * 64))) [0..<fullBlocks] md4Init;
         tail = drop (fullBlocks * 64) input;
         block = (tail @ replicate (64 - length tail) 0)[length tail := 0x80];
         (st, block) = (if length tail \<ge> 56 then (md4Transform block st, replicate 64 0) else (st, block));
         block = take 56 block @ rev (be64 (word_of_nat (length input) * 8));
         (a, b, c, d) = md4Transform block st
     in le32 a @ le32 b @ le32 c @ le32 d)"

section \<open>Keys and responses\<close>

definition magic1 :: bytes where "magic1 = str_bytes ''Magic server to client signing constant''"
definition magic2 :: bytes where "magic2 = str_bytes ''Pad to make it do more than one iteration''"
definition mskMagic1 :: bytes where "mskMagic1 = str_bytes ''This is the MPPE Master Key''"
definition mskMagic2 :: bytes where
  "mskMagic2 = str_bytes ''On the client side, this is the send key; on the server side, it is the receive key.''"
definition mskMagic3 :: bytes where
  "mskMagic3 = str_bytes ''On the client side, this is the receive key; on the server side, it is the send key.''"
definition shapad1 :: bytes where "shapad1 = replicate 40 0"
definition shapad2 :: bytes where "shapad2 = replicate 40 0xF2"

definition utf16LE :: "bytes \<Rightarrow> bytes" where
  "utf16LE s = concat (map (\<lambda>u. [ucast u, ucast (drop_bit 8 u)]) (utf16_encode (runes s)))"

definition ntPasswordHash :: "bytes \<Rightarrow> bytes" where
  "ntPasswordHash password = md4 (utf16LE password)"

definition challengeHash :: "bytes \<Rightarrow> bytes \<Rightarrow> bytes \<Rightarrow> bytes" where
  "challengeHash peerChallenge authChallenge username = take 8 (sha1 (peerChallenge @ authChallenge @ username))"

function onesCount :: "byte \<Rightarrow> nat" where
  "onesCount b = (if b = 0 then 0 else onesCount (b AND (b - 1)) + 1)"
  by pat_completeness auto
termination
proof (relation "measure unat")
  fix b :: byte
  assume "b \<noteq> 0"
  then have "unat (b - 1) < unat b" by (simp add: unat_minus_one unat_gt_0)
  moreover have "unat (b AND (b - 1)) \<le> unat (b - 1)" by (metis and.commute word_and_le1 word_le_nat_alt)
  ultimately show "(b AND (b - 1), b) \<in> measure unat" by simp
qed simp

declare onesCount.simps [simp del]

definition oddParity :: "byte \<Rightarrow> byte" where
  "oddParity b = (let b = b AND 0xFE in if onesCount b mod 2 = 0 then b OR 1 else b)"

definition expandDesKey :: "bytes \<Rightarrow> bytes" where
  "expandDesKey k = map oddParity
    [k ! 0 AND 0xFE,
     (push_bit 7 (k ! 0) OR drop_bit 1 (k ! 1)) AND 0xFE,
     (push_bit 6 (k ! 1) OR drop_bit 2 (k ! 2)) AND 0xFE,
     (push_bit 5 (k ! 2) OR drop_bit 3 (k ! 3)) AND 0xFE,
     (push_bit 4 (k ! 3) OR drop_bit 4 (k ! 4)) AND 0xFE,
     (push_bit 3 (k ! 4) OR drop_bit 5 (k ! 5)) AND 0xFE,
     (push_bit 2 (k ! 5) OR drop_bit 6 (k ! 6)) AND 0xFE,
     push_bit 1 (k ! 6)]"

definition desEncryptBlock :: "bytes \<Rightarrow> bytes \<Rightarrow> bytes" where
  "desEncryptBlock key block = des_encrypt key block"

definition generateNTResponse :: "bytes \<Rightarrow> bytes \<Rightarrow> bytes \<Rightarrow> bytes \<Rightarrow> bytes" where
  "generateNTResponse peerChallenge authChallenge username password =
    (let challenge = challengeHash peerChallenge authChallenge username;
         zeroPadded = ntPasswordHash password @ replicate 5 0 in
     concat (map (\<lambda>i. desEncryptBlock (expandDesKey (subslice zeroPadded (i * 7) ((i + 1) * 7))) challenge) [0..<3]))"

definition hexEncode :: "bytes \<Rightarrow> string" where
  "hexEncode b = concat (map (\<lambda>v. [''0123456789ABCDEF'' ! unat (drop_bit 4 v), ''0123456789ABCDEF'' ! unat (v AND 0x0F)]) b)"

definition ToUpper :: "string \<Rightarrow> string" where
  "ToUpper s = map (\<lambda>c. if CHR ''a'' \<le> c \<and> c \<le> CHR ''z'' then char_of (of_char c - 32 :: nat) else c) s"

definition generateAuthenticatorResponse :: "bytes \<Rightarrow> bytes \<Rightarrow> bytes \<Rightarrow> bytes \<Rightarrow> bytes \<Rightarrow> string" where
  "generateAuthenticatorResponse peerChallenge authChallenge username password ntResponse =
    (let pwHashHash = md4 (ntPasswordHash password);
         dig = sha1 (pwHashHash @ ntResponse @ magic1);
         challenge = challengeHash peerChallenge authChallenge username in
     ToUpper (hexEncode (sha1 (dig @ challenge @ magic2))))"

definition generateMSK :: "bytes \<Rightarrow> bytes \<Rightarrow> bytes" where
  "generateMSK password ntResponse =
    (let pwHashHash = md4 (ntPasswordHash password);
         master = take 16 (sha1 (pwHashHash @ ntResponse @ mskMagic1));
         recv = sha1 (master @ shapad1 @ mskMagic2 @ shapad2);
         send = sha1 (master @ shapad1 @ mskMagic3 @ shapad2) in
     take 16 recv @ take 16 send @ replicate 16 0 @ replicate 16 0)"

section \<open>Messages\<close>

definition hexNibble :: "char \<Rightarrow> byte option" where
  "hexNibble c =
    (let n = of_char c :: nat in
     if 48 \<le> n \<and> n \<le> 57 then Some (word_of_nat (n - 48))
     else if 97 \<le> n \<and> n \<le> 102 then Some (word_of_nat (n - 97 + 10))
     else if 65 \<le> n \<and> n \<le> 70 then Some (word_of_nat (n - 65 + 10))
     else None)"

fun hexPairs :: "string \<Rightarrow> bytes res" where
  "hexPairs (h # l # s) =
    (case (hexNibble h, hexNibble l) of
       (Some hi, Some lo) \<Rightarrow> bind_res (hexPairs s) (\<lambda>r. Inr ((push_bit 4 hi OR lo) # r))
     | _ \<Rightarrow> Inl (Errorf ''invalid hex''))"
| "hexPairs _ = Inr []"

definition hexDecode :: "string \<Rightarrow> bytes res" where
  "hexDecode s = (if length s mod 2 \<noteq> 0 then Inl (Errorf ''odd length hex'') else hexPairs s)"

definition isHex :: "string \<Rightarrow> bool" where
  "isHex s = is_ok (hexDecode s)"

definition isDigits :: "string \<Rightarrow> bool" where
  "isDigits s = list_all (\<lambda>c. 48 \<le> (of_char c :: nat) \<and> (of_char c :: nat) \<le> 57) s"

text \<open>\<^verbatim>\<open>strings.EqualFold\<close> of two texts without other than ASCII letters, which hexadecimal
  digits are.\<close>

definition EqualFold :: "string \<Rightarrow> string \<Rightarrow> bool" where
  "EqualFold s t \<longleftrightarrow> ToUpper s = ToUpper t"

fun findSignature :: "string list \<Rightarrow> string" where
  "findSignature [] = []"
| "findSignature (token # tokens) = (case CutPrefix token ''S='' of Some v \<Rightarrow> v | None \<Rightarrow> findSignature tokens)"

definition verifySuccess :: "bytes \<Rightarrow> string \<Rightarrow> unit res" where
  "verifySuccess payload expected =
    (if length payload < 2 + 40 then Inl (Errorf ''mschapv2 success payload too short'')
     else if \<not> utf8_valid payload then Inl (Errorf ''mschapv2 success payload is not utf8'')
     else let sig = findSignature (Fields (bytes_str payload)) in
     if sig = [] then Inl (Errorf ''mschapv2 success missing authenticator response'')
     else if length sig \<noteq> 40 then Inl (Errorf ''mschapv2 success invalid auth string length'')
     else if \<not> is_ok (hexDecode sig) then Inl (Errorf ''mschapv2 success invalid auth string encoding'')
     else if \<not> EqualFold sig expected then Inl (Errorf ''mschapv2 success authenticator response mismatch'')
     else Inr ())"

text \<open>\<^verbatim>\<open>strconv.ParseUint(value, 10, 32)\<close> succeeds.\<close>

definition parsesUint32 :: "string \<Rightarrow> bool" where
  "parsesUint32 s \<longleftrightarrow> s \<noteq> [] \<and> isDigits s \<and> foldl (\<lambda>a c. 10 * a + (of_char c - 48)) 0 s < (2 ^ 32 :: nat)"

record failureTokens =
  hasErrorCode :: bool
  hasRetryFlag :: bool
  hasChallenge :: bool

definition failureToken :: "string \<Rightarrow> failureTokens \<Rightarrow> failureTokens res" where
  "failureToken token f =
    (case Cut token (CHR ''='') of
       None \<Rightarrow> Inl (Errorf ''mschapv2 failure has malformed token'')
     | Some (key, value) \<Rightarrow>
         if key = ''E'' then
           if value = [] \<or> \<not> parsesUint32 value then Inl (Errorf ''mschapv2 failure has invalid E code'')
           else Inr (f\<lparr> hasErrorCode := True \<rparr>)
         else if key = ''R'' then
           if value \<noteq> ''0'' \<and> value \<noteq> ''1'' then Inl (Errorf ''mschapv2 failure has invalid R token'')
           else Inr (f\<lparr> hasRetryFlag := True \<rparr>)
         else if key = ''C'' then
           if length value \<noteq> 32 \<or> \<not> isHex value then Inl (Errorf ''mschapv2 failure has invalid challenge token'')
           else Inr (f\<lparr> hasChallenge := True \<rparr>)
         else if key = ''V'' then
           if value = [] \<or> \<not> isDigits value then Inl (Errorf ''mschapv2 failure has invalid V token'') else Inr f
         else if key = ''M'' then
           if value = [] then Inl (Errorf ''mschapv2 failure has invalid M token'') else Inr f
         else Inl (Errorf ''mschapv2 failure has unsupported token''))"

fun failureTokensLoop :: "string list \<Rightarrow> failureTokens \<Rightarrow> failureTokens res" where
  "failureTokensLoop [] f = Inr f"
| "failureTokensLoop (t # ts) f = bind_res (failureToken t f) (failureTokensLoop ts)"

definition parseFailureTokens :: "bytes \<Rightarrow> unit res" where
  "parseFailureTokens payload =
    (if length payload < 3 then Inl (Errorf ''mschapv2 failure payload too short'')
     else if \<not> utf8_valid payload then Inl (Errorf ''mschapv2 failure payload is not utf8'')
     else bind_res (failureTokensLoop (Fields (bytes_str payload))
                      \<lparr> hasErrorCode = False, hasRetryFlag = False, hasChallenge = False \<rparr>) (\<lambda>f.
       if \<not> hasErrorCode f then Inl (Errorf ''mschapv2 failure payload missing E token'')
       else if \<not> hasRetryFlag f then Inl (Errorf ''mschapv2 failure payload missing R token'')
       else if \<not> hasChallenge f then Inl (Errorf ''mschapv2 failure payload missing C token'')
       else Inr ()))"

definition extractUsername :: "bytes \<Rightarrow> bytes" where
  "extractUsername identity = (if 92 \<in> set identity then tl (dropWhile (\<lambda>c. c \<noteq> 92) identity) else identity)"

definition nakResponse :: "8 word \<Rightarrow> bytes res" where
  "nakResponse eapID = BuildRequest CodeResponse eapID TypeNAK [TypeMSCHAPV2]"

abbreviation (input) "OpChallenge \<equiv> (1::8 word)"
abbreviation (input) "OpResponse \<equiv> (2::8 word)"
abbreviation (input) "OpSuccess \<equiv> (3::8 word)"
abbreviation (input) "OpFailure \<equiv> (4::8 word)"

definition buildResponse :: "8 word \<Rightarrow> 8 word \<Rightarrow> bytes \<Rightarrow> bytes \<Rightarrow> bytes \<Rightarrow> bytes res" where
  "buildResponse eapID mschapID peerChallenge ntResponse identity =
    (let body = [OpResponse, mschapID, 0, 0, 49] @ peerChallenge @ replicate 8 0 @ ntResponse @ [0] @ identity;
         body = putUint16 body 2 (word_of_nat (length body)) in
     BuildRequest CodeResponse eapID TypeMSCHAPV2 body)"

definition buildSuccess :: "8 word \<Rightarrow> bytes res" where
  "buildSuccess eapID = BuildRequest CodeResponse eapID TypeMSCHAPV2 [OpSuccess]"

section \<open>The method\<close>

datatype MsPhase = MsNegotiating | MsChallenging | MsVerifying | MsCompleted | MsFailed

record msState =
  mschapID :: "8 word"
  expectingSuccess :: bool
  authHex :: string
  msMSK :: bytes

record Mschapv2 =
  msIdentity :: bytes
  msPassword :: bytes
  msPhase :: MsPhase
  msState :: "msState option"

definition NewMschapv2 :: "bytes \<Rightarrow> bytes \<Rightarrow> Mschapv2" where
  "NewMschapv2 identity password =
     \<lparr> msIdentity = identity, msPassword = password, msPhase = MsNegotiating, msState = None \<rparr>"

definition msReset :: "Mschapv2 \<Rightarrow> Mschapv2" where
  "msReset m = m\<lparr> msPhase := MsNegotiating, msState := None \<rparr>"

definition msInitialize :: "Mschapv2 \<Rightarrow> Mschapv2 \<times> unit res" where
  "msInitialize m =
    (if msIdentity m = [] then (m, Inl (Errorf ''mschapv2 identity is empty''))
     else if msPassword m = [] then (m, Inl (Errorf ''mschapv2 password is empty''))
     else (msReset m, Inr ()))"

definition msClose :: "Mschapv2 \<Rightarrow> Mschapv2" where
  "msClose m = m\<lparr> msState := None, msPhase := MsFailed \<rparr>"

text \<open>The three branches of \<^verbatim>\<open>onRequest\<close>.\<close>

definition onChallenge :: "bytes res \<Rightarrow> 8 word \<Rightarrow> 8 word \<Rightarrow> bytes \<Rightarrow> Mschapv2 \<Rightarrow> Mschapv2 \<times> bytes res" where
  "onChallenge rnd eapID i data m =
    (if (case msState m of None \<Rightarrow> False | Some st \<Rightarrow> expectingSuccess st)
     then (m, Inl (Errorf ''received unexpected mschapv2 challenge while waiting for success''))
     else if length data \<le> 16 + 1 then (m, Inl (Errorf ''mschapv2 challenge payload too short''))
     else if unat (data ! 0) \<noteq> 16 then (m, Inl (Errorf ''unsupported mschapv2 challenge size''))
     else let authChallenge = subslice data 1 17 in
     (case wrap_err ''generate mschapv2 peer challenge'' rnd of
        Inl e \<Rightarrow> (m, Inl e)
      | Inr peerChallenge \<Rightarrow>
          let username = extractUsername (msIdentity m);
              ntResponse = generateNTResponse peerChallenge authChallenge username (msPassword m);
              hex = generateAuthenticatorResponse peerChallenge authChallenge username (msPassword m) ntResponse;
              key = generateMSK (msPassword m) ntResponse in
          (m\<lparr> msState := Some \<lparr> mschapID = i, expectingSuccess = True, authHex = hex, msMSK = key \<rparr> \<rparr>,
           buildResponse eapID i peerChallenge ntResponse (msIdentity m))))"

definition onSuccess :: "8 word \<Rightarrow> 8 word \<Rightarrow> bytes \<Rightarrow> Mschapv2 \<Rightarrow> Mschapv2 \<times> bytes res" where
  "onSuccess eapID i data m =
    (case msState m of
       None \<Rightarrow> (m, Inl (Errorf ''mschapv2 success without prior challenge''))
     | Some st \<Rightarrow>
         if \<not> expectingSuccess st then (m, Inl (Errorf ''unexpected mschapv2 success in current state''))
         else if mschapID st \<noteq> i then (m, Inl (Errorf ''mschapv2 id mismatch''))
         else (case verifySuccess data (authHex st) of
                 Inl e \<Rightarrow> (m, Inl e)
               | Inr _ \<Rightarrow> (m\<lparr> msState := Some (st\<lparr> expectingSuccess := False \<rparr>) \<rparr>, buildSuccess eapID)))"

definition onFailure :: "8 word \<Rightarrow> bytes \<Rightarrow> Mschapv2 \<Rightarrow> Mschapv2 \<times> bytes res" where
  "onFailure i data m =
    (case msState m of
       None \<Rightarrow> (m, Inl (Errorf ''mschapv2 failure without prior challenge''))
     | Some st \<Rightarrow>
         if \<not> expectingSuccess st then (m, Inl (Errorf ''unexpected mschapv2 failure in current state''))
         else if mschapID st \<noteq> i then (m, Inl (Errorf ''mschapv2 id mismatch''))
         else (case parseFailureTokens data of
                 Inl e \<Rightarrow> (m, Inl e)
               | Inr _ \<Rightarrow> (m\<lparr> msState := None \<rparr>, Inl (Errorf ''inner mschapv2 authentication failed''))))"

definition onRequest :: "bytes res \<Rightarrow> 8 word \<Rightarrow> bytes \<Rightarrow> Mschapv2 \<Rightarrow> Mschapv2 \<times> bytes res" where
  "onRequest rnd eapID payload m =
    (if length payload < 4 then (m\<lparr> msPhase := MsFailed \<rparr>, Inl (Errorf ''mschapv2 payload too short''))
     else let opcode = payload ! 0; i = payload ! 1; declaredLen = unat (beUint16 (subslice payload 2 4)) in
     if declaredLen < 4 \<or> declaredLen \<noteq> length payload
     then (m\<lparr> msPhase := MsFailed \<rparr>, Inl (Errorf ''invalid mschapv2 length''))
     else let data = drop 4 payload in
     if opcode = OpChallenge then onChallenge rnd eapID i data m
     else if opcode = OpSuccess then onSuccess eapID i data m
     else if opcode = OpFailure then onFailure i data m
     else (m, Inl (Errorf ''unsupported mschapv2 opcode'')))"

text \<open>The answer to a request of another type or for the identity: a panic of the packet builder is not an
  error of the method.\<close>

definition msAnswer :: "bytes res \<Rightarrow> EapResult res" where
  "msAnswer r = bind_res r (\<lambda>b. Inr (sendResult b))"

definition msHandle :: "bytes res \<Rightarrow> bytes \<Rightarrow> 16 word \<Rightarrow> Mschapv2 \<Rightarrow> Mschapv2 \<times> EapResult res" where
  "msHandle rnd packet rd m =
    (if msPhase m = MsFailed then (m, Inl (Errorf ''mschapv2 method is in failure state''))
     else case EapParse packet of
       Inl e \<Rightarrow> (m\<lparr> msPhase := MsFailed \<rparr>, Inl e)
     | Inr pkt \<Rightarrow>
         if EapCode pkt = CodeRequest then
           if EapType pkt = TypeIdentity then
             (m\<lparr> msPhase := MsNegotiating \<rparr>,
              msAnswer (BuildRequest CodeResponse (Identifier pkt) TypeIdentity (msIdentity m)))
           else if EapType pkt = TypeMSCHAPV2 then
             (case onRequest rnd (Identifier pkt) (EapData pkt)
                     (m\<lparr> msPhase := if msState m \<noteq> None then MsVerifying else MsChallenging \<rparr>) of
                (m, Inl e) \<Rightarrow> (m\<lparr> msPhase := MsFailed \<rparr>, Inl e)
              | (m, Inr response) \<Rightarrow> (m, Inr (sendResult response)))
           else (m\<lparr> msPhase := MsNegotiating \<rparr>, msAnswer (nakResponse (Identifier pkt)))
         else if EapCode pkt = CodeSuccess then
           (case msState m of
              None \<Rightarrow> (m\<lparr> msPhase := MsFailed \<rparr>, Inl (Errorf ''mschapv2 success without prior challenge''))
            | Some st \<Rightarrow>
                if expectingSuccess st
                then (m\<lparr> msPhase := MsFailed \<rparr>, Inl (Errorf ''outer eap success before verified mschapv2''))
                else (m\<lparr> msPhase := MsCompleted \<rparr>, Inr (completeResult (msMSK st))))
         else if EapCode pkt = CodeFailure then (m\<lparr> msPhase := MsFailed \<rparr>, Inl (Errorf ''received eap failure''))
         else (m\<lparr> msPhase := MsFailed \<rparr>, Inl (Errorf ''unsupported outer eap code for mschapv2'')))"

definition mschapv2 :: "Mschapv2 Method" where
  "mschapv2 = \<lparr> MName = (\<lambda>_. ''mschapv2''), Initialize = msInitialize, Handle = msHandle, MClose = msClose \<rparr>"

section \<open>Lemmas: MD4\<close>

text \<open>The digest as RFC 1320 defines it: the message, a bit 1, zeros up to 56 octets modulo 64,
  the length in bits; every block of 64 octets is transformed.\<close>

definition md4_padded :: "bytes \<Rightarrow> bytes" where
  "md4_padded msg = msg @ [0x80] @ replicate ((119 - length msg mod 64) mod 64) 0 @ rev (be64 (word_of_nat (8 * length msg)))"

definition md4_rfc :: "bytes \<Rightarrow> bytes" where
  "md4_rfc msg = (case fold md4Transform (octets_blocks 64 (md4_padded msg)) md4Init of
     (a, b, c, d) \<Rightarrow> le32 a @ le32 b @ le32 c @ le32 d)"

lemma octets_blocks_append:
  assumes "length xs = n * k" "0 < n"
  shows "octets_blocks n (xs @ ys) = octets_blocks n xs @ octets_blocks n ys"
proof -
  have d: "length (xs @ ys) div n = k + length ys div n" using assms by simp
  have "[0..<k + length ys div n] = [0..<k] @ map (\<lambda>i. i + k) [0..<length ys div n]"
    using upt_add_eq_append [of 0 k "length ys div n"] map_add_upt [of k "length ys div n"] by (simp add: add.commute)
  moreover have "take n (drop (n * i) (xs @ ys)) = take n (drop (n * i) xs)" if "i < k" for i
  proof -
    have "n * Suc i \<le> n * k" using that by (intro mult_le_mono2) simp
    then have "n * i + n \<le> length xs" using assms(1) by (simp add: add.commute)
    then show ?thesis by simp
  qed
  moreover have "drop (n * (i + k)) (xs @ ys) = drop (n * i) ys" for i
    using assms(1) by (simp add: algebra_simps)
  ultimately show ?thesis using assms unfolding octets_blocks_def d by simp
qed

lemma octets_blocks_one: "length b = n \<Longrightarrow> 0 < n \<Longrightarrow> octets_blocks n b = [b]"
  by (simp add: octets_blocks_def)

lemma octets_blocks_take:
  assumes "0 < n"
  shows "octets_blocks n (take (length b div n * n) b) = map (\<lambda>i. subslice b (i * n) ((i + 1) * n)) [0..<length b div n]"
proof -
  let ?k = "length b div n"
  have len: "length (take (?k * n) b) = ?k * n" by simp
  have "take n (drop (n * i) (take (?k * n) b)) = subslice b (i * n) ((i + 1) * n)" if "i < ?k" for i
  proof -
    have "Suc i * n \<le> ?k * n" using that by (intro mult_le_mono1) simp
    then show ?thesis by (simp add: subslice_def drop_take mult.commute)
  qed
  then show ?thesis unfolding octets_blocks_def len using assms by simp
qed

lemma fold_map_fun: "fold f (map g xs) = fold (\<lambda>i. f (g i)) xs"
  by (simp add: fold_map comp_def)

lemma length_md4 [simp]: "length (md4 b) = 16"
  by (simp add: md4_def Let_def le32_def split: prod.split)

text \<open>The last one or two blocks of the padded message.\<close>

lemma md4_tail:
  fixes t :: bytes
  assumes "length t < 64"
  defines "block \<equiv> (t @ replicate (64 - length t) 0)[length t := 0x80]"
  shows "length t < 56 \<Longrightarrow> t @ [0x80] @ replicate ((119 - length t) mod 64) 0 = take 56 block"
    and "56 \<le> length t \<Longrightarrow> t @ [0x80] @ replicate ((119 - length t) mod 64) 0 = block @ replicate 56 0"
    and "length block = 64"
proof -
  have "replicate (64 - length t) (0::byte) = 0 # replicate (63 - length t) 0"
    using assms(1) by (cases "64 - length t") (auto simp: Suc_diff_le)
  then have block: "block = t @ 0x80 # replicate (63 - length t) 0" unfolding block_def by simp
  show "length block = 64" using assms(1) by (simp add: block)
  show "t @ [0x80] @ replicate ((119 - length t) mod 64) 0 = take 56 block" if l: "length t < 56"
  proof -
    have "(119 - length t) mod 64 = 55 - length t" using l by (simp add: mod_if)
    moreover have "min (56 - Suc (length t)) (63 - length t) = 55 - length t" using l by simp
    moreover have "56 - length t = Suc (55 - length t)" using l by simp
    ultimately show ?thesis using l by (simp add: block)
  qed
  show "t @ [0x80] @ replicate ((119 - length t) mod 64) 0 = block @ replicate 56 0" if l: "56 \<le> length t"
  proof -
    have "(119 - length t) mod 64 = (63 - length t) + 56" using l assms(1) by (simp add: mod_if)
    then show ?thesis unfolding block by (simp only: replicate_add) simp
  qed
qed

lemma md4_reference: "md4 b = md4_rfc b"
proof -
  define k where "k = length b div 64"
  define t where "t = drop (k * 64) b"
  define len where "len = rev (be64 (word_of_nat (length b) * 8))"
  define blk where "blk = (t @ replicate (64 - length t) 0)[length t := (0x80::byte)]"
  have t: "length t = length b mod 64" "length t < 64" by (simp_all add: t_def k_def minus_div_mult_eq_mod)
  have len8: "rev (be64 (word_of_nat (8 * length b))) = len" by (simp add: len_def mult.commute)
  have bb: "b = take (k * 64) b @ t" by (simp add: t_def)
  have pad: "md4_padded b = take (k * 64) b @ (t @ [0x80] @ replicate ((119 - length t) mod 64) 0) @ len"
    unfolding md4_padded_def len8 t(1) [symmetric] by (subst bb) simp
  have st: "fold md4Transform (octets_blocks 64 (take (k * 64) b)) md4Init
      = fold (\<lambda>i. md4Transform (subslice b (i * 64) ((i + 1) * 64))) [0..<k] md4Init"
    unfolding k_def by (simp add: octets_blocks_take fold_map_fun)
  have split: "octets_blocks 64 (md4_padded b)
      = octets_blocks 64 (take (k * 64) b) @ octets_blocks 64 ((t @ [0x80] @ replicate ((119 - length t) mod 64) 0) @ len)"
    unfolding pad by (rule octets_blocks_append [where k = k]) (simp_all add: k_def)
  have ll: "length len = 8" by (simp add: len_def)
  show ?thesis
  proof (cases "length t < 56")
    case True
    have "octets_blocks 64 ((t @ [0x80] @ replicate ((119 - length t) mod 64) 0) @ len) = [take 56 blk @ len]"
      unfolding md4_tail(1) [OF t(2) True] blk_def using md4_tail(3) [OF t(2)] ll
      by (intro octets_blocks_one) simp_all
    then show ?thesis using st True unfolding md4_rfc_def split md4_def Let_def
      by (simp add: k_def [symmetric] t_def [symmetric] blk_def [symmetric] len_def [symmetric])
  next
    case False
    then have l: "56 \<le> length t" by simp
    have "octets_blocks 64 ((t @ [0x80] @ replicate ((119 - length t) mod 64) 0) @ len) = [blk, replicate 56 0 @ len]"
      unfolding md4_tail(2) [OF t(2) l] blk_def append.assoc
      using md4_tail(3) [OF t(2)] ll by (subst octets_blocks_append [where k = 1]) (simp_all add: octets_blocks_one)
    then show ?thesis using st l unfolding md4_rfc_def split md4_def Let_def
      by (simp add: k_def [symmetric] t_def [symmetric] blk_def [symmetric] len_def [symmetric])
  qed
qed

section \<open>Lemmas: the method\<close>

text \<open>The MSCHAPv2 message a packet carries: opcode, identifier and data.\<close>

definition ms_message :: "bytes \<Rightarrow> (8 word \<times> 8 word \<times> bytes) option" where
  "ms_message packet =
    (case EapParse packet of
       Inl _ \<Rightarrow> None
     | Inr pkt \<Rightarrow>
         if EapCode pkt = CodeRequest \<and> EapType pkt = TypeMSCHAPV2 \<and> 4 \<le> length (EapData pkt)
         then Some (EapData pkt ! 0, EapData pkt ! 1, drop 4 (EapData pkt)) else None)"

text \<open>The challenge state a server's challenge and the drawn octets lead to.\<close>

definition challenge_state :: "bytes \<Rightarrow> bytes \<Rightarrow> 8 word \<Rightarrow> bytes \<Rightarrow> bytes \<Rightarrow> msState" where
  "challenge_state identity password i authChallenge peerChallenge =
    (let user = extractUsername identity;
         nt = generateNTResponse peerChallenge authChallenge user password in
     \<lparr> mschapID = i, expectingSuccess = True,
       authHex = generateAuthenticatorResponse peerChallenge authChallenge user password nt,
       msMSK = generateMSK password nt \<rparr>)"

lemma challenge_state_expecting [simp]: "expectingSuccess (challenge_state u p i a c)"
  by (simp add: challenge_state_def Let_def)

definition same_credentials :: "Mschapv2 \<Rightarrow> Mschapv2 \<Rightarrow> bool" where
  "same_credentials m m' \<longleftrightarrow> msIdentity m' = msIdentity m \<and> msPassword m' = msPassword m"

text \<open>What handling a packet does to the challenge state.\<close>

definition ms_step :: "bytes res \<Rightarrow> bytes \<Rightarrow> Mschapv2 \<Rightarrow> Mschapv2 \<Rightarrow> bool" where
  "ms_step rnd packet m m' \<longleftrightarrow>
     msState m' = msState m \<or> msState m' = None
     \<or> (\<exists>i data pc. ms_message packet = Some (OpChallenge, i, data) \<and> rnd = Inr pc \<and> 17 < length data
          \<and> msState m' = Some (challenge_state (msIdentity m) (msPassword m) i (subslice data 1 17) pc))
     \<or> (\<exists>i data st. ms_message packet = Some (OpSuccess, i, data) \<and> msState m = Some st \<and> mschapID st = i
          \<and> verifySuccess data (authHex st) = Inr () \<and> msState m' = Some (st\<lparr> expectingSuccess := False \<rparr>))"

lemma onChallenge_step:
  assumes "onChallenge rnd eapID i data m = (m', r)"
  shows "same_credentials m m'"
    "msState m' = msState m \<or> (\<exists>pc. rnd = Inr pc \<and> 17 < length data
       \<and> msState m' = Some (challenge_state (msIdentity m) (msPassword m) i (subslice data 1 17) pc))"
  using assms
  by (auto simp: onChallenge_def same_credentials_def challenge_state_def Let_def not_le split: if_splits sum.splits option.splits)

lemma onSuccess_step:
  assumes "onSuccess eapID i data m = (m', r)"
  shows "same_credentials m m'"
    "msState m' = msState m \<or> (\<exists>st. msState m = Some st \<and> mschapID st = i \<and> verifySuccess data (authHex st) = Inr ()
       \<and> msState m' = Some (st\<lparr> expectingSuccess := False \<rparr>))"
  using assms by (auto simp: onSuccess_def same_credentials_def split: if_splits sum.splits option.splits)

lemma onFailure_step:
  assumes "onFailure i data m = (m', r)"
  shows "same_credentials m m' \<and> (msState m' = msState m \<or> msState m' = None)"
  using assms by (auto simp: onFailure_def same_credentials_def split: if_splits sum.splits option.splits)

lemma onRequest_step:
  assumes "onRequest rnd eapID payload m = (m', r)" "ms_message packet = (if 4 \<le> length payload
     then Some (payload ! 0, payload ! 1, drop 4 payload) else None)"
  shows "same_credentials m m' \<and> ms_step rnd packet m m'"
proof -
  consider "msState m' = msState m" "same_credentials m m'"
    | "4 \<le> length payload" "payload ! 0 = OpChallenge" "onChallenge rnd eapID (payload ! 1) (drop 4 payload) m = (m', r)"
    | "4 \<le> length payload" "payload ! 0 = OpSuccess" "onSuccess eapID (payload ! 1) (drop 4 payload) m = (m', r)"
    | "onFailure (payload ! 1) (drop 4 payload) m = (m', r)"
    using assms(1) by (auto simp: onRequest_def Let_def same_credentials_def not_less split: if_splits)
  then show ?thesis
  proof cases
    case 2
    then show ?thesis using onChallenge_step [OF 2(3)] assms(2) by (auto simp: ms_step_def)
  next
    case 3
    then show ?thesis using onSuccess_step [OF 3(3)] assms(2) by (auto simp: ms_step_def)
  qed (auto simp: ms_step_def dest: onFailure_step)
qed

lemma same_credentials_phase [simp]:
  "same_credentials (m\<lparr> msPhase := x \<rparr>) m' = same_credentials m m'" "same_credentials m (m'\<lparr> msPhase := x \<rparr>) = same_credentials m m'"
  "same_credentials m m" "ms_step rnd packet (m\<lparr> msPhase := x \<rparr>) m' = ms_step rnd packet m m'"
  "ms_step rnd packet m (m'\<lparr> msPhase := x \<rparr>) = ms_step rnd packet m m'" "ms_step rnd packet m m"
  by (simp_all add: same_credentials_def ms_step_def)

lemma msHandle_step:
  assumes "msHandle rnd packet rd m = (m', r)"
  shows "same_credentials m m' \<and> ms_step rnd packet m m'"
    "completes r \<Longrightarrow> \<exists>st. msState m = Some st \<and> \<not> expectingSuccess st \<and> r = Inr (completeResult (msMSK st))"
proof -
  consider (same) "m' = m" | (other) x where "m' = m\<lparr> msPhase := x \<rparr>" | (request) pkt x m1 r1 where "EapParse packet = Inr pkt" "EapCode pkt = CodeRequest"
      "EapType pkt = TypeMSCHAPV2" "onRequest rnd (Identifier pkt) (EapData pkt) (m\<lparr> msPhase := x \<rparr>) = (m1, r1)"
      "m' = m1 \<or> m' = m1\<lparr> msPhase := MsFailed \<rparr>"
    using assms by (auto simp: msHandle_def split: if_splits sum.splits option.splits prod.splits)
  then show "same_credentials m m' \<and> ms_step rnd packet m m'"
  proof cases
    case request
    have "ms_message packet = (if 4 \<le> length (EapData pkt)
        then Some (EapData pkt ! 0, EapData pkt ! 1, drop 4 (EapData pkt)) else None)"
      using request(1-3) by (simp add: ms_message_def)
    then show ?thesis using onRequest_step [OF request(4)] request(5) by auto
  qed simp_all
  show "\<exists>st. msState m = Some st \<and> \<not> expectingSuccess st \<and> r = Inr (completeResult (msMSK st))" if "completes r"
    using assms that
    by (auto simp: msHandle_def msAnswer_def completes_def bind_res_def split: if_splits sum.splits option.splits prod.splits)
qed

lemma msHandle_failed:
  "msPhase m = MsFailed \<Longrightarrow> msHandle rnd p i m = (m, Inl (Errorf ''mschapv2 method is in failure state''))"
  by (simp add: msHandle_def)

lemma msHandle_error:
  assumes "msHandle rnd p i m = (m', Inl e)" "\<not> is_panic e"
  shows "msPhase m' = MsFailed"
proof -
  have "is_panic e" if "msAnswer (BuildRequest a b c d) = Inl e" for a b c d
    using that by (auto simp: msAnswer_def BuildRequest_def Let_def split: if_splits)
  then show ?thesis
    using assms by (auto simp: msHandle_def nakResponse_def split: if_splits sum.splits option.splits prod.splits)
qed

interpretation ms_method: eap_method mschapv2 "\<lambda>m. msPhase m = MsFailed"
  by unfold_locales (auto simp: mschapv2_def msHandle_failed intro: msHandle_error)

section \<open>Lemmas: runs of the method\<close>

fun msRun :: "(bytes res \<times> bytes \<times> 16 word) list \<Rightarrow> Mschapv2 \<Rightarrow> Mschapv2 \<times> EapResult res list" where
  "msRun [] m = (m, [])"
| "msRun ((rnd, packet, rd) # h) m =
    (case msHandle rnd packet rd m of (m, r) \<Rightarrow> case msRun h m of (m, rs) \<Rightarrow> (m, r # rs))"

definition ms_proved :: "(bytes res \<times> bytes \<times> 16 word) list \<Rightarrow> nat \<Rightarrow> bytes \<Rightarrow> bytes \<Rightarrow> msState \<Rightarrow> bool" where
  "ms_proved h n identity password st \<longleftrightarrow>
    (\<exists>i < n. \<exists>mid data pc. ms_message (fst (snd (h ! i))) = Some (OpChallenge, mid, data) \<and> fst (h ! i) = Inr pc \<and> 17 < length data
      \<and> st\<lparr> expectingSuccess := True \<rparr> = challenge_state identity password mid (subslice data 1 17) pc
      \<and> (expectingSuccess st \<or> (\<exists>j. i < j \<and> j < n \<and> (\<exists>d. ms_message (fst (snd (h ! j))) = Some (OpSuccess, mid, d)
           \<and> verifySuccess d (authHex st) = Inr ()))))"

lemma ms_proved_mono: "ms_proved h n u p st \<Longrightarrow> n \<le> n' \<Longrightarrow> ms_proved h n' u p st"
  unfolding ms_proved_def by (meson order_less_le_trans)

lemma msState_update [simp]: "(st :: msState)\<lparr> expectingSuccess := x, expectingSuccess := y \<rparr> = st\<lparr> expectingSuccess := y \<rparr>"
  by simp

lemma ms_step_proved:
  assumes "\<forall>st. msState m = Some st \<longrightarrow> ms_proved h n (msIdentity m) (msPassword m) st"
    and "h ! n = (rnd, packet, rd)" "ms_step rnd packet m m'" "same_credentials m m'"
  shows "\<forall>st. msState m' = Some st \<longrightarrow> ms_proved h (Suc n) (msIdentity m') (msPassword m') st"
proof (intro allI impI)
  fix st
  assume st: "msState m' = Some st"
  have cred: "msIdentity m' = msIdentity m" "msPassword m' = msPassword m" using assms(4) by (simp_all add: same_credentials_def)
  consider (keep) "msState m = Some st"
    | (challenge) i data pc where "ms_message packet = Some (OpChallenge, i, data)" "rnd = Inr pc" "17 < length data"
        "st = challenge_state (msIdentity m) (msPassword m) i (subslice data 1 17) pc"
    | (success) i data st0 where "ms_message packet = Some (OpSuccess, i, data)" "msState m = Some st0" "mschapID st0 = i"
        "verifySuccess data (authHex st0) = Inr ()" "st = st0\<lparr> expectingSuccess := False \<rparr>"
    using assms(3) st by (auto simp: ms_step_def)
  then show "ms_proved h (Suc n) (msIdentity m') (msPassword m') st"
  proof cases
    case keep
    then show ?thesis using assms(1) cred ms_proved_mono by fastforce
  next
    case challenge
    then show ?thesis unfolding ms_proved_def cred using assms(2)
      by (intro exI [of _ n]) (simp add: challenge_state_def Let_def)
  next
    case success
    then obtain i' mid d pc where i: "i' < n" "ms_message (fst (snd (h ! i'))) = Some (OpChallenge, mid, d)" "fst (h ! i') = Inr pc"
      "17 < length d" "st0\<lparr> expectingSuccess := True \<rparr> = challenge_state (msIdentity m) (msPassword m) mid (subslice d 1 17) pc"
      using assms(1) unfolding ms_proved_def by blast
    have "mid = i" using arg_cong [OF i(5), of mschapID] success(3) by (simp add: challenge_state_def Let_def)
    then show ?thesis unfolding ms_proved_def cred using i success assms(2)
      by (intro exI [of _ i']) (auto intro!: exI [of _ n])
  qed
qed

lemma msRun_proved:
  assumes "msRun (drop n h) m = (m', rs)" "n \<le> length h" "k < length rs" "completes (rs ! k)"
    and "\<forall>st. msState m = Some st \<longrightarrow> ms_proved h n (msIdentity m) (msPassword m) st"
  shows "\<exists>st. \<not> expectingSuccess st \<and> rs ! k = Inr (completeResult (msMSK st))
    \<and> ms_proved h (n + k) (msIdentity m) (msPassword m) st"
  using assms
proof (induction "length h - n" arbitrary: n m m' rs k)
  case (Suc l)
  have n: "n < length h" using Suc.hyps(2) by simp
  obtain rnd packet rd where hn: "h ! n = (rnd, packet, rd)" by (metis prod_cases3)
  have dr: "drop n h = (rnd, packet, rd) # drop (Suc n) h" using Cons_nth_drop_Suc [OF n] hn by simp
  obtain m1 r where 1: "msHandle rnd packet rd m = (m1, r)" by fastforce
  obtain m2 rs' where 2: "msRun (drop (Suc n) h) m1 = (m2, rs')" by fastforce
  have rs: "rs = r # rs'" using Suc.prems(1) 1 2 unfolding dr by simp
  note step = msHandle_step [OF 1]
  show ?case
  proof (cases k)
    case 0
    then show ?thesis using step(2) Suc.prems(4,5) rs by auto
  next
    case (Suc k')
    have "\<forall>st. msState m1 = Some st \<longrightarrow> ms_proved h (Suc n) (msIdentity m1) (msPassword m1) st"
      using ms_step_proved [OF Suc.prems(5) hn] step(1) by blast
    then have "\<exists>st. \<not> expectingSuccess st \<and> rs' ! k' = Inr (completeResult (msMSK st))
        \<and> ms_proved h (Suc n + k') (msIdentity m1) (msPassword m1) st"
      using Suc.hyps(1) [OF _ 2, of k'] Suc.hyps(2) Suc.prems(3,4) rs Suc n by fastforce
    then show ?thesis using step(1) rs Suc by (simp add: same_credentials_def)
  qed
qed simp

section \<open>Lemmas: the authenticator response\<close>

lemma bytes_str_bytes [simp]: "bytes_str (str_bytes s) = s"
proof -
  have "unat (word_of_nat (of_char c) :: byte) = of_char c" for c :: char
    using nat_of_char_less_256 [of c] by simp
  then show ?thesis by (induction s) (simp_all add: bytes_str_def str_bytes_def)
qed

lemma utf8_valid_ascii: "\<forall>b \<in> set s. b < 0x80 \<Longrightarrow> utf8_valid s"
  by (induction s) (subst utf8_valid.simps, simp)+

definition hex_digits :: "char set" where
  "hex_digits = set ''0123456789ABCDEF''"

lemma hex_nth: "n < 16 \<Longrightarrow> ''0123456789ABCDEF'' ! n \<in> hex_digits"
  unfolding hex_digits_def by (rule nth_mem) simp

lemma hexEncode_digits: "set (hexEncode b) \<subseteq> hex_digits" "length (hexEncode b) = 2 * length b"
proof -
  have "unat (drop_bit 4 v) < 16" "unat (v AND 0x0F) < 16" for v :: byte
  proof -
    have "v AND 0x0F \<le> 0x0F" by (rule word_and_le1)
    then show "unat (v AND 0x0F) < 16" by (simp add: word_le_nat_alt)
    show "unat (drop_bit 4 v) < 16"
      using unsigned_less [where 'a = nat and w = v] unat_drop_bit_eq [of 4 v] drop_bit_eq_div [of 4 "unat v"]
      by (simp add: less_mult_imp_div_less)
  qed
  then have "''0123456789ABCDEF'' ! unat (drop_bit 4 v) \<in> hex_digits" "''0123456789ABCDEF'' ! unat (v AND 0x0F) \<in> hex_digits"
    for v :: byte by (simp_all add: hex_nth)
  then show "set (hexEncode b) \<subseteq> hex_digits" unfolding hexEncode_def by (induction b) auto
  show "length (hexEncode b) = 2 * length b" by (induction b) (auto simp: hexEncode_def)
qed

lemma ToUpper_digits: "set s \<subseteq> hex_digits \<Longrightarrow> ToUpper s = s"
  by (induction s) (auto simp: ToUpper_def hex_digits_def)

lemma hexNibble_digits: "c \<in> hex_digits \<Longrightarrow> \<exists>v. hexNibble c = Some v"
  by (auto simp: hexNibble_def hex_digits_def)

lemma hexPairs_digits: "set s \<subseteq> hex_digits \<Longrightarrow> is_ok (hexPairs s)"
proof (induction s rule: hexPairs.induct)
  case (1 h l s)
  then have "h \<in> hex_digits" "l \<in> hex_digits" "set s \<subseteq> hex_digits" by simp_all
  then obtain x y where "hexNibble h = Some x" "hexNibble l = Some y" "is_ok (hexPairs s)"
    using hexNibble_digits "1.IH" by (metis (no_types))
  then show ?case by (auto simp: is_ok_iff)
qed simp_all

lemma fields_word:
  assumes "\<forall>c \<in> set s. \<forall>sp \<in> set spaces. hd sp \<noteq> c"
  shows "fields_from s w = flush_field (w @ s)"
  using assms
proof (induction s arbitrary: w)
  case (Cons c cs)
  have "find (\<lambda>sp. sp \<noteq> [] \<and> is_prefix sp (c # cs)) spaces = None"
  proof -
    have False if "sp \<in> set spaces" "sp \<noteq> []" "is_prefix sp (c # cs)" for sp
    proof -
      have "hd sp = c" using that(2,3) by (cases sp) (auto simp: is_prefix_def)
      then show False using Cons.prems that(1) by auto
    qed
    then show ?thesis by (auto simp: find_None_iff)
  qed
  then show ?case using Cons by (subst fields_from.simps) simp
qed (subst fields_from.simps, simp)

lemma space_head: "sp \<in> set spaces \<Longrightarrow> (of_char (hd sp) :: nat) \<le> 32 \<or> 194 \<le> (of_char (hd sp) :: nat)"
  by (auto simp: spaces_def space_encodings_def of_char_of)

lemma hex_digit_range: "c \<in> hex_digits \<Longrightarrow> 48 \<le> (of_char c :: nat) \<and> (of_char c :: nat) \<le> 70"
  by (auto simp: hex_digits_def)

lemma verifySuccess_accepts:
  assumes "set sig \<subseteq> hex_digits" "length sig = 40"
  shows "verifySuccess (str_bytes (''S='' @ sig)) sig = Inr ()"
proof -
  let ?t = "''S='' @ sig"
  have range: "48 \<le> (of_char c :: nat) \<and> (of_char c :: nat) \<le> 83" if "c \<in> set ?t" for c
    using that assms(1) hex_digit_range by fastforce
  then have "\<forall>c \<in> set ?t. \<forall>sp \<in> set spaces. hd sp \<noteq> c" using space_head by fastforce
  then have "Fields ?t = [?t]" by (simp add: Fields_def fields_word flush_field_def)
  then have "findSignature (Fields ?t) = sig" by (simp add: CutPrefix_def is_prefix_def)
  moreover have "utf8_valid (str_bytes ?t)"
    using range by (intro utf8_valid_ascii) (fastforce simp: str_bytes_def word_less_nat_alt)
  moreover have "is_ok (hexDecode sig)" using assms hexPairs_digits by (simp add: hexDecode_def)
  moreover have "length (str_bytes ?t) = 42" using assms(2) by (simp add: str_bytes_def)
  moreover have "sig \<noteq> []" using assms(2) by auto
  ultimately show ?thesis using assms(2) by (simp add: verifySuccess_def Let_def EqualFold_def del: append.simps)
qed

lemma verifySuccess_sound:
  "verifySuccess d a = Inr () \<Longrightarrow> EqualFold (findSignature (Fields (bytes_str d))) a"
  by (auto simp: verifySuccess_def Let_def split: if_splits)

lemma authHex_digits:
  "set (authHex (challenge_state u p i a c)) \<subseteq> hex_digits" "length (authHex (challenge_state u p i a c)) = 40"
proof -
  obtain d where d: "authHex (challenge_state u p i a c) = ToUpper (hexEncode (sha1 d))"
    by (simp add: challenge_state_def generateAuthenticatorResponse_def Let_def)
  then have "authHex (challenge_state u p i a c) = hexEncode (sha1 d)" using ToUpper_digits hexEncode_digits(1) by metis
  then show "set (authHex (challenge_state u p i a c)) \<subseteq> hex_digits" "length (authHex (challenge_state u p i a c)) = 40"
    using hexEncode_digits length_hash_sum [of HashSHA1 d] by simp_all
qed

section \<open>Properties\<close>


text \<open>C11: the server proves the password before a key is exported. In every run of the
  method a completion is preceded by a challenge (answered with the octets drawn then) and,
  after it, by a success message with the same identifier whose authenticator response is
  the one of the password, both challenges and the user name; the exported key is the master
  session key of that exchange.\<close>

theorem mschapv2_server_proved:
  assumes "msRun h (NewMschapv2 identity password) = (m, rs)" "k < length rs" "rs ! k = Inr r" "RAction r = ActionComplete"
  shows "\<exists>i j mid data d pc st. i < j \<and> j < k
    \<and> ms_message (fst (snd (h ! i))) = Some (OpChallenge, mid, data) \<and> fst (h ! i) = Inr pc
    \<and> st = challenge_state identity password mid (subslice data 1 17) pc
    \<and> ms_message (fst (snd (h ! j))) = Some (OpSuccess, mid, d) \<and> EqualFold (findSignature (Fields (bytes_str d))) (authHex st)
    \<and> ExportedMSK r = msMSK st"
proof -
  obtain st where st: "\<not> expectingSuccess st" "Inr r = Inr (completeResult (msMSK st))" "ms_proved h k identity password st"
    using msRun_proved [of 0 h "NewMschapv2 identity password" m rs k] assms by (auto simp: NewMschapv2_def)
  let ?st = "st\<lparr> expectingSuccess := True \<rparr>"
  have "authHex ?st = authHex st" "msMSK ?st = msMSK st" by simp_all
  then show ?thesis using st verifySuccess_sound unfolding ms_proved_def by fastforce
qed

definition sample_challenge :: bytes where
  "sample_challenge = [1, 7, 0, 27, 26, 1, 9, 0, 22, 16] @ replicate 16 5 @ [115]"

definition sample_ms_state :: msState where
  "sample_ms_state = challenge_state [97] [98] 9 (replicate 16 5) (replicate 16 6)"

definition sample_success :: bytes where
  "sample_success = [1, 8, 0, 51, 26, 3, 9, 0, 46] @ str_bytes (''S='' @ authHex sample_ms_state)"

definition sample_ms_history :: "(bytes res \<times> bytes \<times> 16 word) list" where
  "sample_ms_history = [(Inr (replicate 16 6), sample_challenge, 2), (Inr [], sample_success, 3), (Inr [], [3, 9, 0, 4], 4)]"

lemma sample_ms_parse:
  "EapParse sample_challenge = Inr \<lparr> EapCode = 1, Identifier = 7, EapType = 26, EapData = [1, 9, 0, 22, 16] @ replicate 16 5 @ [115] \<rparr>"
  "EapParse sample_success = Inr \<lparr> EapCode = 1, Identifier = 8, EapType = 26,
     EapData = [3, 9, 0, 46] @ str_bytes (''S='' @ authHex sample_ms_state) \<rparr>"
  "EapParse [3, 9, 0, 4] = Inr \<lparr> EapCode = 3, Identifier = 9, EapType = 0, EapData = [] \<rparr>"
proof -
  have len: "length (str_bytes (''S='' @ authHex sample_ms_state)) = 42"
    by (simp add: str_bytes_def sample_ms_state_def authHex_digits)
  have u: "beUint16 [0, 51] = 51" "beUint16 [0, 27] = 27" "beUint16 [0, 4] = 4" by (simp_all add: beUint16_def)
  show "EapParse sample_challenge = Inr \<lparr> EapCode = 1, Identifier = 7, EapType = 26, EapData = [1, 9, 0, 22, 16] @ replicate 16 5 @ [115] \<rparr>"
    by (simp add: EapParse_def sample_challenge_def subslice_def u)
  show "EapParse sample_success = Inr \<lparr> EapCode = 1, Identifier = 8, EapType = 26,
     EapData = [3, 9, 0, 46] @ str_bytes (''S='' @ authHex sample_ms_state) \<rparr>"
    using len by (simp add: EapParse_def sample_success_def subslice_def u)
  show "EapParse [3, 9, 0, 4] = Inr \<lparr> EapCode = 3, Identifier = 9, EapType = 0, EapData = [] \<rparr>"
    by (simp add: EapParse_def subslice_def u)
qed

lemma sample_ms_run:
  "\<exists>m r0 r1. msRun sample_ms_history (NewMschapv2 [97] [98]) = (m, [Inr r0, Inr r1, Inr (completeResult (msMSK sample_ms_state))])"
proof -
  define m1 where "m1 = NewMschapv2 [97] [98]\<lparr> msPhase := MsChallenging, msState := Some sample_ms_state \<rparr>"
  define m2 where "m2 = m1\<lparr> msPhase := MsVerifying, msState := Some (sample_ms_state\<lparr> expectingSuccess := False \<rparr>) \<rparr>"
  have u: "beUint16 [0, 22] = 22" "beUint16 [0, 46] = 46" by (simp_all add: beUint16_def)
  have nt: "length (generateNTResponse a b c d) = 24" for a b c d
    by (simp add: generateNTResponse_def Let_def desEncryptBlock_def upt_rec)
  have st: "mschapID sample_ms_state = 9" "expectingSuccess sample_ms_state"
    by (simp_all add: sample_ms_state_def challenge_state_def Let_def)
  have "onChallenge (Inr (replicate 16 6)) 7 9 (16 # replicate 16 5 @ [115]) (NewMschapv2 [97] [98]\<lparr> msPhase := MsChallenging \<rparr>)
      = (m1, buildResponse 7 9 (replicate 16 6)
               (generateNTResponse (replicate 16 6) (replicate 16 5) (extractUsername [97]) [98]) [97])"
    by (simp add: onChallenge_def NewMschapv2_def m1_def subslice_def sample_ms_state_def challenge_state_def Let_def)
  moreover obtain b where "buildResponse 7 9 (replicate 16 6)
      (generateNTResponse (replicate 16 6) (replicate 16 5) (extractUsername [97]) [98]) [97] = Inr b"
    by (simp add: buildResponse_def Let_def BuildRequest_def nt putUint16_def)
  ultimately obtain r0 where 1: "msHandle (Inr (replicate 16 6)) sample_challenge 2 (NewMschapv2 [97] [98]) = (m1, Inr r0)"
    by (auto simp: msHandle_def sample_ms_parse onRequest_def subslice_def u NewMschapv2_def)
  define t where "t = str_bytes (''S='' @ authHex sample_ms_state)"
  have "verifySuccess t (authHex sample_ms_state) = Inr ()"
    unfolding t_def sample_ms_state_def by (rule verifySuccess_accepts) (rule authHex_digits)+
  then have "onSuccess 8 9 t (m1\<lparr> msPhase := MsVerifying \<rparr>) = (m2, buildSuccess 8)"
    by (simp add: onSuccess_def m1_def m2_def st)
  moreover have "length t = 42" by (simp add: t_def str_bytes_def sample_ms_state_def authHex_digits)
  moreover obtain b1 where "buildSuccess 8 = Inr b1" by (simp add: buildSuccess_def BuildRequest_def)
  moreover have "msState m1 \<noteq> None" "msPhase m1 \<noteq> MsFailed" by (simp_all add: m1_def)
  ultimately obtain r1 where 2: "msHandle (Inr []) sample_success 3 m1 = (m2, Inr r1)"
    by (simp add: msHandle_def sample_ms_parse(2) [folded t_def] onRequest_def subslice_def u)
  have "\<exists>m. msHandle (Inr []) [3, 9, 0, 4] 4 m2 = (m, Inr (completeResult (msMSK sample_ms_state)))"
    by (simp add: msHandle_def sample_ms_parse m2_def m1_def)
  then show ?thesis by (auto simp: sample_ms_history_def 1 2)
qed

theorem mschapv2_server_proved_witness:
  "\<exists>m rs r. msRun sample_ms_history (NewMschapv2 [97] [98]) = (m, rs) \<and> rs ! 2 = Inr r \<and> RAction r = ActionComplete
     \<and> (\<exists>j < 2. \<exists>mid d. ms_message (fst (snd (sample_ms_history ! j))) = Some (OpSuccess, mid, d))"
proof -
  obtain m r0 r1 where run: "msRun sample_ms_history (NewMschapv2 [97] [98])
      = (m, [Inr r0, Inr r1, Inr (completeResult (msMSK sample_ms_state))])"
    using sample_ms_run by blast
  have "\<exists>j < 2. \<exists>mid d. ms_message (fst (snd (sample_ms_history ! j))) = Some (OpSuccess, mid, d)"
    using mschapv2_server_proved [OF run, of 2 "completeResult (msMSK sample_ms_state)"] by auto
  then show ?thesis using run
    by (intro exI [of _ m] exI [of _ "[Inr r0, Inr r1, Inr (completeResult (msMSK sample_ms_state))]"]
          exI [of _ "completeResult (msMSK sample_ms_state)"]) simp
qed

end
