(* ===== verification/Eap_Peap.thy ===== *)
theory Eap_Peap
  imports Eap_Mschapv2
begin

text \<open>
  The PEAP peer method (\<^verbatim>\<open>src/eap/peap/peap.go\<close>, \<^verbatim>\<open>fragment.go\<close>, \<^verbatim>\<open>avp.go\<close>, and the key export of
  \<^verbatim>\<open>tls.go\<close>): the outbound and inbound fragmenters, the framing of inner EAP packets,
  the state machine with its inner MSCHAPv2 method, and the registry of methods
  (\<^verbatim>\<open>src/eap/methods/methods.go\<close>).

  The TLS tunnel is a parameter: a record of the operations that \<^verbatim>\<open>tls.go\<close> offers over the
  uTLS package, on an engine state of a type \<open>'e\<close>. Its timing (the relay between the
  pipe and the queues) is not modelled.

  The lemmas show that a message split by the fragmenter is reassembled, that the inner framing
  is reversible, that the method is an instance of \<open>eap_method\<close>, and that it exports a key
  only from a tunnel whose server identity was verified.
\<close>

section \<open>Outbound fragments\<close>

abbreviation (input) "FlagLengthIncluded \<equiv> (0x80::8 word)"
abbreviation (input) "FlagMoreFragments \<equiv> (0x40::8 word)"
abbreviation (input) "FlagStart \<equiv> (0x20::8 word)"
abbreviation (input) "FlagVersionMask \<equiv> (0x07::8 word)"
abbreviation (input) "SupportedVersion \<equiv> (0::8 word)"

text \<open>The payload is None while it is nil.\<close>

record OutboundFragmenter =
  ofPayload :: "bytes option"
  ofOffset :: nat
  ofChunk :: nat
  ofIncludeLength :: bool

definition NewOutboundFragmenter :: "int \<Rightarrow> bool \<Rightarrow> OutboundFragmenter option" where
  "NewOutboundFragmenter chunk includeLength =
    (if chunk \<le> 0 then None
     else Some \<lparr> ofPayload = None, ofOffset = 0, ofChunk = nat chunk, ofIncludeLength = includeLength \<rparr>)"

definition Pending :: "OutboundFragmenter \<Rightarrow> bool" where
  "Pending f = (case ofPayload f of None \<Rightarrow> False | Some p \<Rightarrow> ofOffset f < length p)"

definition FragStart :: "bytes \<Rightarrow> 8 word \<Rightarrow> OutboundFragmenter \<Rightarrow> OutboundFragmenter \<times> (bytes \<times> bool) res" where
  "FragStart payload baseFlags f =
    (if Pending f then (f, Inl (Errorf ''github.com/wsm25/swan/eap/peap: outbound fragmenter already active''))
     else if ofChunk f = 0 then (f, Inl (Errorf ''github.com/wsm25/swan/eap/peap: fragment chunk size must be > 0''))
     else
       let more = length payload > ofChunk f;
           flags = baseFlags OR (if more \<or> ofIncludeLength f then FlagLengthIncluded else 0) OR (if more then FlagMoreFragments else 0);
           end = min (length payload) (ofChunk f);
           pkt = [flags] @ (if more \<or> ofIncludeLength f then be32 (word_of_nat (length payload)) else []) @ take end payload in
       if more then (f\<lparr> ofPayload := Some payload, ofOffset := end \<rparr>, Inr (pkt, False))
       else (f\<lparr> ofPayload := None, ofOffset := 0 \<rparr>, Inr (pkt, True)))"

definition FragNext :: "OutboundFragmenter \<Rightarrow> OutboundFragmenter \<times> (bytes \<times> bool) res" where
  "FragNext f =
    (if \<not> Pending f then (f, Inl (Errorf ''github.com/wsm25/swan/eap/peap: no outbound peap fragments pending''))
     else
       let payload = the (ofPayload f); start = ofOffset f; end = min (length payload) (start + ofChunk f);
           more = end < length payload;
           pkt = [if more then FlagMoreFragments else 0] @ subslice payload start end in
       if more then (f\<lparr> ofOffset := end \<rparr>, Inr (pkt, False))
       else (f\<lparr> ofPayload := None, ofOffset := 0 \<rparr>, Inr (pkt, True)))"

section \<open>Inbound fragments\<close>

record InboundFragmenter =
  ifParts :: "bytes list"
  ifTotal :: nat
  ifExpected :: "nat option"

definition NewInboundFragmenter :: InboundFragmenter where
  "NewInboundFragmenter = \<lparr> ifParts = [], ifTotal = 0, ifExpected = None \<rparr>"

definition FragReset :: "InboundFragmenter \<Rightarrow> InboundFragmenter" where
  "FragReset f = f\<lparr> ifParts := [], ifTotal := 0, ifExpected := None \<rparr>"

text \<open>The part of \<^verbatim>\<open>Push\<close> once the length is known.\<close>

definition pushPart :: "8 word \<Rightarrow> nat \<Rightarrow> bytes \<Rightarrow> InboundFragmenter \<Rightarrow> InboundFragmenter \<times> bytes option res" where
  "pushPart flags expected data f =
    (let f = f\<lparr> ifParts := ifParts f @ [data], ifTotal := ifTotal f + length data \<rparr> in
     if ifTotal f > expected then (f, Inl (Errorf ''github.com/wsm25/swan/eap/peap: fragment total exceeds declared length''))
     else if flags AND FlagMoreFragments \<noteq> 0 then (f, Inr None)
     else if ifTotal f \<noteq> expected then (f, Inl (Errorf ''github.com/wsm25/swan/eap/peap: fragment total != declared length''))
     else (FragReset f, Inr (Some (concat (ifParts f)))))"

definition FragPush :: "8 word \<Rightarrow> 32 word \<Rightarrow> bytes \<Rightarrow> InboundFragmenter \<Rightarrow> InboundFragmenter \<times> bytes option res" where
  "FragPush flags lengthIncluded data f =
    (if flags AND FlagLengthIncluded \<noteq> 0 then
       if ifExpected f \<noteq> None
       then (f, Inl (Errorf ''github.com/wsm25/swan/eap/peap: unexpected L flag on continuation fragment''))
       else if lengthIncluded = 0
       then (f, Inl (Errorf ''github.com/wsm25/swan/eap/peap: L flag set but total length is zero''))
       else pushPart flags (unat lengthIncluded) data
              (f\<lparr> ifParts := [], ifTotal := 0, ifExpected := Some (unat lengthIncluded) \<rparr>)
     else case ifExpected f of
       None \<Rightarrow>
         if flags AND FlagMoreFragments \<noteq> 0
         then (f, Inl (Errorf ''github.com/wsm25/swan/eap/peap: fragmented packet missing L on first fragment''))
         else (f, Inr (Some data))
     | Some expected \<Rightarrow> pushPart flags expected data f)"

section \<open>Inner packets\<close>

definition msAVPSuccess :: bytes where "msAVPSuccess = [0x80, 0x03, 0x00, 0x02, 0x00, 0x01]"
definition msAVPFailure :: bytes where "msAVPFailure = [0x80, 0x03, 0x00, 0x02, 0x00, 0x02]"

definition isMSAVP :: "bytes \<Rightarrow> bytes option" where
  "isMSAVP tlsData = (if length tlsData \<noteq> 11 \<or> tlsData ! 4 \<noteq> TypeMSTLV then None else Some (drop 5 tlsData))"

definition completeEAPPacket :: "bytes \<Rightarrow> bool" where
  "completeEAPPacket b \<longleftrightarrow> 4 \<le> length b \<and> unat (beUint16 (subslice b 2 4)) = length b"

definition completeInnerRequest :: "bytes \<Rightarrow> bool" where
  "completeInnerRequest b \<longleftrightarrow> completeEAPPacket b \<and> b ! 0 = CodeRequest"

definition DecodeInnerRequest :: "bytes \<Rightarrow> 8 word \<Rightarrow> bytes res" where
  "DecodeInnerRequest tlsData eapID =
    (if length tlsData > 4 \<and> completeInnerRequest tlsData then
       if length tlsData = 5 \<and> tlsData ! 4 = TypeIdentity then Inr tlsData
       else case isMSAVP tlsData of
         Some payload \<Rightarrow>
           if payload = msAVPSuccess then Inr [CodeSuccess, tlsData ! 1, 0, 4]
           else if payload = msAVPFailure then Inr [CodeFailure, tlsData ! 1, 0, 4]
           else Inl (Errorf ''github.com/wsm25/swan/eap/peap: unknown ms-avp message'')
       | None \<Rightarrow> Inr tlsData
     else
       let total = 4 + length tlsData in
       if total > 65535 then Inl (Errorf ''github.com/wsm25/swan/eap/peap: inner eap packet too large'')
       else Inr ([CodeRequest, eapID] @ be16 (word_of_nat total) @ tlsData))"

definition msAVPPayloadFor :: "8 word \<Rightarrow> bytes" where
  "msAVPPayloadFor code = (if code = CodeSuccess then msAVPSuccess else msAVPFailure)"

definition EncodeInnerResponse :: "bytes \<Rightarrow> bytes res" where
  "EncodeInnerResponse inner =
    (if \<not> completeEAPPacket inner
     then Inl (Errorf ''github.com/wsm25/swan/eap/peap: inner eap packet too short or length mismatch'')
     else let code = inner ! 0; i = inner ! 1 in
     if code = CodeSuccess \<or> code = CodeFailure
     then Inr ([CodeResponse, i, 0, 11, TypeMSTLV] @ msAVPPayloadFor code)
     else if length inner < 5 then Inl (Errorf ''github.com/wsm25/swan/eap/peap: inner eap packet missing type'')
     else Inr (drop 4 inner))"

section \<open>The tunnel\<close>

record Options =
  OFragmentSize :: int
  OMaxMessageCount :: int
  OIncludeLength :: bool
  OStrongswanCompatible :: bool
  OInsecureSkipVerify :: bool

datatype Step = StepNeedMoreData | StepOutbound | StepEstablished

record 'e TlsOps =
  NewEngine :: "bytes \<Rightarrow> Options \<Rightarrow> 'e res"
  TlsStart :: "'e \<Rightarrow> 'e \<times> bytes res"
  Feed :: "bytes \<Rightarrow> 'e \<Rightarrow> 'e \<times> (bytes \<times> Step) res"
  Established :: "'e \<Rightarrow> bool"
  VerifyServerIdentity :: "bytes \<Rightarrow> 'e \<Rightarrow> unit res"
  Protect :: "bytes \<Rightarrow> 'e \<Rightarrow> 'e \<times> bytes res"
  Unprotect :: "bytes \<Rightarrow> 'e \<Rightarrow> 'e \<times> bytes res"
  ExportMSK :: "'e \<Rightarrow> bytes res"
  TlsClose :: "'e \<Rightarrow> 'e"

text \<open>The derivation of \<^verbatim>\<open>tls12PRF\<close>; \<open>withSHA384\<close> says whether the name of the negotiated suite contains
  SHA384. The number of rounds is bounded by the length, since every round adds octets.\<close>

fun prf12Loop :: "HashKind \<Rightarrow> bytes \<Rightarrow> bytes \<Rightarrow> nat \<Rightarrow> nat \<Rightarrow> bytes \<Rightarrow> bytes \<Rightarrow> bytes" where
  "prf12Loop h secret seed n 0 sumA out = out"
| "prf12Loop h secret seed n (Suc fuel) sumA out =
    (if length out < n
     then prf12Loop h secret seed n fuel (hmac h secret sumA) (out @ hmac h secret (sumA @ seed))
     else out)"

definition tls12PRF :: "bool \<Rightarrow> bytes \<Rightarrow> bytes \<Rightarrow> bytes \<Rightarrow> nat \<Rightarrow> bytes" where
  "tls12PRF withSHA384 secret label seed n =
    (let h = (if withSHA384 then HashSHA384 else HashSHA256); s = label @ seed in
     take n (prf12Loop h secret s n n (hmac h secret s) []))"

text \<open>What the export reads of the connection. The exporter of the TLS package is part of the state.\<close>

record TlsState =
  tsEstablished :: bool
  tsTLS13 :: bool
  tsExporter :: "bytes \<Rightarrow> bytes option \<Rightarrow> nat \<Rightarrow> bytes res"
  tsMasterSecret :: bytes
  tsClientRandom :: "bytes option"
  tsServerRandom :: "bytes option"
  tsSuiteSHA384 :: bool

abbreviation (input) "MSKLen \<equiv> (64::nat)"

definition ExportLabelRFC :: bytes where "ExportLabelRFC = str_bytes ''EXPORTER_EAP_TLS_Key_Material''"
definition ExportLabelCompat :: bytes where "ExportLabelCompat = str_bytes ''client EAP encryption''"

definition exportMSK :: "Options \<Rightarrow> TlsState \<Rightarrow> bytes res" where
  "exportMSK opts s =
    (if \<not> tsEstablished s then Inl (Errorf ''github.com/wsm25/swan/eap/peap: TLS tunnel is not ready'')
     else if tsTLS13 s then
       (case (if OStrongswanCompatible opts then tsExporter s ExportLabelCompat None 128
              else tsExporter s ExportLabelRFC (Some [TypePEAP]) 128) of
          Inl _ \<Rightarrow> Inl (Errorf ''github.com/wsm25/swan/eap/peap: export EAP MSK'')
        | Inr keymat \<Rightarrow>
            if length keymat < MSKLen then Inl (Errorf ''github.com/wsm25/swan/eap/peap: exporter returned too few bytes'')
            else Inr (take MSKLen keymat))
     else case (tsClientRandom s, tsServerRandom s) of
       (Some cr, Some sr) \<Rightarrow>
         if tsMasterSecret s = []
         then Inl (Errorf ''github.com/wsm25/swan/eap/peap: TLS 1.2 handshake state unavailable for MSK export'')
         else
           let keymat = tls12PRF (tsSuiteSHA384 s) (tsMasterSecret s) ExportLabelCompat (cr @ sr) MSKLen in
           if length keymat < MSKLen then Inl (Errorf ''github.com/wsm25/swan/eap/peap: TLS 1.2 PRF produced too few bytes'')
           else Inr (take MSKLen keymat)
     | _ \<Rightarrow> Inl (Errorf ''github.com/wsm25/swan/eap/peap: TLS 1.2 handshake state unavailable for MSK export''))"

section \<open>The method\<close>

datatype PeapPhase =
    PeapIdle
  | PeapOuterIdentity
  | PeapTLSTunnel
  | PeapInnerMethod
  | PeapAwaitingOuterSuccess
  | PeapAwaitingOuterFailure
  | PeapCompleted
  | PeapFailed

record 'e Peap =
  pServerName :: bytes
  pIdentity :: bytes
  pPassword :: bytes
  pOpts :: Options
  pInner :: "Mschapv2 option"
  pTls :: "'e option"
  pPhase :: PeapPhase
  pRound :: "16 word"
  pOut :: "OutboundFragmenter option"
  pIn :: "InboundFragmenter option"
  pMessages :: int
  pMSK :: "bytes option"

definition NewPeap :: "bytes \<Rightarrow> bytes \<Rightarrow> bytes \<Rightarrow> Options \<Rightarrow> 'e Peap" where
  "NewPeap serverName identity password opts =
    \<lparr> pServerName = serverName, pIdentity = identity, pPassword = password, pOpts = opts, pInner = None, pTls = None,
      pPhase = PeapIdle, pRound = 0, pOut = None, pIn = None, pMessages = 0, pMSK = None \<rparr>"

definition peapReset :: "'e TlsOps \<Rightarrow> 'e Peap \<Rightarrow> 'e Peap \<times> unit res" where
  "peapReset tls m =
    (let m = m\<lparr> pTls := None \<rparr> in
     case NewEngine tls (pServerName m) (pOpts m) of
       Inl e \<Rightarrow> (m, Inl e)
     | Inr engine \<Rightarrow>
         let m = m\<lparr> pInner := Some (NewMschapv2 (pIdentity m) (pPassword m)), pTls := Some engine, pPhase := PeapOuterIdentity,
                    pRound := 0, pOut := NewOutboundFragmenter (OFragmentSize (pOpts m)) (OIncludeLength (pOpts m)) \<rparr> in
         if pOut m = None then (m, Inl (Errorf ''peap fragment_size must be > 0''))
         else (m\<lparr> pIn := Some NewInboundFragmenter, pMessages := 0, pMSK := None \<rparr>, Inr ()))"

definition peapInitialize :: "'e TlsOps \<Rightarrow> 'e Peap \<Rightarrow> 'e Peap \<times> unit res" where
  "peapInitialize tls m =
    (if pIdentity m = [] then (m, Inl (Errorf ''peap identity is empty''))
     else if pPassword m = [] then (m, Inl (Errorf ''peap password is empty''))
     else if pServerName m = [] then (m, Inl (Errorf ''peap aaa_identity is empty''))
     else if OFragmentSize (pOpts m) \<le> 0 then (m, Inl (Errorf ''peap fragment_size must be > 0''))
     else peapReset tls m)"

definition peapClose :: "'e Peap \<Rightarrow> 'e Peap" where
  "peapClose m = m\<lparr> pTls := None \<rparr>"

record peapRequest =
  rqIdentifier :: "8 word"
  rqFlags :: "8 word"
  rqHasLength :: bool
  rqLength :: "32 word"
  rqData :: bytes

definition parsePeapRequest :: "8 word \<Rightarrow> bytes \<Rightarrow> peapRequest res" where
  "parsePeapRequest i payload =
    (if length payload < 1 then Inl (Errorf ''peap request missing flags'')
     else
       let flags = payload ! 0; rest = drop 1 payload in
       if flags AND FlagVersionMask \<noteq> SupportedVersion then Inl (Errorf ''unsupported peap version'')
       else if flags AND FlagLengthIncluded \<noteq> 0 then
         if length rest < 4 then Inl (Errorf ''peap request missing TLS message length'')
         else Inr \<lparr> rqIdentifier = i, rqFlags = flags, rqHasLength = True, rqLength = beUint32 (take 4 rest), rqData = drop 4 rest \<rparr>
       else Inr \<lparr> rqIdentifier = i, rqFlags = flags, rqHasLength = False, rqLength = 0, rqData = rest \<rparr>)"

definition isAckRequest :: "peapRequest \<Rightarrow> bool" where
  "isAckRequest rq \<longleftrightarrow> rqData rq = [] \<and> \<not> rqHasLength rq
     \<and> rqFlags rq AND (FlagStart OR FlagMoreFragments OR FlagLengthIncluded) = 0"

definition encodePeapResponse :: "8 word \<Rightarrow> bytes \<Rightarrow> bytes res" where
  "encodePeapResponse i frag =
    (let totalLen = 5 + length frag in
     if totalLen > 0xFFFF then Inl (Errorf ''peap packet too large'')
     else Inr ([CodeResponse, i] @ be16 (word_of_nat totalLen) @ [TypePEAP] @ frag))"

definition encodeEmptyAck :: "8 word \<Rightarrow> bytes res" where
  "encodeEmptyAck i = BuildRequest CodeResponse i TypePEAP [0]"

text \<open>An acknowledgement as the answer of a step.\<close>

definition ackResult :: "8 word \<Rightarrow> EapResult res" where
  "ackResult i = bind_res (encodeEmptyAck i) (\<lambda>b. Inr (sendResult b))"

definition emitFragment :: "8 word \<Rightarrow> (bytes \<times> bool) res \<Rightarrow> EapResult res" where
  "emitFragment i r = bind_res r (\<lambda>(frag, _). bind_res (encodePeapResponse i frag) (\<lambda>response. Inr (sendResult response)))"

definition emitFragmentedOrSingle :: "8 word \<Rightarrow> bytes \<Rightarrow> 'e Peap \<Rightarrow> 'e Peap \<times> EapResult res" where
  "emitFragmentedOrSingle i payload m =
    (case pOut m of
       None \<Rightarrow> (m, Inl (Errorf ''github.com/wsm25/swan/eap/peap: nil outbound fragmenter''))
     | Some f \<Rightarrow> (case FragStart payload (0 OR SupportedVersion) f of (f, r) \<Rightarrow> (m\<lparr> pOut := Some f \<rparr>, emitFragment i r)))"

definition emitNextFragment :: "8 word \<Rightarrow> 'e Peap \<Rightarrow> 'e Peap \<times> EapResult res" where
  "emitNextFragment i m =
    (case pOut m of
       None \<Rightarrow> (m, Inl (Errorf ''github.com/wsm25/swan/eap/peap: no outbound peap fragments pending''))
     | Some f \<Rightarrow> (case FragNext f of (f, r) \<Rightarrow> (m\<lparr> pOut := Some f \<rparr>, emitFragment i r)))"

definition collectTLSRecord :: "peapRequest \<Rightarrow> 'e Peap \<Rightarrow> 'e Peap \<times> bytes option res" where
  "collectTLSRecord rq m =
    (case pIn m of
       None \<Rightarrow> (m, Inl (Errorf ''github.com/wsm25/swan/eap/peap: nil inbound fragmenter''))
     | Some f \<Rightarrow>
         (case FragPush (rqFlags rq) (if rqFlags rq AND FlagLengthIncluded \<noteq> 0 then rqLength rq else 0) (rqData rq) f of
            (f, r) \<Rightarrow> (m\<lparr> pIn := Some f \<rparr>, r)))"

text \<open>The tunnel is ready: the identity of the server is checked before the inner method starts.\<close>

definition enterInner :: "'e TlsOps \<Rightarrow> 'e \<Rightarrow> 'e Peap \<Rightarrow> 'e Peap \<times> unit res" where
  "enterInner tls e m =
    (case VerifyServerIdentity tls (pServerName m) e of
       Inl err \<Rightarrow> (m, Inl err)
     | Inr _ \<Rightarrow>
         let m = m\<lparr> pPhase := PeapInnerMethod \<rparr> in
         (case pInner m of
            None \<Rightarrow> (m, Inl (Panic ''nil pointer dereference''))
          | Some inner \<Rightarrow> (case msInitialize inner of (inner, r) \<Rightarrow> (m\<lparr> pInner := Some inner \<rparr>, r))))"

definition onTLSStep :: "'e TlsOps \<Rightarrow> 8 word \<Rightarrow> bytes \<Rightarrow> Step \<Rightarrow> 'e \<Rightarrow> 'e Peap \<Rightarrow> 'e Peap \<times> EapResult res" where
  "onTLSStep tls i out step e m =
    (case step of
       StepNeedMoreData \<Rightarrow> (m, ackResult i)
     | StepOutbound \<Rightarrow>
         (case (if pPhase m = PeapTLSTunnel \<and> Established tls e then enterInner tls e m else (m, Inr ())) of
            (m, Inl err) \<Rightarrow> (m, Inl err)
          | (m, Inr _) \<Rightarrow> emitFragmentedOrSingle i out m)
     | StepEstablished \<Rightarrow>
         (case enterInner tls e m of
            (m, Inl err) \<Rightarrow> (m, Inl err)
          | (m, Inr _) \<Rightarrow> (m, ackResult i)))"

text \<open>Protecting a tunneled packet and emitting it in a new phase (None: the phase is kept).\<close>

definition emitProtected ::
  "'e TlsOps \<Rightarrow> 8 word \<Rightarrow> bytes res \<Rightarrow> PeapPhase option \<Rightarrow> 'e Peap \<Rightarrow> 'e Peap \<times> EapResult res" where
  "emitProtected tls i tunneled phase m =
    (case tunneled of
       Inl err \<Rightarrow> (m, Inl err)
     | Inr b \<Rightarrow>
         (case pTls m of
            None \<Rightarrow> (m, Inl (Panic ''nil pointer dereference''))
          | Some e \<Rightarrow>
              (case Protect tls b e of
                 (e, Inl err) \<Rightarrow> (m\<lparr> pTls := Some e \<rparr>, Inl err)
               | (e, Inr protected) \<Rightarrow>
                   emitFragmentedOrSingle i protected
                     (m\<lparr> pTls := Some e, pPhase := (case phase of None \<Rightarrow> pPhase m | Some p \<Rightarrow> p) \<rparr>))))"

definition handleInnerMethod :: "'e TlsOps \<Rightarrow> bytes res \<Rightarrow> 8 word \<Rightarrow> bytes \<Rightarrow> 'e Peap \<Rightarrow> 'e Peap \<times> EapResult res" where
  "handleInnerMethod tls rnd i plain m =
    (case DecodeInnerRequest plain i of
       Inl err \<Rightarrow> (m, Inl err)
     | Inr innerReq \<Rightarrow>
         if innerReq ! 0 = CodeSuccess
         then emitProtected tls i (EncodeInnerResponse innerReq) (Some PeapAwaitingOuterSuccess) m
         else if innerReq ! 0 = CodeFailure
         then emitProtected tls i (EncodeInnerResponse innerReq) (Some PeapAwaitingOuterFailure) m
         else
           (case pInner m of
              None \<Rightarrow> (m, Inl (Panic ''nil pointer dereference''))
            | Some inner \<Rightarrow>
                (case msHandle rnd innerReq (pRound m) inner of
                   (inner, Inl err) \<Rightarrow> (m\<lparr> pInner := Some inner \<rparr>, Inl err)
                 | (inner, Inr res) \<Rightarrow>
                     let m = m\<lparr> pInner := Some inner \<rparr> in
                     if RAction res = ActionComplete
                     then (m, Inl (Errorf ''unexpected standalone mschapv2 completion without terminal inner packet''))
                     else emitProtected tls i (EncodeInnerResponse (RResponse res)) None m)))"

text \<open>The phases. \<open>rq\<close> is the parsed PEAP request, None for other packets.\<close>

definition onOuterIdentity :: "'e TlsOps \<Rightarrow> EapPacket \<Rightarrow> peapRequest option \<Rightarrow> 'e Peap \<Rightarrow> 'e Peap \<times> EapResult res" where
  "onOuterIdentity tls outer rq m =
    (if EapCode outer = CodeRequest \<and> EapType outer = TypeIdentity
     then (m, bind_res (BuildRequest CodeResponse (Identifier outer) TypeIdentity (pIdentity m)) (\<lambda>b. Inr (sendResult b)))
     else case rq of
       None \<Rightarrow> (m, Inl (Errorf ''unexpected outer eap packet during peap outer identity phase''))
     | Some rq \<Rightarrow>
         if rqFlags rq AND FlagStart = 0 then (m, Inl (Errorf ''expected peap start flag''))
         else if rqHasLength rq \<or> rqData rq \<noteq> [] then (m, Inl (Errorf ''unexpected peap tls data on start''))
         else
           let m = m\<lparr> pPhase := PeapTLSTunnel \<rparr> in
           (case pTls m of
              None \<Rightarrow> (m, Inl (Panic ''nil pointer dereference''))
            | Some e \<Rightarrow>
                (case TlsStart tls e of
                   (e, Inl err) \<Rightarrow> (m\<lparr> pTls := Some e \<rparr>, Inl (Errorf ''start peap tls handshake''))
                 | (e, Inr hello) \<Rightarrow> emitFragmentedOrSingle (rqIdentifier rq) hello (m\<lparr> pTls := Some e \<rparr>))))"

text \<open>The common part of the tunnel and inner phases: refusals, acknowledgements and the
  collection of a record, which \<open>use\<close> then handles.\<close>

definition onRecord ::
  "EapPacket \<Rightarrow> peapRequest option \<Rightarrow> (peapRequest \<Rightarrow> bytes \<Rightarrow> 'e \<Rightarrow> 'e Peap \<Rightarrow> 'e Peap \<times> EapResult res)
     \<Rightarrow> 'e Peap \<Rightarrow> 'e Peap \<times> EapResult res" where
  "onRecord outer rq use m =
    (if EapCode outer = CodeRequest \<and> EapType outer = TypeIdentity
     then (m, Inl (Errorf ''unexpected outer identity request''))
     else if EapCode outer = CodeFailure then (m, Inl (Errorf ''peap authentication failed''))
     else if EapCode outer = CodeSuccess then (m, Inl (Errorf ''unexpected outer EAP success''))
     else case rq of
       None \<Rightarrow> (m, Inl (Errorf ''unexpected outer eap packet''))
     | Some rq \<Rightarrow>
         if rqFlags rq AND FlagStart \<noteq> 0 then (m, Inl (Errorf ''unexpected peap start flag''))
         else if isAckRequest rq then (m, ackResult (rqIdentifier rq))
         else
           (case collectTLSRecord rq m of
              (m, Inl err) \<Rightarrow> (m, Inl err)
            | (m, Inr None) \<Rightarrow> (m, ackResult (rqIdentifier rq))
            | (m, Inr (Some rec)) \<Rightarrow>
                (case pTls m of
                   None \<Rightarrow> (m, Inl (Panic ''nil pointer dereference''))
                 | Some e \<Rightarrow> use rq rec e m)))"

definition useFeed :: "'e TlsOps \<Rightarrow> peapRequest \<Rightarrow> bytes \<Rightarrow> 'e \<Rightarrow> 'e Peap \<Rightarrow> 'e Peap \<times> EapResult res" where
  "useFeed tls rq rec e m =
    (case Feed tls rec e of
       (e, Inl err) \<Rightarrow> (m\<lparr> pTls := Some e \<rparr>, Inl (Errorf ''peap tls handshake''))
     | (e, Inr (out, step)) \<Rightarrow> onTLSStep tls (rqIdentifier rq) out step e (m\<lparr> pTls := Some e \<rparr>))"

definition useUnprotect :: "'e TlsOps \<Rightarrow> bytes res \<Rightarrow> peapRequest \<Rightarrow> bytes \<Rightarrow> 'e \<Rightarrow> 'e Peap \<Rightarrow> 'e Peap \<times> EapResult res" where
  "useUnprotect tls rnd rq rec e m =
    (case Unprotect tls rec e of
       (e, Inl err) \<Rightarrow> (m\<lparr> pTls := Some e \<rparr>, Inl (Errorf ''peap tls unprotect''))
     | (e, Inr plain) \<Rightarrow>
         let m = m\<lparr> pTls := Some e \<rparr> in
         if plain = [] then (m, Inl (Errorf ''unexpected empty inner tunneled payload''))
         else handleInnerMethod tls rnd (rqIdentifier rq) plain m)"

definition onOuterSuccess :: "'e TlsOps \<Rightarrow> EapPacket \<Rightarrow> 'e Peap \<Rightarrow> 'e Peap \<times> EapResult res" where
  "onOuterSuccess tls outer m =
    (if EapCode outer = CodeSuccess then
       (case bind_res (deref (pTls m)) (ExportMSK tls) of
          Inl err \<Rightarrow> (m, Inl err)
        | Inr msk \<Rightarrow> (m\<lparr> pMSK := (if msk = [] then None else Some msk), pPhase := PeapCompleted \<rparr>, Inr (completeResult msk)))
     else if EapCode outer = CodeFailure then (m, Inl (Errorf ''unexpected outer EAP failure after inner success''))
     else (m, Inl (Errorf ''unexpected outer eap packet while awaiting outer success'')))"

definition onOuterFailure :: "EapPacket \<Rightarrow> EapResult res" where
  "onOuterFailure outer =
    (if EapCode outer = CodeFailure then Inl (Errorf ''peap authentication failed'')
     else if EapCode outer = CodeSuccess then Inl (Errorf ''unexpected outer EAP success after inner failure'')
     else Inl (Errorf ''unexpected outer eap packet while awaiting outer failure''))"

definition onPhase ::
  "'e TlsOps \<Rightarrow> bytes res \<Rightarrow> EapPacket \<Rightarrow> peapRequest option \<Rightarrow> 'e Peap \<Rightarrow> 'e Peap \<times> EapResult res" where
  "onPhase tls rnd outer rq m =
    (case pPhase m of
       PeapIdle \<Rightarrow> (m, Inl (Errorf ''peap method was not initialized''))
     | PeapOuterIdentity \<Rightarrow> onOuterIdentity tls outer rq m
     | PeapTLSTunnel \<Rightarrow> onRecord outer rq (useFeed tls) m
     | PeapInnerMethod \<Rightarrow> onRecord outer rq (useUnprotect tls rnd) m
     | PeapAwaitingOuterSuccess \<Rightarrow> onOuterSuccess tls outer m
     | PeapAwaitingOuterFailure \<Rightarrow> (m, onOuterFailure outer)
     | PeapCompleted \<Rightarrow>
         (case pMSK m of
            None \<Rightarrow> (m, Inl (Errorf ''peap completed without exported msk''))
          | Some msk \<Rightarrow> (m, Inr (completeResult msk)))
     | PeapFailed \<Rightarrow> (m, Inl (Errorf ''peap method is in failure state'')))"

definition handleInner :: "'e TlsOps \<Rightarrow> bytes res \<Rightarrow> bytes \<Rightarrow> 16 word \<Rightarrow> 'e Peap \<Rightarrow> 'e Peap \<times> EapResult res" where
  "handleInner tls rnd packet rd m =
    (let m = m\<lparr> pRound := rd \<rparr> in
     case EapParse packet of
       Inl err \<Rightarrow> (m, Inl err)
     | Inr outer \<Rightarrow>
        (case (pOut m, pIn m) of
           (Some out, Some _) \<Rightarrow>
             if EapCode outer = CodeRequest \<and> EapType outer = TypePEAP then
               (case parsePeapRequest (Identifier outer) (EapData outer) of
                  Inl err \<Rightarrow> (m, Inl err)
                | Inr rq \<Rightarrow>
                    let m = m\<lparr> pMessages := pMessages m + 1 \<rparr> in
                    if OMaxMessageCount (pOpts m) > 0 \<and> pMessages m > OMaxMessageCount (pOpts m)
                    then (m, Inl (Errorf ''peap packet count exceeded''))
                    else if Pending out then
                      if \<not> isAckRequest rq
                      then (m, Inl (Errorf ''expected peap ack while outbound fragments pending''))
                      else emitNextFragment (rqIdentifier rq) m
                    else onPhase tls rnd outer (Some rq) m)
             else onPhase tls rnd outer None m
         | _ \<Rightarrow> (m, Inl (Errorf ''peap method was not initialized''))))"

definition peapHandle :: "'e TlsOps \<Rightarrow> bytes res \<Rightarrow> bytes \<Rightarrow> 16 word \<Rightarrow> 'e Peap \<Rightarrow> 'e Peap \<times> EapResult res" where
  "peapHandle tls rnd packet rd m =
    (case handleInner tls rnd packet rd m of
       (m, Inl (Panic s)) \<Rightarrow> (m, Inl (Panic s))
     | (m, Inl err) \<Rightarrow> (m\<lparr> pPhase := PeapFailed \<rparr>, Inl err)
     | (m, Inr r) \<Rightarrow> (m, Inr r))"

definition peap :: "'e TlsOps \<Rightarrow> 'e Peap Method" where
  "peap tls = \<lparr> MName = (\<lambda>_. ''peap''), Initialize = peapInitialize tls, Handle = peapHandle tls, MClose = peapClose \<rparr>"

section \<open>The registry\<close>

datatype 'e AnyMethod = PeapMethod "'e Peap" | Mschapv2Method Mschapv2

definition NewMethod :: "EapConfig option \<Rightarrow> 'e AnyMethod res" where
  "NewMethod cfg =
    (case cfg of
       None \<Rightarrow> Inl (Errorf ''github.com/wsm25/swan/eap/methods: nil EAP configuration'')
     | Some cfg \<Rightarrow>
         if EapMethod cfg = ''peap'' then
           if ServerName cfg = [] then Inl (Errorf ''github.com/wsm25/swan/eap/methods: PEAP requires cfg.ServerName'')
           else Inr (PeapMethod (NewPeap (ServerName cfg) (EapIdentity cfg) (EapPassword cfg)
             \<lparr> OFragmentSize = FragmentSize cfg, OMaxMessageCount = MaxMessageCount cfg, OIncludeLength = IncludeLength cfg,
               OStrongswanCompatible = EapStrongswanCompatible cfg, OInsecureSkipVerify = InsecureSkipVerify cfg \<rparr>))
         else if EapMethod cfg = ''mschapv2'' then Inr (Mschapv2Method (NewMschapv2 (EapIdentity cfg) (EapPassword cfg)))
         else Inl (Errorf ''github.com/wsm25/swan/eap/methods: unsupported EAP method''))"

text \<open>The method a session holds behind the interface.\<close>

fun anyInitialize :: "'e TlsOps \<Rightarrow> 'e AnyMethod \<Rightarrow> 'e AnyMethod \<times> unit res" where
  "anyInitialize tls (PeapMethod m) = apfst PeapMethod (peapInitialize tls m)"
| "anyInitialize tls (Mschapv2Method m) = apfst Mschapv2Method (msInitialize m)"

fun anyHandle :: "'e TlsOps \<Rightarrow> bytes res \<Rightarrow> bytes \<Rightarrow> 16 word \<Rightarrow> 'e AnyMethod \<Rightarrow> 'e AnyMethod \<times> EapResult res" where
  "anyHandle tls rnd p i (PeapMethod m) = apfst PeapMethod (peapHandle tls rnd p i m)"
| "anyHandle tls rnd p i (Mschapv2Method m) = apfst Mschapv2Method (msHandle rnd p i m)"

fun anyClose :: "'e AnyMethod \<Rightarrow> 'e AnyMethod" where
  "anyClose (PeapMethod m) = PeapMethod (peapClose m)"
| "anyClose (Mschapv2Method m) = Mschapv2Method (msClose m)"

fun anyName :: "'e AnyMethod \<Rightarrow> string" where
  "anyName (PeapMethod m) = ''peap''"
| "anyName (Mschapv2Method m) = ''mschapv2''"

definition anyMethod :: "'e TlsOps \<Rightarrow> 'e AnyMethod Method" where
  "anyMethod tls = \<lparr> MName = anyName, Initialize = anyInitialize tls, Handle = anyHandle tls, MClose = anyClose \<rparr>"

section \<open>Lemmas: fragments\<close>

text \<open>Reading one fragment on the other side, and a whole run of them.\<close>

definition pushPacket :: "bytes \<Rightarrow> InboundFragmenter \<Rightarrow> InboundFragmenter \<times> bytes option res" where
  "pushPacket p f =
    (case parsePeapRequest 0 p of
       Inl e \<Rightarrow> (f, Inl e)
     | Inr rq \<Rightarrow> FragPush (rqFlags rq) (if rqFlags rq AND FlagLengthIncluded \<noteq> 0 then rqLength rq else 0) (rqData rq) f)"

fun pushPackets :: "bytes list \<Rightarrow> InboundFragmenter \<Rightarrow> InboundFragmenter \<times> bytes option res" where
  "pushPackets [] f = (f, Inr None)"
| "pushPackets (p # ps) f =
    (case pushPacket p f of
       (f, Inr None) \<Rightarrow> pushPackets ps f
     | (f, r) \<Rightarrow> if ps = [] then (f, r) else (f, Inl (Errorf ''a message ended early'')))"

lemma FragNext_progress:
  assumes "Pending f" "0 < ofChunk f"
  shows "(case ofPayload (fst (FragNext f)) of None \<Rightarrow> 0 | Some p \<Rightarrow> length p - ofOffset (fst (FragNext f)))
           < (case ofPayload f of None \<Rightarrow> 0 | Some p \<Rightarrow> length p - ofOffset f)"
  using assms by (auto simp: Pending_def FragNext_def Let_def split: option.splits)

text \<open>The fragments that a run of acknowledgements draws out.\<close>

function drainFragments :: "OutboundFragmenter \<Rightarrow> bytes list" where
  "drainFragments f =
    (if Pending f \<and> 0 < ofChunk f
     then (case snd (FragNext f) of Inr (p, _) \<Rightarrow> p # drainFragments (fst (FragNext f)) | Inl _ \<Rightarrow> [])
     else [])"
  by auto
termination
  by (relation "measure (\<lambda>f. case ofPayload f of None \<Rightarrow> 0 | Some p \<Rightarrow> length p - ofOffset f)")
    (use FragNext_progress in auto)

declare drainFragments.simps [simp del]

definition fragmentsOf :: "int \<Rightarrow> bool \<Rightarrow> bytes \<Rightarrow> bytes list" where
  "fragmentsOf chunk includeLength payload =
    (case NewOutboundFragmenter chunk includeLength of
       None \<Rightarrow> []
     | Some f \<Rightarrow>
         (case FragStart payload 0 f of
            (f, Inl _) \<Rightarrow> []
          | (f, Inr (p, _)) \<Rightarrow> p # drainFragments f))"

lemma pushPacket_plain: "pushPacket (0 # d) f = FragPush 0 0 d f"
  by (simp add: pushPacket_def parsePeapRequest_def)

lemma pushPacket_more: "pushPacket (FlagMoreFragments # d) f = FragPush FlagMoreFragments 0 d f"
  by (simp add: pushPacket_def parsePeapRequest_def)

lemma pushPacket_length:
  assumes "fl \<in> {FlagLengthIncluded, FlagLengthIncluded OR FlagMoreFragments}"
  shows "pushPacket (fl # be32 n @ d) f = FragPush fl n d f"
  using assms by (auto simp: pushPacket_def parsePeapRequest_def Let_def)

lemma pushPackets_drain:
  assumes "ofPayload f = Some p" "ofOffset f < length p" "0 < ofChunk f"
    and "concat (ifParts g) = take (ofOffset f) p" "ifTotal g = ofOffset f" "ifExpected g = Some (length p)"
  shows "pushPackets (drainFragments f) g = (NewInboundFragmenter, Inr (Some p))"
  using assms
proof (induction f arbitrary: g rule: drainFragments.induct)
  case (1 f)
  have pend: "Pending f" using "1.prems" by (simp add: Pending_def)
  define e where "e = min (length p) (ofOffset f + ofChunk f)"
  have len: "ofOffset f + length (subslice p (ofOffset f) e) = e" using "1.prems"(2,3) by (simp add: e_def subslice_def)
  have le_e: "ofOffset f \<le> e" using "1.prems"(2) by (simp add: e_def)
  have cat: "concat (ifParts g @ [subslice p (ofOffset f) e]) = take e p"
    using take_add [of "ofOffset f" "e - ofOffset f" p] "1.prems"(2,4) by (simp add: subslice_def le_e)
  show ?case
  proof (cases "e < length p")
    case True
    have nxt: "FragNext f = (f\<lparr> ofOffset := e \<rparr>, Inr (FlagMoreFragments # subslice p (ofOffset f) e, False))"
      using pend True "1.prems"(1) by (simp add: FragNext_def Let_def e_def)
    have "pushPacket (FlagMoreFragments # subslice p (ofOffset f) e) g
            = (g\<lparr> ifParts := ifParts g @ [subslice p (ofOffset f) e], ifTotal := e \<rparr>, Inr None)"
      unfolding pushPacket_more using "1.prems"(5,6) len True by (simp add: FragPush_def pushPart_def Let_def)
    moreover have "pushPackets (drainFragments (f\<lparr> ofOffset := e \<rparr>)) (g\<lparr> ifParts := ifParts g @ [subslice p (ofOffset f) e], ifTotal := e \<rparr>)
            = (NewInboundFragmenter, Inr (Some p))"
      by (rule "1.IH" [OF _ _, of "(FlagMoreFragments # subslice p (ofOffset f) e, False)" "FlagMoreFragments # subslice p (ofOffset f) e" False, unfolded nxt, simplified])
        (use pend "1.prems" True cat in simp_all)
    ultimately show ?thesis using pend "1.prems"(3) nxt by (simp add: drainFragments.simps [of f])
  next
    case False
    then have e: "e = length p" by (simp add: e_def)
    have nxt: "FragNext f = (f\<lparr> ofPayload := None, ofOffset := 0 \<rparr>, Inr (0 # subslice p (ofOffset f) e, True))"
      using pend False "1.prems"(1) by (simp add: FragNext_def Let_def e_def)
    have "pushPacket (0 # subslice p (ofOffset f) e) g = (NewInboundFragmenter, Inr (Some p))"
      unfolding pushPacket_plain using "1.prems"(5,6) len cat e
      by (simp add: FragPush_def pushPart_def Let_def FragReset_def NewInboundFragmenter_def)
    then show ?thesis using pend "1.prems"(3) nxt
      by (simp add: drainFragments.simps [of f]) (simp add: drainFragments.simps Pending_def)
  qed
qed

text \<open>C12: the fragments of a message, read back one after the other by a fresh collector, give
  that message, and only the last of them completes it. A message that is sent with its length
  (fragmented, or by configuration) must not be empty and its length must fit in 32 bits.\<close>

theorem peap_fragments_reassemble:
  assumes "0 < chunk" "length payload < 2 ^ 32" "payload \<noteq> [] \<or> \<not> includeLength"
  shows "pushPackets (fragmentsOf chunk includeLength payload) NewInboundFragmenter
           = (NewInboundFragmenter, Inr (Some payload))"
proof -
  define f where "f = \<lparr> ofPayload = None, ofOffset = 0, ofChunk = nat chunk, ofIncludeLength = includeLength \<rparr>"
  have f: "NewOutboundFragmenter chunk includeLength = Some f" "ofChunk f = nat chunk" "\<not> Pending f"
      "ofIncludeLength f = includeLength"
    using assms(1) by (simp_all add: NewOutboundFragmenter_def f_def Pending_def)
  have n: "unat (word_of_nat (length payload) :: 32 word) = length payload"
    using assms(2) by (simp add: unat_of_nat take_bit_nat_eq_self)
  show ?thesis
  proof (cases "length payload > nat chunk")
    case True
    then have nonempty: "payload \<noteq> []" by auto
    define g where "g = \<lparr> ifParts = [take (nat chunk) payload], ifTotal = nat chunk, ifExpected = Some (length payload) \<rparr>"
    have "pushPackets (drainFragments (f\<lparr> ofPayload := Some payload, ofOffset := nat chunk \<rparr>)) g
            = (NewInboundFragmenter, Inr (Some payload))"
      by (rule pushPackets_drain) (use True assms(1) f in \<open>simp_all add: g_def\<close>)
    moreover have "pushPacket ((FlagLengthIncluded OR FlagMoreFragments) # be32 (word_of_nat (length payload)) @ take (nat chunk) payload)
        NewInboundFragmenter = (g, Inr None)"
      using True n assms(1) nonempty by (subst pushPacket_length)
        (simp_all add: FragPush_def pushPart_def Let_def g_def NewInboundFragmenter_def min_def flip: unat_eq_zero)
    moreover have "fragmentsOf chunk includeLength payload
        = ((FlagLengthIncluded OR FlagMoreFragments) # be32 (word_of_nat (length payload)) @ take (nat chunk) payload)
            # drainFragments (f\<lparr> ofPayload := Some payload, ofOffset := nat chunk \<rparr>)"
      using True f assms(1) by (simp add: fragmentsOf_def FragStart_def Let_def min_def)
    ultimately show ?thesis by simp
  next
    case False
    have "fragmentsOf chunk includeLength payload
        = [(if includeLength then FlagLengthIncluded else 0) # (if includeLength then be32 (word_of_nat (length payload)) else []) @ payload]"
      using False f assms(1) by (simp add: fragmentsOf_def FragStart_def Let_def min_def drainFragments.simps Pending_def)
    moreover have "pushPacket ((if includeLength then FlagLengthIncluded else 0) # (if includeLength then be32 (word_of_nat (length payload)) else []) @ payload)
        NewInboundFragmenter = (NewInboundFragmenter, Inr (Some payload))"
    proof (cases includeLength)
      case True
      then show ?thesis using n assms(3)
        by (simp add: pushPacket_length FragPush_def pushPart_def Let_def NewInboundFragmenter_def FragReset_def flip: unat_eq_zero)
    next
      case False
      then show ?thesis by (simp add: pushPacket_plain FragPush_def NewInboundFragmenter_def)
    qed
    ultimately show ?thesis by simp
  qed
qed

theorem peap_fragments_reassemble_witness:
  "length (fragmentsOf 2 False [1, 2, 3, 4, 5]) = 3
     \<and> pushPackets (fragmentsOf 2 False [1, 2, 3, 4, 5]) NewInboundFragmenter = (NewInboundFragmenter, Inr (Some [1, 2, 3, 4, 5]))"
  using peap_fragments_reassemble [of 2 "[1, 2, 3, 4, 5]" False]
  by (simp add: fragmentsOf_def NewOutboundFragmenter_def FragStart_def FragNext_def Let_def drainFragments.simps Pending_def subslice_def)

section \<open>Lemmas: the key of TLS 1.2\<close>

text \<open>\<^verbatim>\<open>P_hash\<close> of RFC 5246, section 5.\<close>

fun pHashA :: "HashKind \<Rightarrow> bytes \<Rightarrow> bytes \<Rightarrow> nat \<Rightarrow> bytes" where
  "pHashA h secret seed 0 = seed"
| "pHashA h secret seed (Suc i) = hmac h secret (pHashA h secret seed i)"

definition pHashBlocks :: "HashKind \<Rightarrow> bytes \<Rightarrow> bytes \<Rightarrow> nat \<Rightarrow> bytes" where
  "pHashBlocks h secret seed k = concat (map (\<lambda>i. hmac h secret (pHashA h secret seed (Suc i) @ seed)) [0..<k])"

lemma prf12Loop_blocks:
  "take n (prf12Loop h secret seed n fuel (pHashA h secret seed (Suc k)) (pHashBlocks h secret seed k))
     = take n (pHashBlocks h secret seed (k + fuel))"
proof (induction fuel arbitrary: k)
  case (Suc fuel)
  have next_block: "pHashBlocks h secret seed (Suc k)
      = pHashBlocks h secret seed k @ hmac h secret (pHashA h secret seed (Suc k) @ seed)"
    by (simp add: pHashBlocks_def)
  show ?case
  proof (cases "length (pHashBlocks h secret seed k) < n")
    case True
    then show ?thesis using Suc.IH [of "Suc k"] by (simp add: next_block)
  next
    case False
    have "pHashBlocks h secret seed (k + Suc fuel) = pHashBlocks h secret seed k
        @ concat (map (\<lambda>i. hmac h secret (pHashA h secret seed (Suc i) @ seed)) [k..<k + Suc fuel])"
      unfolding pHashBlocks_def concat_append [symmetric] map_append [symmetric]
      by (subst upt_add_eq_append [of 0 k "Suc fuel"]) simp_all
    then show ?thesis using False by simp
  qed
qed simp

lemma length_pHashBlocks: "length (pHashBlocks h secret seed k) = k * hash_len h"
  by (induction k) (simp_all add: pHashBlocks_def)

text \<open>C38: the derivation of \<^verbatim>\<open>tls12PRF\<close> is \<^verbatim>\<open>P_hash\<close> of RFC 5246 over the label and the seed, cut to the
  wanted length, and it gives all of that length.\<close>

theorem tls12PRF_is_P_hash:
  "tls12PRF withSHA384 secret label seed n
     = take n (pHashBlocks (if withSHA384 then HashSHA384 else HashSHA256) secret (label @ seed) n)
   \<and> length (tls12PRF withSHA384 secret label seed n) = n"
proof -
  define h where "h = (if withSHA384 then HashSHA384 else HashSHA256)"
  have "tls12PRF withSHA384 secret label seed n = take n (pHashBlocks h secret (label @ seed) n)"
    using prf12Loop_blocks [of n h secret "label @ seed" n 0]
    by (simp add: tls12PRF_def Let_def h_def pHashBlocks_def)
  moreover have "n \<le> n * hash_len h" by (cases withSHA384) (simp_all add: h_def)
  ultimately show ?thesis by (simp add: h_def [symmetric] length_pHashBlocks)
qed

lemma length_exportMSK: "exportMSK opts s = Inr k \<Longrightarrow> length k = MSKLen"
  by (auto simp: exportMSK_def Let_def split: if_splits sum.splits option.splits)

section \<open>Lemmas: the steps of the method\<close>

lemma encodeEmptyAck: "encodeEmptyAck i = Inr [CodeResponse, i, 0, 6, TypePEAP, 0]"
  by (simp add: encodeEmptyAck_def BuildRequest_def be16_def)

lemma ackResult [simp]: "ackResult i = Inr (sendResult [CodeResponse, i, 0, 6, TypePEAP, 0])"
  by (simp add: ackResult_def encodeEmptyAck)

lemma emitFragment_silent [simp]: "\<not> completes (emitFragment i r)"
  by (auto simp: emitFragment_def bind_res_def split: sum.splits)

lemma completeResult_inject [simp]: "completeResult k = completeResult l \<longleftrightarrow> k = l"
  by (metis result_simps(4))

text \<open>What a step never touches, and the parts that only emit or collect.\<close>

definition same_state :: "'e Peap \<Rightarrow> 'e Peap \<Rightarrow> bool" where
  "same_state m m' \<longleftrightarrow> pServerName m' = pServerName m \<and> pTls m' = pTls m \<and> pPhase m' = pPhase m \<and> pMSK m' = pMSK m
     \<and> pInner m' = pInner m"

lemma same_state_refl [simp]: "same_state m m"
  by (simp add: same_state_def)

lemma emitFragmentedOrSingle_same:
  "emitFragmentedOrSingle i b m = (m', r) \<Longrightarrow> same_state m m' \<and> \<not> completes r"
  by (auto simp: emitFragmentedOrSingle_def same_state_def split: option.splits prod.splits)

lemma emitNextFragment_same:
  "emitNextFragment i m = (m', r) \<Longrightarrow> same_state m m' \<and> \<not> completes r"
  by (auto simp: emitNextFragment_def same_state_def split: option.splits prod.splits)

lemma collectTLSRecord_same: "collectTLSRecord rq m = (m', r) \<Longrightarrow> same_state m m'"
  by (auto simp: collectTLSRecord_def same_state_def split: option.splits prod.splits)

text \<open>The evidence a step gives when it moves the method on: the server was identified, the inner
  method was confirmed through the tunnel, the outer method succeeded.\<close>

type_synonym peapInput = "bytes res \<times> bytes \<times> 16 word"

definition server_identified :: "'e TlsOps \<Rightarrow> 'e Peap \<Rightarrow> bool" where
  "server_identified tls m \<longleftrightarrow> (\<exists>e. pTls m = Some e \<and> VerifyServerIdentity tls (pServerName m) e = Inr ())"

definition inner_confirmed :: "'e TlsOps \<Rightarrow> bytes \<Rightarrow> 'e Peap \<Rightarrow> bool" where
  "inner_confirmed tls packet m \<longleftrightarrow> (\<exists>outer rq record e plain.
     EapParse packet = Inr outer \<and> parsePeapRequest (Identifier outer) (EapData outer) = Inr rq
     \<and> snd (collectTLSRecord rq m) = Inr (Some record) \<and> pTls m = Some e
     \<and> snd (Unprotect tls record e) = Inr plain \<and> completeInnerRequest plain \<and> isMSAVP plain = Some msAVPSuccess)"

definition outer_succeeded :: "'e TlsOps \<Rightarrow> bytes \<Rightarrow> bytes \<Rightarrow> 'e Peap \<Rightarrow> bool" where
  "outer_succeeded tls packet msk m \<longleftrightarrow> (\<exists>outer e. EapParse packet = Inr outer \<and> EapCode outer = CodeSuccess
     \<and> pTls m = Some e \<and> ExportMSK tls e = Inr msk)"

text \<open>The moves of the method on a packet.\<close>

inductive moves :: "'e TlsOps \<Rightarrow> bytes \<Rightarrow> 'e Peap \<Rightarrow> 'e Peap \<Rightarrow> EapResult res \<Rightarrow> bool"
  for tls packet m m' r where
  keep: "pPhase m' = pPhase m \<Longrightarrow> pMSK m' = pMSK m
     \<Longrightarrow> (completes r \<Longrightarrow> pPhase m = PeapCompleted \<and> (\<exists>k. r = Inr (completeResult k) \<and> pMSK m = Some k))
     \<Longrightarrow> moves tls packet m m' r"
| tunnel: "pPhase m = PeapOuterIdentity \<Longrightarrow> pPhase m' = PeapTLSTunnel \<Longrightarrow> \<not> completes r \<Longrightarrow> moves tls packet m m' r"
| inner: "pPhase m = PeapTLSTunnel \<Longrightarrow> pPhase m' = PeapInnerMethod \<Longrightarrow> server_identified tls m' \<Longrightarrow> \<not> completes r
     \<Longrightarrow> moves tls packet m m' r"
| accept: "pPhase m = PeapInnerMethod \<Longrightarrow> pPhase m' = PeapAwaitingOuterSuccess \<Longrightarrow> inner_confirmed tls packet m
     \<Longrightarrow> \<not> completes r \<Longrightarrow> moves tls packet m m' r"
| reject: "pPhase m = PeapInnerMethod \<Longrightarrow> pPhase m' = PeapAwaitingOuterFailure \<Longrightarrow> \<not> completes r
     \<Longrightarrow> moves tls packet m m' r"
| complete: "pPhase m = PeapAwaitingOuterSuccess \<Longrightarrow> pPhase m' = PeapCompleted \<Longrightarrow> r = Inr (completeResult k)
     \<Longrightarrow> outer_succeeded tls packet k m \<Longrightarrow> pMSK m' = (if k = [] then None else Some k) \<Longrightarrow> moves tls packet m m' r"
| fail: "pPhase m' = PeapFailed \<Longrightarrow> \<not> completes r \<Longrightarrow> moves tls packet m m' r"

lemma keep_same: "same_state m m' \<Longrightarrow> \<not> completes r \<Longrightarrow> moves tls packet m m' r"
  by (rule moves.keep) (auto simp: same_state_def)

lemma same_nameD: "same_state m m' \<Longrightarrow> pServerName m' = pServerName m"
  by (simp add: same_state_def)

lemma enterInner_cases:
  assumes "enterInner tls e m = (m', r)"
  obtains "m' = m"
  | "pPhase m' = PeapInnerMethod" "pServerName m' = pServerName m" "pTls m' = pTls m" "pMSK m' = pMSK m"
      "VerifyServerIdentity tls (pServerName m) e = Inr ()"
proof (cases "VerifyServerIdentity tls (pServerName m) e")
  case (Inl x)
  then show ?thesis using assms that(1) by (simp add: enterInner_def)
next
  case (Inr u)
  then have "fst (enterInner tls e m) = m' \<Longrightarrow> pPhase m' = PeapInnerMethod \<and> pServerName m' = pServerName m
      \<and> pTls m' = pTls m \<and> pMSK m' = pMSK m"
    by (auto simp: enterInner_def Let_def split: option.splits prod.splits)
  then show ?thesis using assms that(2) Inr by simp
qed

lemma onTLSStep_moves:
  assumes "onTLSStep tls i out step e m = (m', r)" "pTls m = Some e" "pPhase m = PeapTLSTunnel"
  shows "moves tls packet m m' r \<and> pServerName m' = pServerName m"
proof -
  have entered: "moves tls packet m m' r" if "enterInner tls e m = (m1, q)" "same_state m1 m'" "\<not> completes r" for m1 q
    using that(1)
  proof (cases rule: enterInner_cases)
    case 1
    then show ?thesis using that(2,3) keep_same [of m m'] by simp
  next
    case 2
    then have "server_identified tls m'" using that(2) assms(2) by (simp add: server_identified_def same_state_def)
    then show ?thesis using 2(1) that(2,3) assms(3) by (intro moves.inner) (simp_all add: same_state_def)
  qed
  have name: "pServerName m1 = pServerName m" if "enterInner tls e m = (m1, q)" for m1 q
    using that by (cases rule: enterInner_cases) auto
  show ?thesis
  proof (cases step)
    case StepNeedMoreData
    then show ?thesis using assms(1) by (auto simp: onTLSStep_def intro!: moves.keep)
  next
    case StepOutbound
    show ?thesis
    proof (cases "Established tls e")
      case True
      obtain m1 q where E: "enterInner tls e m = (m1, q)" by fastforce
      show ?thesis
      proof (cases q)
        case (Inl err)
        then have "m' = m1" "r = Inl err" using True StepOutbound assms(1,3) E by (simp_all add: onTLSStep_def)
        then show ?thesis using entered [OF E] name [OF E] by simp
      next
        case (Inr u)
        then have "emitFragmentedOrSingle i out m1 = (m', r)" using True StepOutbound assms(1,3) E by (simp add: onTLSStep_def)
        from emitFragmentedOrSingle_same [OF this] show ?thesis using entered [OF E] name [OF E] same_nameD [of m1 m'] by simp
      qed
    next
      case False
      then have "emitFragmentedOrSingle i out m = (m', r)" using StepOutbound assms(1) by (simp add: onTLSStep_def)
      from emitFragmentedOrSingle_same [OF this] show ?thesis using keep_same same_nameD by blast
    qed
  next
    case StepEstablished
    obtain m1 q where E: "enterInner tls e m = (m1, q)" by fastforce
    then have "m' = m1 \<and> \<not> completes r" using assms(1) StepEstablished by (cases q) (auto simp: onTLSStep_def)
    then show ?thesis using entered [OF E] name [OF E] by simp
  qed
qed

lemma emitProtected_phase:
  assumes "emitProtected tls i b ph m = (m', r)"
  shows "pServerName m' = pServerName m \<and> pMSK m' = pMSK m \<and> \<not> completes r
    \<and> (pPhase m' = pPhase m \<or> ph = Some (pPhase m'))"
  using assms
  by (auto simp: emitProtected_def same_state_def split: sum.splits option.splits prod.splits dest!: emitFragmentedOrSingle_same)

lemma DecodeInnerRequest_success:
  assumes "DecodeInnerRequest plain i = Inr b" "b ! 0 = CodeSuccess"
  shows "completeInnerRequest plain \<and> isMSAVP plain = Some msAVPSuccess"
  using assms
  by (auto simp: DecodeInnerRequest_def completeInnerRequest_def Let_def split: if_splits option.splits)

lemma handleInnerMethod_phase:
  assumes "handleInnerMethod tls rnd i plain m = (m', r)"
  shows "pServerName m' = pServerName m \<and> pMSK m' = pMSK m \<and> \<not> completes r
    \<and> (pPhase m' = pPhase m \<or> pPhase m' = PeapAwaitingOuterFailure
        \<or> pPhase m' = PeapAwaitingOuterSuccess \<and> completeInnerRequest plain \<and> isMSAVP plain = Some msAVPSuccess)"
proof (cases "DecodeInnerRequest plain i")
  case (Inl e)
  then show ?thesis using assms by (auto simp: handleInnerMethod_def)
next
  case (Inr b)
  show ?thesis
  proof (cases "b ! 0 = CodeSuccess \<or> b ! 0 = CodeFailure")
    case True
    then show ?thesis using assms Inr DecodeInnerRequest_success [OF Inr]
      by (auto simp: handleInnerMethod_def dest!: emitProtected_phase split: if_splits)
  next
    case False
    then show ?thesis using assms Inr
      by (auto simp: handleInnerMethod_def Let_def split: option.splits prod.splits sum.splits if_splits dest!: emitProtected_phase)
  qed
qed

text \<open>The phases that read a record: what the use of the record does, the phase does.\<close>

lemma onRecord_cases:
  assumes "onRecord outer rq use m = (m', r)"
  obtains "same_state m m'" "\<not> completes r"
  | q rc m1 e where "rq = Some q" "collectTLSRecord q m = (m1, Inr (Some rc))" "pTls m1 = Some e"
      "use q rc e m1 = (m', r)"
proof (cases "same_state m m' \<and> \<not> completes r")
  case False
  then show ?thesis using assms that(2)
    by (auto simp: onRecord_def split: if_splits option.splits prod.splits sum.splits dest!: collectTLSRecord_same)
qed (use that in blast)

lemma onRecord_feed_moves:
  assumes "onRecord outer rq (useFeed tls) m = (m', r)" "pPhase m = PeapTLSTunnel"
  shows "moves tls packet m m' r \<and> pServerName m' = pServerName m"
  using assms(1)
proof (cases rule: onRecord_cases)
  case 1
  then show ?thesis using keep_same same_nameD by blast
next
  case (2 q rc m1 e)
  have same: "same_state m m1" using collectTLSRecord_same 2(2) by blast
  have lift: "moves tls packet m x q" if "moves tls packet (m1\<lparr> pTls := t \<rparr>) x q" for t x q
    using that same assms(2) by cases (auto simp: same_state_def intro: moves.intros)
  show ?thesis
  proof (cases "Feed tls rc e")
    case (Pair e' q')
    show ?thesis
    proof (cases q')
      case (Inl err)
      then show ?thesis using 2(4) Pair same by (auto simp: useFeed_def same_state_def intro: moves.keep)
    next
      case (Inr os)
      then obtain out step where os: "q' = Inr (out, step)" by (cases os) auto
      have "onTLSStep tls (rqIdentifier q) out step e' (m1\<lparr> pTls := Some e' \<rparr>) = (m', r)"
        using 2(4) Pair os by (simp add: useFeed_def)
      then show ?thesis using onTLSStep_moves [of tls _ out step e' "m1\<lparr> pTls := Some e' \<rparr>" m' r packet] lift same assms(2)
        by (auto simp: same_state_def)
    qed
  qed
qed

lemma onRecord_unprotect_moves:
  assumes "onRecord outer (Some q) (useUnprotect tls rnd) m = (m', r)" "pPhase m = PeapInnerMethod"
    and "EapParse packet = Inr outer" "parsePeapRequest (Identifier outer) (EapData outer) = Inr q"
  shows "moves tls packet m m' r \<and> pServerName m' = pServerName m"
  using assms(1)
proof (cases rule: onRecord_cases)
  case 1
  then show ?thesis using keep_same same_nameD by blast
next
  case (2 q' rc m1 e)
  have same: "same_state m m1" using collectTLSRecord_same 2(2) by blast
  obtain e' p where U: "Unprotect tls rc e = (e', p)" by fastforce
  show ?thesis
  proof (cases "\<exists>plain. p = Inr plain \<and> plain \<noteq> []")
    case False
    then show ?thesis using 2(4) U same
      by (cases p) (auto simp: useUnprotect_def Let_def same_state_def intro: moves.keep)
  next
    case True
    then obtain plain where p: "p = Inr plain" "plain \<noteq> []" by blast
    have H: "handleInnerMethod tls rnd (rqIdentifier q') plain (m1\<lparr> pTls := Some e' \<rparr>) = (m', r)"
      using 2(4) U p by (simp add: useUnprotect_def)
    have "inner_confirmed tls packet m" if "completeInnerRequest plain" "isMSAVP plain = Some msAVPSuccess"
      unfolding inner_confirmed_def using that assms(3,4) 2(1-3) U p same
      by (intro exI [of _ outer] exI [of _ q] exI [of _ rc] exI [of _ e] exI [of _ plain]) (simp add: same_state_def)
    then show ?thesis using handleInnerMethod_phase [OF H] same assms(2)
      by (auto simp: same_state_def intro: moves.keep moves.reject moves.accept)
  qed
qed

lemma onOuterIdentity_moves:
  assumes "onOuterIdentity tls outer rq m = (m', r)" "pPhase m = PeapOuterIdentity"
  shows "moves tls packet m m' r \<and> pServerName m' = pServerName m"
proof (cases "\<exists>i b m1. pServerName m1 = pServerName m \<and> pPhase m1 = PeapTLSTunnel \<and> emitFragmentedOrSingle i b m1 = (m', r)")
  case True
  then obtain i b m1 where m1: "pServerName m1 = pServerName m" "pPhase m1 = PeapTLSTunnel" "emitFragmentedOrSingle i b m1 = (m', r)"
    by blast
  from emitFragmentedOrSingle_same [OF m1(3)] show ?thesis using m1 assms(2)
    by (auto simp: same_state_def intro: moves.tunnel)
next
  case False
  then show ?thesis using assms
    by (auto simp: onOuterIdentity_def Let_def bind_res_def split: if_splits option.splits prod.splits sum.splits
        intro: moves.keep moves.tunnel)
qed

lemma onPhase_moves:
  assumes "onPhase tls rnd outer rq m = (m', r)" "EapParse packet = Inr outer"
    and "\<And>q. rq = Some q \<Longrightarrow> parsePeapRequest (Identifier outer) (EapData outer) = Inr q"
  shows "moves tls packet m m' r \<and> pServerName m' = pServerName m"
proof (cases "pPhase m")
  case PeapOuterIdentity
  then show ?thesis using assms(1) onOuterIdentity_moves by (simp add: onPhase_def)
next
  case PeapTLSTunnel
  then show ?thesis using assms(1) onRecord_feed_moves by (simp add: onPhase_def)
next
  case PeapInnerMethod
  show ?thesis
  proof (cases rq)
    case None
    then show ?thesis using PeapInnerMethod assms(1)
      by (auto simp: onPhase_def onRecord_def split: if_splits intro: moves.keep)
  next
    case (Some q)
    then show ?thesis using PeapInnerMethod assms onRecord_unprotect_moves by (simp add: onPhase_def)
  qed
next
  case PeapAwaitingOuterSuccess
  show ?thesis
  proof (cases "EapCode outer = CodeSuccess \<and> (\<exists>e k. pTls m = Some e \<and> ExportMSK tls e = Inr k)")
    case True
    then obtain e k where e: "pTls m = Some e" "ExportMSK tls e = Inr k" "EapCode outer = CodeSuccess" by blast
    have m': "m' = m\<lparr> pMSK := (if k = [] then None else Some k), pPhase := PeapCompleted \<rparr>" "r = Inr (completeResult k)"
      using assms(1) PeapAwaitingOuterSuccess e by (auto simp: onPhase_def onOuterSuccess_def deref_def)
    have "outer_succeeded tls packet k m" using assms(2) e by (auto simp: outer_succeeded_def)
    then show ?thesis using moves.complete [of m m' r k] PeapAwaitingOuterSuccess m' by simp
  next
    case False
    then show ?thesis using assms(1) PeapAwaitingOuterSuccess
      by (cases "pTls m") (auto simp: onPhase_def onOuterSuccess_def deref_def split: if_splits sum.splits intro: moves.keep)
  qed
next
  case PeapAwaitingOuterFailure
  then show ?thesis using assms(1)
    by (auto simp: onPhase_def onOuterFailure_def split: if_splits intro: moves.keep)
next
  case PeapCompleted
  then show ?thesis using assms(1) by (auto simp: onPhase_def split: option.splits intro!: moves.keep)
qed (use assms(1) in \<open>auto simp: onPhase_def intro: moves.keep\<close>)

lemma moves_cong:
  assumes "moves tls packet m1 m' r"
    and "pPhase m1 = pPhase m" "pMSK m1 = pMSK m" "pTls m1 = pTls m" "pIn m1 = pIn m"
  shows "moves tls packet m m' r"
proof -
  have "snd (collectTLSRecord rq m1) = snd (collectTLSRecord rq m)" for rq
    using assms(5) by (auto simp: collectTLSRecord_def split: option.splits prod.splits)
  then have ic: "inner_confirmed tls packet m1 \<Longrightarrow> inner_confirmed tls packet m"
    using assms(4) by (simp add: inner_confirmed_def)
  have os: "outer_succeeded tls packet k m1 \<Longrightarrow> outer_succeeded tls packet k m" for k
    using assms(4) by (simp add: outer_succeeded_def)
  from assms(1) show ?thesis using assms(2,3) ic os by cases (auto intro: moves.intros)
qed

lemma handleInner_moves:
  assumes "handleInner tls rnd packet rd m = (m', r)"
  shows "moves tls packet m m' r \<and> pServerName m' = pServerName m"
proof -
  define m0 where "m0 = m\<lparr> pRound := rd \<rparr>"
  define m1 where "m1 = m0\<lparr> pMessages := pMessages m0 + 1 \<rparr>"
  have eqs: "pPhase m0 = pPhase m" "pMSK m0 = pMSK m" "pTls m0 = pTls m" "pIn m0 = pIn m" "pServerName m0 = pServerName m"
    "pPhase m1 = pPhase m" "pMSK m1 = pMSK m" "pTls m1 = pTls m" "pIn m1 = pIn m" "pServerName m1 = pServerName m"
    by (simp_all add: m0_def m1_def)
  have err: "moves tls packet m m0 (Inl x) \<and> moves tls packet m m1 (Inl x)" for x
    using eqs by (auto intro: moves.keep)
  consider (failed) "\<exists>x. r = Inl x \<and> (m' = m0 \<or> m' = m1)"
    | (next_fragment) i where "emitNextFragment i m1 = (m', r)"
    | (phase) outer rq mx where "EapParse packet = Inr outer" "onPhase tls rnd outer rq mx = (m', r)" "mx \<in> {m0, m1}"
        "\<And>q. rq = Some q \<Longrightarrow> parsePeapRequest (Identifier outer) (EapData outer) = Inr q"
  proof (cases "EapParse packet")
    case (Inl x)
    then show ?thesis using assms that(1) by (auto simp: handleInner_def m0_def)
  next
    case (Inr outer)
    show ?thesis
    proof (cases "\<exists>out i. pOut m = Some out \<and> pIn m = Some i")
      case False
      then show ?thesis using assms that(1) Inr
        by (cases "pOut m"; cases "pIn m") (auto simp: handleInner_def m0_def)
    next
      case True
      then obtain out i where oi: "pOut m = Some out" "pIn m = Some i" by blast
      show ?thesis
      proof (cases "EapCode outer = CodeRequest \<and> EapType outer = TypePEAP")
        case False
        then have "onPhase tls rnd outer None m0 = (m', r)" using assms Inr oi by (auto simp: handleInner_def m0_def Let_def split: if_splits)
        then show ?thesis using that(3) Inr by blast
      next
        case True
        show ?thesis
        proof (cases "parsePeapRequest (Identifier outer) (EapData outer)")
          case (Inl x)
          then show ?thesis using assms that(1) Inr oi True by (auto simp: handleInner_def m0_def Let_def)
        next
          case (Inr q)
          have eq: "(if OMaxMessageCount (pOpts m1) > 0 \<and> pMessages m1 > OMaxMessageCount (pOpts m1)
                    then (m1, Inl (Errorf ''peap packet count exceeded''))
                    else if Pending out then
                      if \<not> isAckRequest q then (m1, Inl (Errorf ''expected peap ack while outbound fragments pending''))
                      else emitNextFragment (rqIdentifier q) m1
                    else onPhase tls rnd outer (Some q) m1) = (m', r)"
            using assms \<open>EapParse packet = Inr outer\<close> oi True Inr by (simp add: handleInner_def Let_def m0_def m1_def split del: if_split cong: if_cong)
          show ?thesis
            using eq that(1) that(2) that(3) [OF \<open>EapParse packet = Inr outer\<close>, of "Some q" m1] Inr
            by (auto split: if_splits)
        qed
      qed
    qed
  qed
  then show ?thesis
  proof cases
    case failed
    then show ?thesis using err eqs by auto
  next
    case next_fragment
    from emitNextFragment_same [OF this] have "moves tls packet m1 m' r" "pServerName m' = pServerName m1"
      using keep_same same_nameD by blast+
    then show ?thesis using moves_cong [of tls packet m1 m' r m] eqs by simp
  next
    case phase
    then show ?thesis using onPhase_moves [OF phase(2,1,4)] moves_cong [of tls packet _ m' r m] eqs by auto
  qed
qed

lemma peapHandle_moves:
  assumes "peapHandle tls rnd packet rd m = (m', r)"
  shows "moves tls packet m m' r \<and> pServerName m' = pServerName m"
proof -
  obtain m1 q where H: "handleInner tls rnd packet rd m = (m1, q)" by fastforce
  show ?thesis
  proof (cases "m' = m1 \<and> r = q")
    case True
    then show ?thesis using handleInner_moves [OF H] by simp
  next
    case False
    then have "pPhase m' = PeapFailed" "\<not> completes r" "pServerName m' = pServerName m1"
      using assms H by (auto simp: peapHandle_def split: sum.splits error.splits)
    then show ?thesis using handleInner_moves [OF H] by (auto intro: moves.fail)
  qed
qed

section \<open>The method keeps the contract\<close>

lemma peapHandle_error:
  "peapHandle tls rnd packet rd m = (m', Inl e) \<Longrightarrow> \<not> is_panic e \<Longrightarrow> pPhase m' = PeapFailed"
  by (auto simp: peapHandle_def split: prod.splits sum.splits error.splits)

lemma peapHandle_failed:
  assumes "pPhase m = PeapFailed" "peapHandle tls rnd packet rd m = (m', r)"
  shows "pPhase m' = PeapFailed \<and> \<not> completes r"
proof -
  have "moves tls packet m m' r" using peapHandle_moves assms(2) by blast
  then show ?thesis using assms(1) by cases auto
qed

interpretation peap_method: eap_method "peap tls" "\<lambda>m. pPhase m = PeapFailed"
  by unfold_locales (use peapHandle_error peapHandle_failed in \<open>simp_all add: peap_def\<close>)

definition anyFailed :: "'e AnyMethod \<Rightarrow> bool" where
  "anyFailed m = (case m of PeapMethod p \<Rightarrow> pPhase p = PeapFailed | Mschapv2Method q \<Rightarrow> msPhase q = MsFailed)"

lemma anyHandle_error:
  assumes "anyHandle tls rnd p i m = (m', Inl e)" "\<not> is_panic e"
  shows "anyFailed m'"
proof (cases m)
  case (PeapMethod q)
  then show ?thesis using assms by (cases "peapHandle tls rnd p i q") (auto simp: anyFailed_def dest: peapHandle_error)
next
  case (Mschapv2Method q)
  then show ?thesis using assms by (cases "msHandle rnd p i q") (auto simp: anyFailed_def dest: msHandle_error)
qed

lemma anyHandle_failed:
  assumes "anyFailed m" "anyHandle tls rnd p i m = (m', r)"
  shows "anyFailed m' \<and> \<not> completes r"
proof (cases m)
  case (PeapMethod q)
  then show ?thesis using assms by (cases "peapHandle tls rnd p i q") (auto simp: anyFailed_def dest: peapHandle_failed)
next
  case (Mschapv2Method q)
  then show ?thesis using assms by (cases "msHandle rnd p i q") (auto simp: anyFailed_def msHandle_failed)
qed

interpretation any_method: eap_method "anyMethod tls" anyFailed
  by unfold_locales (use anyHandle_error anyHandle_failed in \<open>simp_all add: anyMethod_def\<close>)

section \<open>What a completed method has seen\<close>

text \<open>The state after a sequence of packets, each with the octets that may be drawn and its round.\<close>

fun peapAfter :: "'e TlsOps \<Rightarrow> peapInput list \<Rightarrow> 'e Peap \<Rightarrow> 'e Peap" where
  "peapAfter tls [] m = m"
| "peapAfter tls ((rnd, packet, rd) # ins) m = peapAfter tls ins (fst (peapHandle tls rnd packet rd m))"

abbreviation (input) packetOf :: "peapInput \<Rightarrow> bytes" where
  "packetOf x \<equiv> fst (snd x)"

lemma peapAfter_snoc:
  "peapAfter tls (ins @ [x]) m = fst (peapHandle tls (fst x) (packetOf x) (snd (snd x)) (peapAfter tls ins m))"
  by (induction ins arbitrary: m) (cases x; auto)+

lemma step_moves:
  "moves tls (packetOf x) (peapAfter tls ins m) (peapAfter tls (ins @ [x]) m)
     (snd (peapHandle tls (fst x) (packetOf x) (snd (snd x)) (peapAfter tls ins m)))
   \<and> pServerName (peapAfter tls (ins @ [x]) m) = pServerName (peapAfter tls ins m)"
  unfolding peapAfter_snoc by (rule peapHandle_moves) simp

lemma peapAfter_name: "pServerName (peapAfter tls ins m) = pServerName m"
  by (induction ins rule: rev_induct) (simp_all add: step_moves)

text \<open>The order in which the evidence was seen among the first packets of a run.\<close>

definition seen_server :: "'e TlsOps \<Rightarrow> peapInput list \<Rightarrow> 'e Peap \<Rightarrow> nat \<Rightarrow> bool" where
  "seen_server tls ins m n \<longleftrightarrow> (\<exists>i < n. server_identified tls (peapAfter tls (take (Suc i) ins) m))"

definition seen_inner :: "'e TlsOps \<Rightarrow> peapInput list \<Rightarrow> 'e Peap \<Rightarrow> nat \<Rightarrow> bool" where
  "seen_inner tls ins m n \<longleftrightarrow> (\<exists>j < n. seen_server tls ins m j
     \<and> inner_confirmed tls (packetOf (ins ! j)) (peapAfter tls (take j ins) m))"

definition seen_outer :: "'e TlsOps \<Rightarrow> peapInput list \<Rightarrow> 'e Peap \<Rightarrow> bytes \<Rightarrow> nat \<Rightarrow> bool" where
  "seen_outer tls ins m msk n \<longleftrightarrow> (\<exists>k < n. seen_inner tls ins m k
     \<and> outer_succeeded tls (packetOf (ins ! k)) msk (peapAfter tls (take k ins) m))"

lemma seen_snoc:
  assumes "n \<le> length ins"
  shows "seen_server tls (ins @ [x]) m n = seen_server tls ins m n"
    and "seen_inner tls (ins @ [x]) m n = seen_inner tls ins m n"
    and "seen_outer tls (ins @ [x]) m k n = seen_outer tls ins m k n"
proof -
  have server: "seen_server tls (ins @ [x]) m n = seen_server tls ins m n" if "n \<le> length ins" for n
    using that by (auto simp: seen_server_def)
  have inner: "seen_inner tls (ins @ [x]) m n = seen_inner tls ins m n" if "n \<le> length ins" for n
    using that server by (auto simp: seen_inner_def nth_append)
  show "seen_outer tls (ins @ [x]) m k n = seen_outer tls ins m k n"
    using assms inner by (auto simp: seen_outer_def nth_append)
  show "seen_server tls (ins @ [x]) m n = seen_server tls ins m n" "seen_inner tls (ins @ [x]) m n = seen_inner tls ins m n"
    using server inner assms by simp_all
qed

lemma seen_Suc:
  "seen_server tls ins m n \<Longrightarrow> seen_server tls ins m (Suc n)"
  "seen_inner tls ins m n \<Longrightarrow> seen_inner tls ins m (Suc n)"
  "seen_outer tls ins m k n \<Longrightarrow> seen_outer tls ins m k (Suc n)"
  unfolding seen_server_def seen_inner_def seen_outer_def using less_SucI by blast+

text \<open>What the phase of a run that began in the outer identity phase says of its packets.\<close>

definition phase_evidence :: "'e TlsOps \<Rightarrow> peapInput list \<Rightarrow> 'e Peap \<Rightarrow> bool" where
  "phase_evidence tls ins m \<longleftrightarrow>
    (let s = peapAfter tls ins m; n = length ins in
     (pPhase s \<in> {PeapInnerMethod, PeapAwaitingOuterFailure} \<longrightarrow> seen_server tls ins m n)
     \<and> (pPhase s = PeapAwaitingOuterSuccess \<longrightarrow> seen_inner tls ins m n)
     \<and> (pPhase s = PeapCompleted \<longrightarrow> (\<forall>k. pMSK s = Some k \<longrightarrow> seen_outer tls ins m k n)))"

lemma phase_evidence_snoc:
  assumes "phase_evidence tls ins m"
    and "moves tls (packetOf x) (peapAfter tls ins m) (peapAfter tls (ins @ [x]) m) r"
  shows "phase_evidence tls (ins @ [x]) m"
    and "r = Inr (completeResult k) \<Longrightarrow> seen_outer tls (ins @ [x]) m k (Suc (length ins))"
proof -
  let ?n = "length ins"
  have old: "seen_server tls ins m ?n \<Longrightarrow> seen_server tls (ins @ [x]) m (Suc ?n)"
    "seen_inner tls ins m ?n \<Longrightarrow> seen_inner tls (ins @ [x]) m (Suc ?n)"
    "seen_outer tls ins m k ?n \<Longrightarrow> seen_outer tls (ins @ [x]) m k (Suc ?n)" for k
    using seen_snoc [of ?n ins tls x m] by (auto intro: seen_Suc)
  have new: "server_identified tls (peapAfter tls (ins @ [x]) m) \<Longrightarrow> seen_server tls (ins @ [x]) m (Suc ?n)"
    by (auto simp: seen_server_def)
  have new_inner: "seen_inner tls (ins @ [x]) m (Suc ?n)"
    if "seen_server tls ins m ?n" "inner_confirmed tls (packetOf x) (peapAfter tls ins m)"
    using that seen_snoc(1) [of ?n ins tls x m] by (auto simp: seen_inner_def)
  have new_outer: "seen_outer tls (ins @ [x]) m k (Suc ?n)"
    if "seen_inner tls ins m ?n" "outer_succeeded tls (packetOf x) k (peapAfter tls ins m)" for k
    using that seen_snoc(2) [of ?n ins tls x m] by (auto simp: seen_outer_def)
  show "phase_evidence tls (ins @ [x]) m"
    using assms(2,1) by cases (auto simp: phase_evidence_def Let_def old new new_inner new_outer split: if_splits)
  show "seen_outer tls (ins @ [x]) m k (Suc ?n)" if "r = Inr (completeResult k)"
    using assms(2,1) that by cases (auto simp: phase_evidence_def Let_def old new_outer)
qed

lemma phase_evidence_run:
  assumes "pPhase m = PeapOuterIdentity"
  shows "phase_evidence tls ins m"
proof (induction ins rule: rev_induct)
  case Nil
  then show ?case using assms by (simp add: phase_evidence_def)
next
  case (snoc x ins)
  show ?case
    by (rule phase_evidence_snoc(1) [OF snoc.IH conjunct1 [OF step_moves]])
qed

text \<open>C5: PEAP hands out a key only after it saw, in this order, a tunnel whose server certificate
  names the configured server, the success message of the inner method through the tunnel, and the
  outer success, and the key is the one the tunnel exports at that point.\<close>

theorem peap_completion_proved:
  assumes "peapInitialize tls m = (m0, Inr ())"
    and "snd (peapHandle tls rnd packet rd (peapAfter tls ins m0)) = Inr r" "RAction r = ActionComplete"
  shows "seen_outer tls (ins @ [(rnd, packet, rd)]) m0 (ExportedMSK r) (Suc (length ins))
    \<and> (\<forall>xs. pServerName (peapAfter tls xs m0) = pServerName m)"
proof -
  let ?x = "(rnd, packet, rd)"
  have m0: "pPhase m0 = PeapOuterIdentity" "pServerName m0 = pServerName m"
    using assms(1) by (auto simp: peapInitialize_def peapReset_def Let_def split: if_splits sum.splits)
  have mv: "moves tls (packetOf ?x) (peapAfter tls ins m0) (peapAfter tls (ins @ [?x]) m0) (Inr r)"
    using step_moves [of tls ?x ins m0] assms(2) by simp
  from mv obtain k where "r = completeResult k" using assms(3) by cases auto
  then show ?thesis using phase_evidence_snoc(2) [OF phase_evidence_run [OF m0(1)] mv, of k] m0(2) by (simp add: peapAfter_name)
qed

text \<open>An engine that echoes what it is given and whose server certificate names \<^verbatim>\<open>a\<close> once it was fed.\<close>

definition sample_tls :: "bool TlsOps" where
  "sample_tls = \<lparr> NewEngine = (\<lambda>_ _. Inr False), TlsStart = (\<lambda>e. (e, Inr [1])), Feed = (\<lambda>_ _. (True, Inr ([], StepEstablished))),
     Established = id, VerifyServerIdentity = (\<lambda>name e. if e \<and> name = [97] then Inr () else Inl (Errorf ''name'')),
     Protect = (\<lambda>b e. (e, Inr b)), Unprotect = (\<lambda>b e. (e, Inr b)), ExportMSK = (\<lambda>_. Inr (replicate 64 7)), TlsClose = id \<rparr>"

definition sample_peap :: "bool Peap" where
  "sample_peap = NewPeap [97] [98] [99] \<lparr> OFragmentSize = 1024, OMaxMessageCount = 32, OIncludeLength = False,
     OStrongswanCompatible = False, OInsecureSkipVerify = False \<rparr>"

definition sample_rounds :: "peapInput list" where
  "sample_rounds =
    [(Inr [], [1, 1, 0, 6, 25, 0x20], 1), (Inr [], [1, 2, 0, 7, 25, 0, 9], 2),
     (Inr [], [1, 3, 0, 17, 25, 0, 1, 5, 0, 11, 33, 0x80, 3, 0, 2, 0, 1], 3)]"

lemmas sample_run_simps = sample_peap_def sample_tls_def sample_rounds_def NewPeap_def NewOutboundFragmenter_def
  NewInboundFragmenter_def peapInitialize_def peapReset_def peapHandle_def handleInner_def EapParse_def parsePeapRequest_def
  onPhase_def onOuterIdentity_def emitFragmentedOrSingle_def emitFragment_def FragStart_def Pending_def encodePeapResponse_def
  onRecord_def isAckRequest_def collectTLSRecord_def FragPush_def useFeed_def onTLSStep_def enterInner_def msInitialize_def
  NewMschapv2_def msReset_def useUnprotect_def handleInnerMethod_def DecodeInnerRequest_def completeInnerRequest_def
  completeEAPPacket_def isMSAVP_def msAVPSuccess_def emitProtected_def EncodeInnerResponse_def onOuterSuccess_def deref_def
  Let_def beUint16_def subslice_def

theorem peap_completion_proved_witness:
  "snd (peapHandle sample_tls (Inr []) [3, 4, 0, 4] 4 (peapAfter sample_tls sample_rounds (fst (peapInitialize sample_tls sample_peap))))
     = Inr (completeResult (replicate 64 7))
   \<and> seen_outer sample_tls (sample_rounds @ [(Inr [], [3, 4, 0, 4], 4)]) (fst (peapInitialize sample_tls sample_peap)) (replicate 64 7) 4"
proof -
  have init: "peapInitialize sample_tls sample_peap = (fst (peapInitialize sample_tls sample_peap), Inr ())"
    by (simp add: peapInitialize_def peapReset_def sample_peap_def sample_tls_def NewPeap_def NewOutboundFragmenter_def)
  have run: "snd (peapHandle sample_tls (Inr []) [3, 4, 0, 4] 4
      (peapAfter sample_tls sample_rounds (fst (peapInitialize sample_tls sample_peap)))) = Inr (completeResult (replicate 64 7))"
    by (simp add: sample_run_simps)
  have "length sample_rounds = 3" by (simp add: sample_rounds_def)
  then show ?thesis using peap_completion_proved [OF init run] run by simp
qed

end
