(* ===== verification/Spec2Isabelle.thy ===== *)
theory Spec2Isabelle
  imports Wire Payload_Codecs Std_Crypto Xcrypto_Cipher Xcrypto_Suite Esp_Replay Esp Framed_Wire Control_Auth Eap_Peap
begin

text \<open>Verification of a userspace IKEv2/ESP initiator.\<close>

end
